(* ===== verification/Prelude.thy ===== *)
theory Prelude
  imports Main "HOL-Library.DAList" "HOL-Library.Word" "HOL-Library.Option_ord"
begin

text \<open>
  Shared vocabulary of the development: Go values that every package of the program uses
  (maps, possibly nil maps, 64-bit integers, instants and durations, panics), the lemma
  collections and the generic facts about association lists.

  A Go \<^verbatim>\<open>map[K]V\<close> made with \<^verbatim>\<open>make\<close> is an \<open>('k, 'v) alist\<close> of
  HOL-Library.DAList: a finite list of entries with distinct keys. Its entry list stands for
  one iteration order of the map; Go leaves that order open, so a loop over a map comes with a
  lemma that its result depends on the lookup function only. A map variable that may be nil is
  a \<open>gomap\<close>, with \<open>None\<close> for nil: reading nil is reading the empty map, writing to
  nil panics.
\<close>

named_theorems gosimp \<open>unfolding rules of the Go vocabulary\<close>

section \<open>Panics\<close>

datatype go_panic =
    NilMapWrite
  | NilDereference
  | SendOnClosedChannel
  | CloseOfClosedChannel
  | CloseOfNilChannel
  | NonPositiveTicker
  | DivideByZero
  | BlockedForever

text \<open>
  \<open>BlockedForever\<close> is not a panic of Go but the other way not to continue: a send on a full
  channel that nobody reads. A computation that may panic: \<open>Inl\<close> the panic or \<open>Inr\<close> the value.
\<close>

type_synonym 'a go = "go_panic + 'a"

fun go_bind :: "'a go \<Rightarrow> ('a \<Rightarrow> 'b go) \<Rightarrow> 'b go" where
  "go_bind (Inl p) f = Inl p"
| "go_bind (Inr x) f = f x"

lemma go_bind_eq_Inr [simp]: "go_bind m f = Inr y \<longleftrightarrow> (\<exists>x. m = Inr x \<and> f x = Inr y)"
  by (cases m) auto

lemma go_bind_eq_Inl: "go_bind m f = Inl p \<longleftrightarrow> m = Inl p \<or> (\<exists>x. m = Inr x \<and> f x = Inl p)"
  by (cases m) auto

section \<open>Maps\<close>

abbreviation mget :: "('k, 'v) alist \<Rightarrow> 'k \<Rightarrow> 'v option" where
  "mget \<equiv> DAList.lookup"

abbreviation mput :: "'k \<Rightarrow> 'v \<Rightarrow> ('k, 'v) alist \<Rightarrow> ('k, 'v) alist" where
  "mput \<equiv> DAList.update"

abbreviation mdel :: "'k \<Rightarrow> ('k, 'v) alist \<Rightarrow> ('k, 'v) alist" where
  "mdel \<equiv> DAList.delete"

abbreviation mempty :: "('k, 'v) alist" where
  "mempty \<equiv> DAList.empty"

abbreviation mentries :: "('k, 'v) alist \<Rightarrow> ('k \<times> 'v) list" where
  "mentries \<equiv> DAList.impl_of"

abbreviation mvals :: "('k, 'v) alist \<Rightarrow> 'v list" where
  "mvals m \<equiv> List.map snd (mentries m)"

lemma mget_map_of: "mget m k = map_of (mentries m) k"
  by (simp add: DAList.lookup.rep_eq)

lemma mem_mentries [simp]: "(k, v) \<in> set (mentries m) \<longleftrightarrow> mget m k = Some v"
  by (simp add: mget_map_of)

lemma mentries_empty [simp]: "mentries mempty = []"
  by (simp add: DAList.empty.rep_eq)

lemma mentries_put: "mentries (mput k v m) = AList.update k v (mentries m)"
  by (simp add: DAList.update.rep_eq)

lemma mentries_del: "mentries (mdel k m) = AList.delete k (mentries m)"
  by (simp add: DAList.delete.rep_eq)

text \<open>Two maps with the same lookups have the same keys and hence the same size.\<close>

lemma mkeys_eq_dom: "set (List.map fst (mentries m)) = dom (mget m)"
  by (simp add: mget_map_of [abs_def] dom_map_of_conv_image_fst del: mem_mentries)

lemma mvals_eq_ran: "set (mvals m) = ran (mget m)"
  by (simp add: ran_distinct mget_map_of [abs_def] del: mem_mentries)

lemma list_all_mentries:
  "list_all (\<lambda>(k, v). P k v) (mentries m) \<longleftrightarrow> (\<forall>k v. mget m k = Some v \<longrightarrow> P k v)"
  by (force simp: list_all_iff)

lemma finite_dom_mget [simp, intro]: "finite (dom (mget m))"
  by (simp flip: mkeys_eq_dom)

lemma length_mentries: "length (mentries m) = card (dom (mget m))"
  using distinct_card [of "List.map fst (mentries m)"] by (simp flip: mkeys_eq_dom)

section \<open>Possibly nil maps\<close>

type_synonym ('k, 'v) gomap = "('k, 'v) alist option"

fun entries :: "('k, 'v) gomap \<Rightarrow> ('k \<times> 'v) list" where
  "entries None = []"
| "entries (Some m) = mentries m"

fun gget :: "('k, 'v) gomap \<Rightarrow> 'k \<Rightarrow> 'v option" where
  "gget None k = None"
| "gget (Some m) k = mget m k"

lemma mem_entries [simp]: "(k, v) \<in> set (entries m) \<longleftrightarrow> gget m k = Some v"
  by (cases m) auto

lemma gget_None [simp]: "gget None = Map.empty"
  by (rule ext) simp

lemma gget_Some: "gget (Some m) = mget m"
  by (rule ext) simp

lemma distinct_entries [simp]: "distinct (List.map fst (entries m))"
  by (cases m) auto

section \<open>64-bit integers\<close>

text \<open>
  Go's \<^verbatim>\<open>int64\<close>: a 64-bit word read in two's complement. The order is the signed one,
  the lattice operations are the minimum and the maximum, and incrementing wraps around.
\<close>

datatype i64 = I64 (i64_bits: "64 word")

definition i64_int :: "i64 \<Rightarrow> int" where
  "i64_int a = sint (i64_bits a)"

definition i64_of :: "int \<Rightarrow> i64" where
  "i64_of n = I64 (word_of_int n)"

definition i64_inc :: "i64 \<Rightarrow> i64" where
  "i64_inc a = I64 (i64_bits a + 1)"

definition i64_add :: "i64 \<Rightarrow> i64 \<Rightarrow> i64" where
  "i64_add a b = I64 (i64_bits a + i64_bits b)"

instantiation i64 :: linorder
begin

definition less_eq_i64 :: "i64 \<Rightarrow> i64 \<Rightarrow> bool" where
  "less_eq_i64 a b \<longleftrightarrow> i64_int a \<le> i64_int b"

definition less_i64 :: "i64 \<Rightarrow> i64 \<Rightarrow> bool" where
  "less_i64 a b \<longleftrightarrow> i64_int a < i64_int b"

instance
proof
  fix x y :: i64
  show "x \<le> y \<Longrightarrow> y \<le> x \<Longrightarrow> x = y"
    by (cases x; cases y) (auto simp: less_eq_i64_def i64_int_def intro!: signed_word_eqI [OF sym])
qed (auto simp: less_eq_i64_def less_i64_def)

end

instantiation i64 :: distrib_lattice
begin

definition inf_i64 :: "i64 \<Rightarrow> i64 \<Rightarrow> i64" where
  "inf_i64 = min"

definition sup_i64 :: "i64 \<Rightarrow> i64 \<Rightarrow> i64" where
  "sup_i64 = max"

instance
  by standard (auto simp: inf_i64_def sup_i64_def max_min_distrib2)

end

lemma i64_int_of: "- (2 ^ 63) \<le> n \<Longrightarrow> n < 2 ^ 63 \<Longrightarrow> i64_int (i64_of n) = n"
  by (simp add: i64_int_def i64_of_def sint_sbintrunc' signed_take_bit_int_eq_self)

lemma i64_of_inject:
  "- (2 ^ 63) \<le> a \<Longrightarrow> a < 2 ^ 63 \<Longrightarrow> - (2 ^ 63) \<le> b \<Longrightarrow> b < 2 ^ 63 \<Longrightarrow> i64_of a = i64_of b \<longleftrightarrow> a = b"
  by (metis i64_int_of)

lemma i64_of_int [simp]: "i64_of (i64_int a) = a"
  by (cases a) (simp add: i64_int_def i64_of_def)

lemma i64_int_bounds: "- (2 ^ 63) \<le> i64_int a" "i64_int a < 2 ^ 63"
  using sint_greater_eq [of "i64_bits a"] sint_less [of "i64_bits a"] by (auto simp: i64_int_def)

lemma i64_int_inject [simp]: "i64_int a = i64_int b \<longleftrightarrow> a = b"
  by (metis i64_of_int)

lemma i64_inc_of_int: "i64_inc a = i64_of (i64_int a + 1)"
  by (cases a) (simp add: i64_inc_def i64_of_def i64_int_def)

lemma i64_int_inc: "i64_int a < 2 ^ 63 - 1 \<Longrightarrow> i64_int (i64_inc a) = i64_int a + 1"
  using i64_int_bounds [of a] by (simp add: i64_inc_of_int i64_int_of)

lemma i64_add_of: "i64_add (i64_of a) (i64_of b) = i64_of (a + b)"
  by (simp add: i64_add_def i64_of_def)

text \<open>Go's division truncates towards zero.\<close>

definition i64_quot :: "i64 \<Rightarrow> i64 \<Rightarrow> i64 go" where
  "i64_quot a b =
     (if i64_int b = 0 then Inl DivideByZero
      else Inr (i64_of (sgn (i64_int a) * sgn (i64_int b) * (\<bar>i64_int a\<bar> div \<bar>i64_int b\<bar>))))"

lemma i64_less_inc: "i64_int a < 2 ^ 63 - 1 \<Longrightarrow> a < i64_inc a"
  by (simp add: less_i64_def i64_int_inc)

section \<open>Instants and durations\<close>

text \<open>
  \<^verbatim>\<open>time.Time\<close> is the number of nanoseconds since the zero instant of Go
  (1 January of year 1, UTC), so \<open>time_zero\<close> is 0 and \<^verbatim>\<open>IsZero\<close> compares with it.
  \<^verbatim>\<open>time.Duration\<close> is an \<open>int\<close> of nanoseconds; \<^verbatim>\<open>Sub\<close> saturates at the
  bounds of an int64, as Go's does. The clock is an input: every operation that calls
  \<^verbatim>\<open>time.Now\<close> takes the instants it reads as arguments.
\<close>

type_synonym gotime = int
type_synonym duration = int

definition time_zero :: gotime where
  "time_zero = 0"

definition IsZero :: "gotime \<Rightarrow> bool" where
  "IsZero t \<longleftrightarrow> t = time_zero"

definition After :: "gotime \<Rightarrow> gotime \<Rightarrow> bool" where
  "After t u \<longleftrightarrow> u < t"

definition max_duration :: duration where
  "max_duration = 2 ^ 63 - 1"

definition min_duration :: duration where
  "min_duration = - (2 ^ 63)"

definition Sub :: "gotime \<Rightarrow> gotime \<Rightarrow> duration" where
  "Sub t u = max min_duration (min max_duration (t - u))"

definition second :: duration where
  "second = 1000000000"

definition unix_epoch :: gotime where
  "unix_epoch = 62135596800 * 1000000000"

definition UnixNano :: "gotime \<Rightarrow> i64" where
  "UnixNano t = i64_of (t - unix_epoch)"

definition time_Unix0 :: "i64 \<Rightarrow> gotime" where
  "time_Unix0 n = unix_epoch + i64_int n"

lemma UnixNano_roundtrip: "time_Unix0 (UnixNano t) = t"
  if "- (2 ^ 63) \<le> t - unix_epoch" "t - unix_epoch < 2 ^ 63"
  using that by (simp add: time_Unix0_def UnixNano_def i64_int_of)

lemma Sub_gt_iff: "0 \<le> d \<Longrightarrow> d < max_duration \<Longrightarrow> d < Sub t u \<longleftrightarrow> u + d < t"
  by (auto simp: Sub_def max_duration_def min_duration_def)

text \<open>\<^verbatim>\<open>time.NewTicker\<close> panics on an interval that is not positive.\<close>

definition new_ticker :: "duration \<Rightarrow> unit go" where
  "new_ticker d = (if d \<le> 0 then Inl NonPositiveTicker else Inr ())"

section \<open>Buffered channels\<close>

text \<open>
  A buffered channel is its queue of values in flight, its capacity and whether it is closed.
  \<open>try_send\<close> is the non-blocking send \<^verbatim>\<open>select { case ch <- x: default: }\<close>: a full
  channel drops the value, a closed one panics.
\<close>

record 'a chan =
  ch_buf :: "'a list"
  ch_cap :: nat
  ch_closed :: bool

definition make_chan :: "nat \<Rightarrow> 'a chan" where
  "make_chan n = \<lparr>ch_buf = [], ch_cap = n, ch_closed = False\<rparr>"

definition try_send :: "'a \<Rightarrow> 'a chan \<Rightarrow> 'a chan go" where
  "try_send x c =
     (if ch_closed c then Inl SendOnClosedChannel
      else if length (ch_buf c) < ch_cap c then Inr (c\<lparr>ch_buf := ch_buf c @ [x]\<rparr>)
      else Inr c)"

definition send_chan :: "'a \<Rightarrow> 'a chan \<Rightarrow> 'a chan go" where
  "send_chan x c =
     (if ch_closed c then Inl SendOnClosedChannel
      else if length (ch_buf c) < ch_cap c then Inr (c\<lparr>ch_buf := ch_buf c @ [x]\<rparr>)
      else Inl BlockedForever)"

definition close_chan :: "'a chan \<Rightarrow> 'a chan go" where
  "close_chan c = (if ch_closed c then Inl CloseOfClosedChannel else Inr (c\<lparr>ch_closed := True\<rparr>))"

definition recv_chan :: "'a chan \<Rightarrow> ('a \<times> 'a chan) option" where
  "recv_chan c = (case ch_buf c of [] \<Rightarrow> None | x # xs \<Rightarrow> Some (x, c\<lparr>ch_buf := xs\<rparr>))"

definition chan_ok :: "'a chan \<Rightarrow> bool" where
  "chan_ok c \<longleftrightarrow> length (ch_buf c) \<le> ch_cap c"

lemma chan_ok_make [simp]: "chan_ok (make_chan n)"
  by (simp add: chan_ok_def make_chan_def)

lemma make_chan_simps [simp]:
  "ch_buf (make_chan n) = []" "ch_cap (make_chan n) = n" "\<not> ch_closed (make_chan n)"
  by (simp_all add: make_chan_def)

lemma try_send_ok: "try_send x c = Inr c' \<Longrightarrow> chan_ok c \<Longrightarrow>
    chan_ok c' \<and> ch_cap c' = ch_cap c \<and> \<not> ch_closed c'"
  by (auto simp: try_send_def chan_ok_def split: if_splits)

lemma try_send_open: "\<not> ch_closed c \<Longrightarrow> \<exists>c'. try_send x c = Inr c'"
  by (simp add: try_send_def)

lemma close_chan_ok: "close_chan c = Inr c' \<Longrightarrow> chan_ok c \<Longrightarrow>
    chan_ok c' \<and> ch_cap c' = ch_cap c \<and> ch_closed c'"
  by (auto simp: close_chan_def chan_ok_def split: if_splits)

lemma recv_chan_ok: "recv_chan c = Some (x, c') \<Longrightarrow> chan_ok c \<Longrightarrow>
    chan_ok c' \<and> ch_closed c' = ch_closed c \<and> ch_cap c' = ch_cap c"
  by (auto simp: recv_chan_def chan_ok_def split: list.splits)

section \<open>Decimal numerals\<close>

text \<open>What \<^verbatim>\<open>fmt.Sprintf("%d")\<close> prints for an integer.\<close>

definition digit_char :: "nat \<Rightarrow> char" where
  "digit_char d = char_of (48 + d)"

fun show_nat :: "nat \<Rightarrow> string" where
  "show_nat n = (if n < 10 then [digit_char n] else show_nat (n div 10) @ [digit_char (n mod 10)])"

declare show_nat.simps [simp del]

definition show_int :: "int \<Rightarrow> string" where
  "show_int i = (if i < 0 then CHR ''-'' # show_nat (nat (- i)) else show_nat (nat i))"

fun read_digits :: "string \<Rightarrow> nat \<Rightarrow> nat" where
  "read_digits [] n = n"
| "read_digits (c # cs) n = read_digits cs (10 * n + (of_char c - 48))"

lemma read_digits_append: "read_digits (xs @ ys) n = read_digits ys (read_digits xs n)"
  by (induction xs arbitrary: n) simp_all

lemma read_digit_char: "d < 10 \<Longrightarrow> of_char (digit_char d) - 48 = d"
  by (simp add: digit_char_def)

lemma read_show_nat: "read_digits (show_nat n) 0 = n"
proof (induction n rule: show_nat.induct)
  case (1 n)
  then show ?case
    by (subst show_nat.simps) (simp add: read_digits_append read_digit_char)
qed

lemma show_nat_head: "\<exists>d cs. show_nat n = digit_char d # cs \<and> d < 10"
proof (induction n rule: show_nat.induct)
  case (1 n)
  show ?case
  proof (cases "n < 10")
    case True
    then show ?thesis by (subst show_nat.simps) auto
  next
    case False
    with 1 obtain d cs where "show_nat (n div 10) = digit_char d # cs" "d < 10" by blast
    with False show ?thesis
      by (subst show_nat.simps) (auto intro!: exI [of _ d])
  qed
qed

lemma digit_char_minus [simp]: "d < 10 \<Longrightarrow> digit_char d \<noteq> CHR ''-''"
proof
  assume "d < 10" "digit_char d = CHR ''-''"
  then have "of_char (digit_char d) = (45::nat)" by simp
  with \<open>d < 10\<close> show False by (simp add: digit_char_def)
qed

lemma show_int_inject [simp]: "show_int i = show_int j \<longleftrightarrow> i = j"
proof
  assume eq: "show_int i = show_int j"
  have pos: "show_nat n \<noteq> CHR ''-'' # xs" for n xs
  proof -
    obtain d cs where "show_nat n = digit_char d # cs" "d < 10" using show_nat_head by blast
    then show ?thesis using digit_char_minus [of d] by simp
  qed
  have neg: "show_int k = CHR ''-'' # xs \<Longrightarrow> k < 0" for k xs
    using pos by (auto simp: show_int_def split: if_splits)
  have nat: "show_nat a = show_nat b \<Longrightarrow> a = b" for a b
    by (metis read_show_nat)
  show "i = j"
  proof (cases "i < 0")
    case True
    then have "show_int i = CHR ''-'' # show_nat (nat (- i))" by (simp add: show_int_def)
    with eq neg have "j < 0" by metis
    with eq True have "show_nat (nat (- i)) = show_nat (nat (- j))" by (simp add: show_int_def)
    from nat [OF this] True \<open>j < 0\<close> show ?thesis by simp
  next
    case False
    have "\<not> j < 0"
    proof
      assume "j < 0"
      then have "show_int j = CHR ''-'' # show_nat (nat (- j))" by (simp add: show_int_def)
      with eq neg have "i < 0" by metis
      with False show False by simp
    qed
    with eq False have "show_nat (nat i) = show_nat (nat j)" by (simp add: show_int_def)
    from nat [OF this] False \<open>\<not> j < 0\<close> show ?thesis by simp
  qed
qed simp

section \<open>Lists\<close>

lemma card_Diff_chain:
  assumes "A \<subseteq> B" and "B \<subseteq> C" and "finite C"
  shows "card (C - A) = card (C - B) + card (B - A)"
proof -
  have "C - A = (C - B) \<union> (B - A)" using assms by blast
  moreover have "(C - B) \<inter> (B - A) = {}" by blast
  ultimately show ?thesis
    using assms by (metis card_Un_disjoint finite_Diff finite_subset)
qed

lemma concat_pages:
  "n > 0 \<Longrightarrow> take n (drop (i * n) xs) @ drop (Suc i * n) xs = drop (i * n) xs"
  by (metis append_take_drop_id drop_drop mult_Suc)

lemma concat_pages_take:
  "concat (List.map (\<lambda>i. take n (drop (i * n) xs)) [0..<m]) = take (m * n) xs"
proof (induction m)
  case 0
  show ?case by simp
next
  case (Suc m)
  have "take (Suc m * n) xs = take (m * n) xs @ take n (drop (m * n) xs)"
    by (simp add: take_add [symmetric] add.commute)
  with Suc show ?case by simp
qed

end
