(* ===== verification/Models.thy ===== *)
theory Models
  imports Prelude
begin

text \<open>
  The shared types of \<^verbatim>\<open>pkg/models/models.go\<close> and the vector clock. Field names carry a
  short prefix of their struct, because two Go structs share field names and two HOL records
  may not: \<open>ns_\<close> NodeState, \<open>hr_\<close> HistoryRecord, \<open>ni_\<close> NetInterface,
  \<open>sl_\<close> SystemLoad, \<open>cs_\<close> ClusterState.

  The order and the least upper bound of vector clocks are those of the function type
  \<open>string \<Rightarrow> i64 option\<close>, where an absent entry lies below every present one:
  \<open>Compare\<close> decides this order and \<open>Merge\<close> computes the least upper bound.
\<close>

section \<open>Structs\<close>

text \<open>A \<^verbatim>\<open>float64\<close> is only ever copied by the program: it is kept as its 64 bits.\<close>

type_synonym float64 = "64 word"

type_synonym VectorClock = "(string, i64) gomap"

record NetInterface =
  ni_InterfaceName :: string
  ni_Speed :: i64
  ni_RxBytes :: "64 word"
  ni_TxBytes :: "64 word"

record SystemLoad =
  sl_LoadAvg1min :: float64
  sl_LoadAvg5min :: float64
  sl_LoadAvg15min :: float64

record NodeState =
  ns_NodeID :: string
  ns_IPAddress :: string
  ns_Status :: string
  ns_SystemType :: string
  ns_CPUUsage :: float64
  ns_MemoryUsage :: float64
  ns_DiskUsage :: float64
  ns_NetInterface :: NetInterface
  ns_SystemLoad :: SystemLoad
  ns_LastSeen :: gotime
  ns_LastUpdated :: gotime
  ns_Clock :: VectorClock

record HistoryRecord =
  hr_ID :: nat
  hr_NodeID :: string
  hr_Timestamp :: gotime
  hr_CPUUsage :: float64
  hr_MemoryUsage :: float64
  hr_DiskUsage :: float64
  hr_NetInterface :: NetInterface
  hr_SystemLoad :: SystemLoad
  hr_EventType :: string
  hr_Status :: string
  hr_Source :: string

record ClusterState =
  cs_ClusterName :: string
  cs_Nodes :: "(string, NodeState) alist"
  cs_LocalNodeID :: string
  cs_UpdatedAt :: gotime
  cs_Epoch :: i64

section \<open>Vector clocks\<close>

definition Increment :: "VectorClock \<Rightarrow> string \<Rightarrow> VectorClock go" where
  "Increment vc nodeID =
     (case vc of
        None \<Rightarrow> Inl NilMapWrite
      | Some m \<Rightarrow>
          Inr (Some (mput nodeID
            (i64_inc (case mget m nodeID of None \<Rightarrow> i64_of 0 | Some v \<Rightarrow> v)) m)))"

fun Compare_local :: "(string \<times> i64) list \<Rightarrow> VectorClock \<Rightarrow> bool \<times> bool \<Rightarrow> bool \<times> bool" where
  "Compare_local [] other flags = flags"
| "Compare_local ((nodeID, localVer) # es) other (localGreater, remoteGreater) =
     Compare_local es other
       (case gget other nodeID of
          None \<Rightarrow> (True, remoteGreater)
        | Some remoteVer \<Rightarrow>
            if localVer > remoteVer then (True, remoteGreater)
            else if localVer < remoteVer then (localGreater, True)
            else (localGreater, remoteGreater))"

fun Compare_remote :: "(string \<times> i64) list \<Rightarrow> VectorClock \<Rightarrow> bool \<Rightarrow> bool" where
  "Compare_remote [] vc remoteGreater = remoteGreater"
| "Compare_remote ((nodeID, _) # es) vc remoteGreater =
     Compare_remote es vc (case gget vc nodeID of None \<Rightarrow> True | Some _ \<Rightarrow> remoteGreater)"

definition Compare :: "VectorClock \<Rightarrow> VectorClock \<Rightarrow> int" where
  "Compare vc other =
     (let (localGreater, remoteGreater0) = Compare_local (entries vc) other (False, False);
          remoteGreater = Compare_remote (entries other) vc remoteGreater0
      in if localGreater \<and> \<not> remoteGreater then 1
         else if remoteGreater \<and> \<not> localGreater then -1
         else 0)"

fun Merge_loop :: "(string \<times> i64) list \<Rightarrow> (string, i64) alist \<Rightarrow> (string, i64) alist" where
  "Merge_loop [] m = m"
| "Merge_loop ((nodeID, ver) # es) m =
     Merge_loop es
       (case mget m nodeID of
          None \<Rightarrow> mput nodeID ver m
        | Some current \<Rightarrow> if ver > current then mput nodeID ver m else m)"

definition Merge :: "VectorClock \<Rightarrow> VectorClock \<Rightarrow> VectorClock go" where
  "Merge vc other =
     (case vc of
        None \<Rightarrow> if entries other = [] then Inr None else Inl NilMapWrite
      | Some m \<Rightarrow> Inr (Some (Merge_loop (entries other) m)))"

subsection \<open>Comparison decides the pointwise order\<close>

lemma Compare_local_flags:
  "Compare_local es other (lg, rg) =
     (lg \<or> list_ex (\<lambda>(k, v). \<not> Some v \<le> gget other k) es,
      rg \<or> list_ex (\<lambda>(k, v). \<exists>r. gget other k = Some r \<and> v < r) es)"
proof (induction es arbitrary: lg rg)
  case Nil
  show ?case by simp
next
  case (Cons e es)
  obtain k v where "e = (k, v)" by (cases e)
  with Cons.IH show ?case by (cases "gget other k") (auto simp: not_le)
qed

lemma Compare_remote_flag:
  "Compare_remote es vc rg \<longleftrightarrow> rg \<or> list_ex (\<lambda>(k, v). gget vc k = None) es"
proof (induction es arbitrary: rg)
  case Nil
  show ?case by simp
next
  case (Cons e es)
  obtain k v where "e = (k, v)" by (cases e)
  with Cons.IH show ?case by (cases "gget vc k") auto
qed

lemma list_ex_entries: "list_ex (\<lambda>(k, v). P k v) (entries a) \<longleftrightarrow> (\<exists>k v. gget a k = Some v \<and> P k v)"
  by (force simp: list_ex_iff)

lemma not_le_entries:
  fixes a b :: VectorClock
  shows "(\<exists>k v. gget a k = Some v \<and> \<not> Some v \<le> gget b k) \<longleftrightarrow> \<not> gget a \<le> gget b"
proof -
  have "(\<exists>v. gget a k = Some v \<and> \<not> Some v \<le> gget b k) \<longleftrightarrow> \<not> gget a k \<le> gget b k" for k
    by (cases "gget a k") auto
  then show ?thesis by (auto simp: le_fun_def)
qed

lemma remote_greater_iff:
  fixes a b :: VectorClock
  shows "(\<exists>k v. gget a k = Some v \<and> (\<exists>r. gget b k = Some r \<and> v < r)) \<or>
   (\<exists>k v. gget b k = Some v \<and> gget a k = None) \<longleftrightarrow> \<not> gget b \<le> gget a"
proof -
  have "(\<exists>v r. gget a k = Some v \<and> gget b k = Some r \<and> v < r) \<or>
        (\<exists>v. gget b k = Some v \<and> gget a k = None) \<longleftrightarrow> \<not> gget b k \<le> gget a k" for k
    by (cases "gget a k"; cases "gget b k") (auto simp: not_le)
  then show ?thesis by (simp add: le_fun_def) blast
qed

lemma Compare_order:
  "Compare a b = (if gget a = gget b then 0
                  else if gget b \<le> gget a then 1
                  else if gget a \<le> gget b then -1
                  else 0)"
proof -
  obtain lg rg0 where l: "Compare_local (entries a) b (False, False) = (lg, rg0)"
    by fastforce
  have lg: "lg \<longleftrightarrow> \<not> gget a \<le> gget b"
    using l by (simp add: Compare_local_flags list_ex_entries not_le_entries)
  have rg: "Compare_remote (entries b) a rg0 \<longleftrightarrow> \<not> gget b \<le> gget a"
    using l remote_greater_iff [of a b] by (simp add: Compare_local_flags Compare_remote_flag list_ex_entries)
  show ?thesis
    by (auto simp: Compare_def l lg rg)
qed

lemma Compare_eq_1: "Compare a b = 1 \<longleftrightarrow> gget b < gget a"
  by (auto simp: Compare_order less_le)

lemma Compare_eq_m1: "Compare a b = -1 \<longleftrightarrow> gget a < gget b"
  by (auto simp: Compare_order less_le)

lemma Compare_eq_0:
  "Compare a b = 0 \<longleftrightarrow> gget a = gget b \<or> (\<not> gget a \<le> gget b \<and> \<not> gget b \<le> gget a)"
  by (auto simp: Compare_order)

lemma Compare_range: "Compare a b \<in> {-1, 0, 1}"
  by (simp add: Compare_order)

lemma Compare_swap: "Compare b a = - Compare a b"
  by (auto simp: Compare_order intro: antisym)

lemma Compare_cong: "gget a = gget a' \<Longrightarrow> gget b = gget b' \<Longrightarrow> Compare a b = Compare a' b'"
  by (simp add: Compare_order)

subsection \<open>Merging computes the least upper bound\<close>

lemma mget_Merge_loop:
  "distinct (List.map fst es) \<Longrightarrow> mget (Merge_loop es m) = sup (mget m) (map_of es)"
proof (induction es arbitrary: m)
  case Nil
  then show ?case by (simp add: fun_eq_iff sup_fun_def)
next
  case (Cons e es)
  obtain k v where e: "e = (k, v)" by (cases e)
  let ?m = "case mget m k of None \<Rightarrow> mput k v m
            | Some current \<Rightarrow> if v > current then mput k v m else m"
  have put: "mget ?m = (mget m)(k := sup (mget m k) (Some v))"
    by (auto simp: fun_eq_iff DAList.lookup_update sup_i64_def max_def not_less split: option.splits)
  from Cons.prems e have "map_of es k = None"
    by (auto simp: map_of_eq_None_iff)
  with put Cons e show ?case
    by (simp add: fun_eq_iff sup_fun_def)
qed

lemma map_of_entries: "map_of (entries m) = gget m"
  by (cases m) (auto simp: mget_map_of fun_eq_iff simp del: mem_mentries)

lemma gget_Merge: "Merge a b = Inr c \<Longrightarrow> gget c = sup (gget a) (gget b)"
  by (cases a; cases b)
     (auto simp: Merge_def gget_Some mget_Merge_loop map_of_entries fun_eq_iff sup_fun_def mget_map_of
           simp del: mem_mentries split: if_splits)

lemma Merge_Some: "\<exists>m'. Merge (Some m) b = Inr (Some m')"
  by (simp add: Merge_def)

lemma Merge_panics: "Merge a b = Inl p \<longleftrightarrow> a = None \<and> entries b \<noteq> [] \<and> p = NilMapWrite"
  by (auto simp: Merge_def split: option.splits)

lemma Merge_ge: "Merge a b = Inr c \<Longrightarrow> gget a \<le> gget c \<and> gget b \<le> gget c"
  by (simp add: gget_Merge)

subsection \<open>Incrementing\<close>

lemma gget_Increment:
  "Increment (Some m) n = Inr vc \<Longrightarrow>
     gget vc = (mget m)(n \<mapsto> i64_inc (case mget m n of None \<Rightarrow> i64_of 0 | Some v \<Rightarrow> v))"
  by (auto simp: Increment_def gget_Some fun_eq_iff DAList.lookup_update)

lemma Increment_less:
  assumes "Increment (Some m) n = Inr vc" and "\<forall>v. mget m n = Some v \<longrightarrow> i64_int v < 2 ^ 63 - 1"
  shows "mget m < gget vc"
proof -
  let ?v = "case mget m n of None \<Rightarrow> i64_of 0 | Some v \<Rightarrow> v"
  have up: "mget m n < Some (i64_inc ?v)"
    using assms(2) by (cases "mget m n") (auto intro: i64_less_inc)
  then have "mget m \<le> gget vc"
    by (auto simp: gget_Increment [OF assms(1)] le_fun_def less_imp_le)
  moreover have "\<not> gget vc \<le> mget m"
    using up by (auto simp: gget_Increment [OF assms(1)] le_fun_def not_le intro!: exI [of _ n])
  ultimately show ?thesis by (simp add: less_le_not_le)
qed

end
