(* ===== verification/Storage.thy ===== *)
theory Storage
  imports Models
begin

text \<open>
  \<^verbatim>\<open>pkg/storage/storage.go\<close>: the persistence layer. GORM and SQLite are third-party
  code, so the database is a parameter: a record \<open>gorm\<close> of the calls the package makes,
  over a type \<open>'db\<close> of database states the package never looks into. What the package
  relies on is the locale \<open>gorm_sqlite\<close> (the documented effect of each call on the two
  tables), and \<open>MemDB\<close> interprets it on an executable table implementation.

  Query builders are data: the \<^verbatim>\<open>Where\<close>, \<^verbatim>\<open>Order\<close>, \<^verbatim>\<open>Offset\<close>
  and \<^verbatim>\<open>Limit\<close> calls of one method chain become a value of type \<open>query\<close>.
\<close>

section \<open>What the package asks of GORM and SQLite\<close>

datatype db_error =
    ErrRecordNotFound
  | DBError string
  | Wrapped string db_error

text \<open>\<^verbatim>\<open>errors.Is(err, gorm.ErrRecordNotFound)\<close>: unwraps the chain.\<close>

fun is_not_found :: "db_error \<Rightarrow> bool" where
  "is_not_found ErrRecordNotFound = True"
| "is_not_found (DBError _) = False"
| "is_not_found (Wrapped _ e) = is_not_found e"

datatype cond =
    NodeIdIs string
  | TimestampGe gotime
  | TimestampLt gotime

datatype ordering = TimestampAsc | TimestampDesc

record query =
  q_where :: "cond list"
  q_order :: ordering
  q_offset :: int
  q_limit :: "int option"

fun cond_holds :: "HistoryRecord \<Rightarrow> cond \<Rightarrow> bool" where
  "cond_holds r (NodeIdIs n) \<longleftrightarrow> hr_NodeID r = n"
| "cond_holds r (TimestampGe t) \<longleftrightarrow> t \<le> hr_Timestamp r"
| "cond_holds r (TimestampLt t) \<longleftrightarrow> hr_Timestamp r < t"

abbreviation matches :: "cond list \<Rightarrow> HistoryRecord \<Rightarrow> bool" where
  "matches cs r \<equiv> \<forall>c \<in> set cs. cond_holds r c"

fun cut :: "int \<Rightarrow> int option \<Rightarrow> 'a list \<Rightarrow> 'a list" where
  "cut offset None xs = drop (nat offset) xs"
| "cut offset (Some limit) xs = take (nat limit) (drop (nat offset) xs)"

fun ordered_by :: "ordering \<Rightarrow> HistoryRecord list \<Rightarrow> bool" where
  "ordered_by TimestampAsc rs \<longleftrightarrow> sorted (List.map hr_Timestamp rs)"
| "ordered_by TimestampDesc rs \<longleftrightarrow> sorted (rev (List.map hr_Timestamp rs))"

record 'db gorm =
  g_Open :: "string \<Rightarrow> db_error + 'db"
  g_AutoMigrate :: "'db \<Rightarrow> db_error option \<times> 'db"
  g_DB :: "'db \<Rightarrow> db_error option"
  g_SetMaxOpenConns :: "int \<Rightarrow> 'db \<Rightarrow> 'db"
  g_Exec :: "string \<Rightarrow> 'db \<Rightarrow> db_error option \<times> 'db"
  g_Close :: "'db \<Rightarrow> db_error option \<times> 'db"
  g_UpsertNode :: "NodeState \<Rightarrow> 'db \<Rightarrow> db_error option \<times> 'db"
  g_FirstNode :: "string \<Rightarrow> 'db \<Rightarrow> db_error + NodeState"
  g_FindNodes :: "'db \<Rightarrow> db_error + NodeState list"
  g_DeleteNode :: "string \<Rightarrow> 'db \<Rightarrow> db_error option \<times> 'db"
  g_InsertHistory :: "HistoryRecord \<Rightarrow> 'db \<Rightarrow> (i64 \<times> db_error option) \<times> 'db"
  g_FindHistory :: "query \<Rightarrow> 'db \<Rightarrow> db_error + HistoryRecord list"
  g_FirstHistory :: "ordering \<Rightarrow> 'db \<Rightarrow> db_error + HistoryRecord"
  g_DeleteHistory :: "cond list \<Rightarrow> 'db \<Rightarrow> (i64 \<times> db_error option) \<times> 'db"

text \<open>
  What the struct tags of \<^verbatim>\<open>models.go\<close> tell GORM to store: the clock of a node carries
  \<^verbatim>\<open>gorm:"-"\<close> and is not a column; an empty event type or source of a history record
  takes the column's default. The unique index that \<open>New\<close> creates is on \<open>hr_key\<close>.
\<close>

definition stored_node :: "NodeState \<Rightarrow> NodeState" where
  "stored_node ns = ns\<lparr>ns_Clock := None\<rparr>"

definition stored_history :: "HistoryRecord \<Rightarrow> HistoryRecord" where
  "stored_history hr = hr\<lparr>
     hr_EventType := (if hr_EventType hr = [] then ''metric_update'' else hr_EventType hr),
     hr_Source := (if hr_Source hr = [] then ''local'' else hr_Source hr)\<rparr>"

definition hr_key :: "HistoryRecord \<Rightarrow> string \<times> gotime \<times> string" where
  "hr_key r = (hr_NodeID r, hr_Timestamp r, hr_EventType r)"

section \<open>The package\<close>

definition drop_old_index_sql :: string where
  "drop_old_index_sql = ''DROP INDEX IF EXISTS idx_history_node_version_event''"

definition create_index_sql :: string where
  "create_index_sql =
     ''CREATE UNIQUE INDEX IF NOT EXISTS idx_history_node_timestamp_event ON history_records(node_id, timestamp, event_type)''"

definition exec_or :: "'db gorm \<Rightarrow> string \<Rightarrow> string \<Rightarrow> db_error + 'db \<Rightarrow> db_error + 'db" where
  "exec_or D msg sql r =
     (case r of
        Inl e \<Rightarrow> Inl e
      | Inr d \<Rightarrow> (case g_Exec D sql d of
                    (Some e, _) \<Rightarrow> Inl (Wrapped msg e)
                  | (None, d') \<Rightarrow> Inr d'))"

definition New :: "'db gorm \<Rightarrow> string \<Rightarrow> db_error + 'db" where
  "New D dbPath =
     (case g_Open D dbPath of
        Inl e \<Rightarrow> Inl e
      | Inr d \<Rightarrow>
         (case g_AutoMigrate D d of
            (Some e, _) \<Rightarrow> Inl e
          | (None, d1) \<Rightarrow>
             (case g_DB D d1 of
                Some e \<Rightarrow> Inl e
              | None \<Rightarrow>
                 exec_or D ''create unique index: '' create_index_sql
                   (exec_or D ''drop old unique index: '' drop_old_index_sql
                     (exec_or D ''set busy timeout: '' ''PRAGMA busy_timeout=5000;''
                       (exec_or D ''enable WAL mode: '' ''PRAGMA journal_mode=WAL;''
                         (Inr (g_SetMaxOpenConns D 1 d1))))))))"

definition Close :: "'db gorm \<Rightarrow> 'db \<Rightarrow> db_error option \<times> 'db" where
  "Close D d = (case g_DB D d of Some e \<Rightarrow> (Some e, d) | None \<Rightarrow> g_Close D d)"

definition SaveNodeState :: "'db gorm \<Rightarrow> NodeState \<Rightarrow> 'db \<Rightarrow> db_error option \<times> 'db" where
  "SaveNodeState D ns d = g_UpsertNode D ns d"

definition GetNodeState :: "'db gorm \<Rightarrow> string \<Rightarrow> 'db \<Rightarrow> db_error + NodeState" where
  "GetNodeState D nodeID d = g_FirstNode D nodeID d"

definition GetAllNodeStates :: "'db gorm \<Rightarrow> 'db \<Rightarrow> db_error + NodeState list" where
  "GetAllNodeStates D d = g_FindNodes D d"

definition DeleteNodeState :: "'db gorm \<Rightarrow> string \<Rightarrow> 'db \<Rightarrow> db_error option \<times> 'db" where
  "DeleteNodeState D nodeID d = g_DeleteNode D nodeID d"

definition SaveHistoryRecord :: "'db gorm \<Rightarrow> HistoryRecord \<Rightarrow> 'db \<Rightarrow> db_error option \<times> 'db" where
  "SaveHistoryRecord D hr d = (let ((_, e), d') = g_InsertHistory D hr d in (e, d'))"

definition GetNodeHistory ::
    "'db gorm \<Rightarrow> string \<Rightarrow> gotime \<Rightarrow> gotime \<Rightarrow> 'db \<Rightarrow> db_error + HistoryRecord list" where
  "GetNodeHistory D nodeID since until d =
     g_FindHistory D
       \<lparr>q_where = [NodeIdIs nodeID]
          @ (if IsZero since then [] else [TimestampGe since])
          @ (if IsZero until then [] else [TimestampLt until]),
        q_order = TimestampAsc, q_offset = 0, q_limit = None\<rparr> d"

definition CleanOldRecords ::
    "'db gorm \<Rightarrow> gotime \<Rightarrow> duration \<Rightarrow> 'db \<Rightarrow> (i64 \<times> db_error option) \<times> 'db" where
  "CleanOldRecords D now retention d =
     (let cutoff = now + (- retention) in g_DeleteHistory D [TimestampLt cutoff] d)"

definition page_limit :: "int \<Rightarrow> int" where
  "page_limit limit = (if limit \<le> 0 \<or> limit > 500 then 500 else limit)"

definition GetAllHistorySince ::
    "'db gorm \<Rightarrow> gotime \<Rightarrow> int \<Rightarrow> int \<Rightarrow> 'db \<Rightarrow> db_error + HistoryRecord list" where
  "GetAllHistorySince D since offset limit d =
     g_FindHistory D
       \<lparr>q_where = (if IsZero since then [] else [TimestampGe since]),
        q_order = TimestampAsc, q_offset = offset, q_limit = Some (page_limit limit)\<rparr> d"

definition GetLatestHistoryTime :: "'db gorm \<Rightarrow> 'db \<Rightarrow> db_error + gotime" where
  "GetLatestHistoryTime D d =
     (case g_FirstHistory D TimestampDesc d of
        Inl e \<Rightarrow> if is_not_found e then Inr time_zero else Inl e
      | Inr hr \<Rightarrow> Inr (hr_Timestamp hr))"

fun Import_loop ::
    "'db gorm \<Rightarrow> HistoryRecord list \<Rightarrow> i64 \<Rightarrow> 'db \<Rightarrow> (i64 \<times> db_error option) \<times> 'db" where
  "Import_loop D [] inserted d = ((inserted, None), d)"
| "Import_loop D (r # rs) inserted d =
     (case g_InsertHistory D r d of
        ((_, Some e), d') \<Rightarrow> ((inserted, Some e), d')
      | ((n, None), d') \<Rightarrow> Import_loop D rs (i64_add inserted n) d')"

definition ImportHistoryRecords ::
    "'db gorm \<Rightarrow> HistoryRecord list \<Rightarrow> 'db \<Rightarrow> (i64 \<times> db_error option) \<times> 'db" where
  "ImportHistoryRecords D records d =
     (if records = [] then ((i64_of 0, None), d) else Import_loop D records (i64_of 0) d)"

end
