(* ===== verification/StorageSpec.thy ===== *)
theory StorageSpec
  imports Storage
begin

text \<open>
  What the storage package promises. \<open>gorm_sqlite\<close> states the documented effect of
  GORM over SQLite on the two tables of the program: the rows of the node table, the set of
  rows of the history table and the scan a query runs over it. \<open>history_store\<close> is the
  smaller contract that the state manager and the history synchronisation rely on; the
  functions of \<open>Storage\<close> satisfy it over any database that satisfies
  \<open>gorm_sqlite\<close>.
\<close>

section \<open>The contract of the database\<close>

text \<open>
  \<open>ready d\<close>: the tables are migrated and the unique index exists. An insert that hits the
  primary key or the unique index does nothing and reports no row; a statement that fails has
  no effect; a query is one scan of the matching rows in timestamp order, cut by its offset and
  limit (the order of rows with equal timestamps is the scan's own).
\<close>

locale gorm_sqlite =
  fixes D :: "'db gorm"
    and migrated :: "'db \<Rightarrow> bool"
    and ready :: "'db \<Rightarrow> bool"
    and node_tab :: "'db \<Rightarrow> string \<Rightarrow> NodeState option"
    and hist_tab :: "'db \<Rightarrow> HistoryRecord set"
    and scan :: "cond list \<Rightarrow> ordering \<Rightarrow> 'db \<Rightarrow> HistoryRecord list"
  assumes migrate: "g_AutoMigrate D d = (None, d') \<Longrightarrow> migrated d'"
    and set_conns: "migrated d \<Longrightarrow> migrated (g_SetMaxOpenConns D conns d)"
    and exec_migrated: "migrated d \<Longrightarrow> g_Exec D sql d = (res, d') \<Longrightarrow> migrated d'"
    and exec_index: "migrated d \<Longrightarrow> g_Exec D create_index_sql d = (None, d') \<Longrightarrow> ready d'"
    and upsert_ok: "ready d \<Longrightarrow> g_UpsertNode D ns d = (None, d') \<Longrightarrow>
      ready d' \<and> node_tab d' = (node_tab d)(ns_NodeID ns \<mapsto> stored_node ns) \<and> hist_tab d' = hist_tab d"
    and upsert_err: "ready d \<Longrightarrow> g_UpsertNode D ns d = (Some e, d') \<Longrightarrow>
      ready d' \<and> node_tab d' = node_tab d \<and> hist_tab d' = hist_tab d"
    and first_node: "ready d \<Longrightarrow> g_FirstNode D n d = Inr ns \<Longrightarrow> node_tab d n = Some ns"
    and first_node_none: "ready d \<Longrightarrow> g_FirstNode D n d = Inl ErrRecordNotFound \<Longrightarrow> node_tab d n = None"
    and find_nodes: "ready d \<Longrightarrow> g_FindNodes D d = Inr nss \<Longrightarrow>
      distinct nss \<and> set nss = ran (node_tab d)"
    and node_tab_id: "ready d \<Longrightarrow> node_tab d n = Some ns \<Longrightarrow> ns_NodeID ns = n"
    and delete_node: "ready d \<Longrightarrow> g_DeleteNode D n d = (res, d') \<Longrightarrow>
      ready d' \<and> hist_tab d' = hist_tab d \<and>
      node_tab d' = (if res = None then (node_tab d)(n := None) else node_tab d)"
    and insert_err: "ready d \<Longrightarrow> g_InsertHistory D hr d = ((cnt, Some e), d') \<Longrightarrow>
      ready d' \<and> node_tab d' = node_tab d \<and> hist_tab d' = hist_tab d"
    and insert_dup: "ready d \<Longrightarrow> g_InsertHistory D hr d = ((cnt, None), d') \<Longrightarrow>
      (\<exists>x \<in> hist_tab d. hr_key x = hr_key (stored_history hr) \<or> (hr_ID hr \<noteq> 0 \<and> hr_ID x = hr_ID hr)) \<Longrightarrow>
      cnt = i64_of 0 \<and> ready d' \<and> node_tab d' = node_tab d \<and> hist_tab d' = hist_tab d"
    and insert_new: "ready d \<Longrightarrow> g_InsertHistory D hr d = ((cnt, None), d') \<Longrightarrow>
      \<not> (\<exists>x \<in> hist_tab d. hr_key x = hr_key (stored_history hr) \<or> (hr_ID hr \<noteq> 0 \<and> hr_ID x = hr_ID hr)) \<Longrightarrow>
      cnt = i64_of 1 \<and> ready d' \<and> node_tab d' = node_tab d \<and>
      (\<exists>i. (hr_ID hr \<noteq> 0 \<longrightarrow> i = hr_ID hr) \<and>
           hist_tab d' = insert (stored_history hr\<lparr>hr_ID := i\<rparr>) (hist_tab d))"
    and scan_rows: "ready d \<Longrightarrow> set (scan cs ord d) = {r \<in> hist_tab d. matches cs r}"
    and scan_distinct: "ready d \<Longrightarrow> distinct (scan cs ord d)"
    and scan_ordered: "ready d \<Longrightarrow> ordered_by ord (scan cs ord d)"
    and find_history: "ready d \<Longrightarrow> g_FindHistory D q d = Inr rs \<Longrightarrow>
      rs = cut (q_offset q) (q_limit q) (scan (q_where q) (q_order q) d)"
    and first_history: "ready d \<Longrightarrow> g_FirstHistory D ord d = Inr r \<Longrightarrow>
      r \<in> hist_tab d \<and> hr_Timestamp r = hr_Timestamp (hd (scan [] ord d))"
    and first_history_none: "ready d \<Longrightarrow> g_FirstHistory D ord d = Inl e \<Longrightarrow> is_not_found e \<Longrightarrow>
      hist_tab d = {}"
    and delete_history: "ready d \<Longrightarrow> g_DeleteHistory D cs d = ((cnt, None), d') \<Longrightarrow>
      ready d' \<and> node_tab d' = node_tab d \<and> hist_tab d' = {r \<in> hist_tab d. \<not> matches cs r} \<and>
      cnt = i64_of (int (card {r \<in> hist_tab d. matches cs r}))"
    and delete_history_err: "ready d \<Longrightarrow> g_DeleteHistory D cs d = ((cnt, Some e), d') \<Longrightarrow>
      ready d' \<and> node_tab d' = node_tab d \<and> hist_tab d' = hist_tab d"
    and unique_keys: "ready d \<Longrightarrow> inj_on hr_key (hist_tab d)"
    and unique_ids: "ready d \<Longrightarrow> inj_on hr_ID (hist_tab d)"
begin

definition hist_keys :: "'db \<Rightarrow> (string \<times> gotime \<times> string) set" where
  "hist_keys d = hr_key ` hist_tab d"

lemma set_scan_all: "ready d \<Longrightarrow> set (scan [] ord d) = hist_tab d"
  by (simp add: scan_rows)

lemma finite_hist: "ready d \<Longrightarrow> finite (hist_tab d)"
  by (metis List.finite_set set_scan_all)

lemma hr_key_ID [simp]: "hr_key (r\<lparr>hr_ID := i\<rparr>) = hr_key r"
  by (simp add: hr_key_def)

text \<open>An insert, success or not, keeps the rows there are.\<close>

lemma insert_history_grows:
  assumes "ready d" and "g_InsertHistory D hr d = ((cnt, e), d')"
  shows "ready d' \<and> node_tab d' = node_tab d \<and> hist_tab d \<subseteq> hist_tab d'"
proof (cases e)
  case None
  with assms show ?thesis
    using insert_dup [of d hr cnt d'] insert_new [of d hr cnt d'] by blast
next
  case (Some x)
  with assms show ?thesis
    using insert_err [of d hr cnt x d'] by blast
qed

lemma insert_history_fresh:
  assumes "ready d" and "hr_ID hr = 0" and "g_InsertHistory D hr d = ((cnt, None), d')"
  shows "hist_keys d' = insert (hr_key (stored_history hr)) (hist_keys d)"
proof (cases "hr_key (stored_history hr) \<in> hist_keys d")
  case True
  then have dup: "\<exists>x \<in> hist_tab d. hr_key x = hr_key (stored_history hr) \<or> (hr_ID hr \<noteq> 0 \<and> hr_ID x = hr_ID hr)"
    by (auto simp: hist_keys_def)
  then show ?thesis
    using insert_dup [OF assms(1,3) dup] True by (auto simp: hist_keys_def)
next
  case False
  then have "\<not> (\<exists>x \<in> hist_tab d. hr_key x = hr_key (stored_history hr) \<or> (hr_ID hr \<noteq> 0 \<and> hr_ID x = hr_ID hr))"
    using assms(2) by (auto simp: hist_keys_def) (metis rev_image_eqI)
  from insert_new [OF assms(1,3) this] show ?thesis
    by (auto simp: hist_keys_def)
qed

text \<open>A bulk import adds rows only and reports exactly how many it added.\<close>

lemma insert_history_count:
  assumes "ready d" and "g_InsertHistory D hr d = ((cnt, None), d')"
  shows "cnt = i64_of (int (card (hist_tab d' - hist_tab d)))"
proof (cases "\<exists>x \<in> hist_tab d. hr_key x = hr_key (stored_history hr) \<or> (hr_ID hr \<noteq> 0 \<and> hr_ID x = hr_ID hr)")
  case True
  from insert_dup [OF assms True] show ?thesis by simp
next
  case False
  from insert_new [OF assms False] obtain i
    where i: "hist_tab d' = insert (stored_history hr\<lparr>hr_ID := i\<rparr>) (hist_tab d)" "cnt = i64_of 1"
    by blast
  have "stored_history hr\<lparr>hr_ID := i\<rparr> \<notin> hist_tab d"
    using False by (metis hr_key_ID)
  then have "hist_tab d' - hist_tab d = {stored_history hr\<lparr>hr_ID := i\<rparr>}"
    using i by blast
  with i show ?thesis by simp
qed

lemma Import_loop_spec:
  assumes "ready d" and "Import_loop D rs (i64_of m) d = ((n, res), d')"
  shows "ready d' \<and> node_tab d' = node_tab d \<and> hist_tab d \<subseteq> hist_tab d' \<and>
    card (hist_tab d' - hist_tab d) \<le> length rs \<and>
    n = i64_of (m + int (card (hist_tab d' - hist_tab d)))"
  using assms
proof (induction rs arbitrary: m d)
  case Nil
  then show ?case by simp
next
  case (Cons r rs)
  obtain cnt res1 d1 where ins: "g_InsertHistory D r d = ((cnt, res1), d1)"
    by (metis prod.exhaust)
  have grows: "ready d1" "node_tab d1 = node_tab d" "hist_tab d \<subseteq> hist_tab d1"
    using insert_history_grows [OF Cons.prems(1) ins] by auto
  show ?case
  proof (cases res1)
    case (Some e)
    with Cons.prems ins insert_err [OF Cons.prems(1)] show ?thesis by fastforce
  next
    case None
    let ?k = "card (hist_tab d1 - hist_tab d)"
    have cnt: "cnt = i64_of (int ?k)"
      using insert_history_count [OF Cons.prems(1)] ins None by blast
    have one: "?k \<le> 1"
    proof (cases "hist_tab d1 = hist_tab d")
      case False
      then obtain i where "hist_tab d1 = insert (stored_history r\<lparr>hr_ID := i\<rparr>) (hist_tab d)"
        using insert_new [OF Cons.prems(1)] insert_dup [OF Cons.prems(1)] ins None by metis
      then have "hist_tab d1 - hist_tab d \<subseteq> {stored_history r\<lparr>hr_ID := i\<rparr>}" by blast
      then show ?thesis
        using card_mono [of "{stored_history r\<lparr>hr_ID := i\<rparr>}"] by fastforce
    qed simp
    from Cons.prems(2) ins None cnt
    have "Import_loop D rs (i64_of (m + int ?k)) d1 = ((n, res), d')"
      by (simp add: i64_add_of)
    from Cons.IH [OF grows(1) this] grows one
      card_Diff_chain [of "hist_tab d" "hist_tab d1" "hist_tab d'"] finite_hist [of d']
    show ?thesis by (auto simp: algebra_simps)
  qed
qed

text \<open>
  After an import that reports no error, each record's key is there, unless a row with the
  same (nonzero) identifier was already stored.
\<close>

lemma insert_history_present:
  assumes "ready d" and "g_InsertHistory D hr d = ((cnt, None), d')"
  shows "hr_key (stored_history hr) \<in> hist_keys d' \<or>
    (hr_ID hr \<noteq> 0 \<and> (\<exists>x \<in> hist_tab d'. hr_ID x = hr_ID hr))"
proof (cases "\<exists>x \<in> hist_tab d. hr_key x = hr_key (stored_history hr) \<or> (hr_ID hr \<noteq> 0 \<and> hr_ID x = hr_ID hr)")
  case True
  with insert_dup [OF assms True] show ?thesis
    by (simp add: hist_keys_def) (metis image_eqI)
next
  case False
  from insert_new [OF assms False] show ?thesis
    by (auto simp: hist_keys_def)
qed

lemma Import_loop_present:
  assumes "ready d" and "Import_loop D rs (i64_of m) d = ((n, None), d')" and "r \<in> set rs"
  shows "hr_key (stored_history r) \<in> hist_keys d' \<or>
    (hr_ID r \<noteq> 0 \<and> (\<exists>x \<in> hist_tab d'. hr_ID x = hr_ID r))"
  using assms
proof (induction rs arbitrary: m d)
  case Nil
  then show ?case by simp
next
  case (Cons a rs)
  obtain cnt res1 d1 where ins: "g_InsertHistory D a d = ((cnt, res1), d1)"
    by (metis prod.exhaust)
  with Cons.prems(2) have res1: "res1 = None"
    by (cases res1) auto
  have r1: "ready d1"
    using insert_history_grows [OF Cons.prems(1) ins] by simp
  have "cnt = i64_of (int (card (hist_tab d1 - hist_tab d)))"
    using insert_history_count [OF Cons.prems(1)] ins res1 by blast
  with Cons.prems(2) ins res1 have rest:
    "Import_loop D rs (i64_of (m + int (card (hist_tab d1 - hist_tab d)))) d1 = ((n, None), d')"
    by (simp add: i64_add_of)
  show ?case
  proof (cases "r = a")
    case True
    have "hist_tab d1 \<subseteq> hist_tab d'"
      using Import_loop_spec [OF r1 rest] by simp
    with insert_history_present [OF Cons.prems(1)] ins res1 True show ?thesis
      by (fastforce simp: hist_keys_def)
  next
    case False
    with Cons.prems(3) Cons.IH [OF r1 rest] show ?thesis by simp
  qed
qed

text \<open>A successful \<open>New\<close> hands out a migrated database with its unique index.\<close>

lemma exec_or_migrated:
  assumes "exec_or D msg sql r = Inr d" and "\<And>x. r = Inr x \<Longrightarrow> migrated x"
  shows "migrated d \<and> (sql = create_index_sql \<longrightarrow> ready d)"
proof -
  obtain x where x: "r = Inr x" "g_Exec D sql x = (None, d)"
    using assms(1) by (auto simp: exec_or_def split: sum.splits prod.splits option.splits)
  with assms(2) exec_migrated exec_index show ?thesis by blast
qed

lemma New_ready: "New D p = Inr d \<Longrightarrow> ready d"
proof -
  assume New: "New D p = Inr d"
  then obtain d0 d1 where "g_AutoMigrate D d0 = (None, d1)"
    and ex: "exec_or D ''create unique index: '' create_index_sql
                   (exec_or D ''drop old unique index: '' drop_old_index_sql
                     (exec_or D ''set busy timeout: '' ''PRAGMA busy_timeout=5000;''
                       (exec_or D ''enable WAL mode: '' ''PRAGMA journal_mode=WAL;''
                         (Inr (g_SetMaxOpenConns D 1 d1))))) = Inr d"
    by (auto simp: New_def split: sum.splits prod.splits option.splits)
  then have "migrated (g_SetMaxOpenConns D 1 d1)"
    using migrate set_conns by blast
  then have "\<And>x. Inr (g_SetMaxOpenConns D 1 d1) = (Inr x :: db_error + 'db) \<Longrightarrow> migrated x"
    by simp
  with exec_or_migrated have "\<And>x. exec_or D ''enable WAL mode: '' ''PRAGMA journal_mode=WAL;''
      (Inr (g_SetMaxOpenConns D 1 d1)) = Inr x \<Longrightarrow> migrated x"
    by blast
  with exec_or_migrated have "\<And>x. exec_or D ''set busy timeout: '' ''PRAGMA busy_timeout=5000;''
      (exec_or D ''enable WAL mode: '' ''PRAGMA journal_mode=WAL;''
        (Inr (g_SetMaxOpenConns D 1 d1))) = Inr x \<Longrightarrow> migrated x"
    by blast
  with exec_or_migrated have "\<And>x. exec_or D ''drop old unique index: '' drop_old_index_sql
      (exec_or D ''set busy timeout: '' ''PRAGMA busy_timeout=5000;''
        (exec_or D ''enable WAL mode: '' ''PRAGMA journal_mode=WAL;''
          (Inr (g_SetMaxOpenConns D 1 d1)))) = Inr x \<Longrightarrow> migrated x"
    by blast
  from exec_or_migrated [OF ex this] show "ready d" by blast
qed

end

section \<open>The contract of the package\<close>

text \<open>
  \<open>keys\<close> abstracts a database state to the set of event keys it holds: what the callers
  of the package can observe of the deduplicated history.
\<close>

locale history_store =
  fixes save :: "HistoryRecord \<Rightarrow> 'db \<Rightarrow> db_error option \<times> 'db"
    and usable :: "'db \<Rightarrow> bool"
    and keys :: "'db \<Rightarrow> (string \<times> gotime \<times> string) set"
  assumes save_usable: "usable d \<Longrightarrow> save r d = (res, d') \<Longrightarrow> usable d'"
    and save_mono: "usable d \<Longrightarrow> save r d = (res, d') \<Longrightarrow> keys d \<subseteq> keys d'"
    and save_new: "usable d \<Longrightarrow> hr_ID r = 0 \<Longrightarrow> save r d = (None, d') \<Longrightarrow>
      keys d' = insert (hr_key (stored_history r)) (keys d)"
    and save_failed: "usable d \<Longrightarrow> save r d = (Some e, d') \<Longrightarrow> keys d' = keys d"
begin

text \<open>Saving the records of a list one by one, whatever the errors, only adds keys.\<close>

lemma save_keys_bound:
  assumes "usable d" and "hr_ID r = 0" and "save r d = (res, d')"
  shows "keys d' \<subseteq> insert (hr_key (stored_history r)) (keys d)"
  using assms by (cases res) (auto simp: save_new save_failed)

lemma save_twice:
  assumes "usable d" and "hr_ID r = 0" and "save r d = (None, d1)" and "save r d1 = (None, d2)"
  shows "keys d2 = keys d1"
  using assms save_usable [OF assms(1,3)] save_new [of d r d1] save_new [of d1 r d2] by auto

end

text \<open>The functions of the package provide it over any database with the documented behaviour.\<close>

sublocale gorm_sqlite \<subseteq> store: history_store "SaveHistoryRecord D" ready hist_keys
proof (unfold_locales, goal_cases)
  case (1 d r e d')
  then show ?case
    using insert_history_grows by (fastforce simp: SaveHistoryRecord_def split: prod.splits)
next
  case (2 d r e d')
  then show ?case
    using insert_history_grows
    by (fastforce simp: SaveHistoryRecord_def hist_keys_def split: prod.splits)
next
  case (3 d r d')
  then show ?case
    using insert_history_fresh by (fastforce simp: SaveHistoryRecord_def split: prod.splits)
next
  case (4 d r e d')
  then show ?case
    using insert_err by (fastforce simp: SaveHistoryRecord_def hist_keys_def split: prod.splits)
qed

section \<open>Queries\<close>

context gorm_sqlite begin

lemma store_contract: "history_store (SaveHistoryRecord D) ready (\<lambda>d. hr_key ` hist_tab d)"
  using store.history_store_axioms by (simp add: hist_keys_def [abs_def])

lemma node_history:
  assumes "ready d" and "GetNodeHistory D n since until d = Inr rs"
  shows "sorted (List.map hr_Timestamp rs) \<and> distinct rs \<and>
    set rs = {r \<in> hist_tab d. hr_NodeID r = n \<and> (IsZero since \<or> since \<le> hr_Timestamp r) \<and>
                              (IsZero until \<or> hr_Timestamp r < until)}"
proof -
  let ?cs = "[NodeIdIs n] @ (if IsZero since then [] else [TimestampGe since])
               @ (if IsZero until then [] else [TimestampLt until])"
  have "rs = scan ?cs TimestampAsc d"
    using find_history [OF assms(1) assms(2) [unfolded GetNodeHistory_def]] by simp
  then show ?thesis
    using scan_ordered [OF assms(1), of TimestampAsc ?cs] scan_distinct [OF assms(1)]
      scan_rows [OF assms(1), of ?cs TimestampAsc]
    by auto
qed

definition since_conds :: "gotime \<Rightarrow> cond list" where
  "since_conds since = (if IsZero since then [] else [TimestampGe since])"

lemma history_page:
  "ready d \<Longrightarrow> GetAllHistorySince D since offset limit d = Inr rs \<Longrightarrow>
     rs = take (nat (page_limit limit)) (drop (nat offset) (scan (since_conds since) TimestampAsc d))"
  unfolding GetAllHistorySince_def by (drule (1) find_history) (simp add: since_conds_def)

lemma since_scan_rows:
  "ready d \<Longrightarrow> set (scan (since_conds since) TimestampAsc d) =
     {r \<in> hist_tab d. IsZero since \<or> since \<le> hr_Timestamp r}"
  by (auto simp: scan_rows since_conds_def)

lemma history_pages:
  assumes "ready d" and "0 < l" and "l \<le> 500"
    and "\<forall>i < m. GetAllHistorySince D since (int (i * l)) (int l) d = Inr (pg i)"
    and "card (hist_tab d) \<le> m * l"
  shows "sorted (List.map hr_Timestamp (concat (List.map pg [0..<m]))) \<and>
    distinct (concat (List.map pg [0..<m])) \<and>
    set (concat (List.map pg [0..<m])) = {r \<in> hist_tab d. IsZero since \<or> since \<le> hr_Timestamp r}"
proof -
  let ?s = "scan (since_conds since) TimestampAsc d"
  have pg: "pg i = take l (drop (i * l) ?s)" if "i < m" for i
    using history_page [OF assms(1), of since "int (i * l)" "int l" "pg i"] assms that
    by (simp add: page_limit_def nat_mult_distrib)
  have "concat (List.map pg [0..<m]) = concat (List.map (\<lambda>i. take l (drop (i * l) ?s)) [0..<m])"
    using pg by (intro arg_cong [where f = concat] map_cong) auto
  also have "\<dots> = take (m * l) ?s"
    by (rule concat_pages_take)
  also have "\<dots> = ?s"
  proof (rule take_all)
    have "length ?s = card (set ?s)"
      using scan_distinct [OF assms(1)] by (simp add: distinct_card)
    also have "\<dots> \<le> card (hist_tab d)"
      using finite_hist [OF assms(1)] by (intro card_mono) (auto simp: scan_rows assms(1))
    finally show "length ?s \<le> m * l" using assms(5) by simp
  qed
  finally show ?thesis
    using scan_ordered [OF assms(1), of TimestampAsc "since_conds since"] scan_distinct [OF assms(1)]
      since_scan_rows [OF assms(1)]
    by simp
qed

lemma import_count:
  assumes "ready d" and "ImportHistoryRecords D rs d = ((n, res), d')"
  shows "ready d' \<and> node_tab d' = node_tab d \<and> hist_tab d \<subseteq> hist_tab d' \<and>
    card (hist_tab d' - hist_tab d) \<le> length rs \<and>
    n = i64_of (int (card (hist_tab d' - hist_tab d)))"
  using assms Import_loop_spec [of d rs 0 n res d']
  by (auto simp: ImportHistoryRecords_def split: if_splits)

lemma import_present:
  assumes "ready d" and "ImportHistoryRecords D rs d = ((n, None), d')" and "r \<in> set rs"
  shows "hr_key (stored_history r) \<in> hr_key ` hist_tab d' \<or>
    (hr_ID r \<noteq> 0 \<and> (\<exists>x \<in> hist_tab d'. hr_ID x = hr_ID r))"
  using assms Import_loop_present [of d rs 0 n d' r]
  by (auto simp: ImportHistoryRecords_def hist_keys_def split: if_splits)

lemma latest_time:
  assumes "ready d" and "GetLatestHistoryTime D d = Inr t"
  shows "t = (if hist_tab d = {} then time_zero else Max (hr_Timestamp ` hist_tab d))"
proof (cases "g_FirstHistory D TimestampDesc d")
  case (Inl e)
  with assms have "is_not_found e" "t = time_zero"
    by (auto simp: GetLatestHistoryTime_def split: if_splits)
  with first_history_none [OF assms(1) Inl] show ?thesis by simp
next
  case (Inr r)
  let ?s = "scan [] TimestampDesc d"
  have rows: "set ?s = hist_tab d"
    by (rule set_scan_all [OF assms(1)])
  have r: "r \<in> hist_tab d" "hr_Timestamp r = hr_Timestamp (hd ?s)" "t = hr_Timestamp r"
    using first_history [OF assms(1) Inr] assms(2) Inr by (auto simp: GetLatestHistoryTime_def)
  have srt: "sorted (rev (List.map hr_Timestamp ?s))"
    using scan_ordered [OF assms(1), of TimestampDesc "[]"] by simp
  have "hr_Timestamp x \<le> t" if mem: "x \<in> hist_tab d" for x
  proof -
    obtain y ys where s: "?s = y # ys"
      using mem rows by (cases ?s) auto
    with mem rows srt r show ?thesis
      by (auto simp: sorted_append)
  qed
  moreover have "t \<in> hr_Timestamp ` hist_tab d"
    using r(1,3) by (metis imageI)
  ultimately have "Max (hr_Timestamp ` hist_tab d) = t"
    using finite_hist [OF assms(1)] by (intro Max_eqI) auto
  with r show ?thesis by auto
qed

lemma clean_old:
  assumes "ready d" and "CleanOldRecords D now retention d = ((n, None), d')"
  shows "hist_tab d' = {r \<in> hist_tab d. now - retention \<le> hr_Timestamp r} \<and>
    n = i64_of (int (card (hist_tab d - hist_tab d'))) \<and> node_tab d' = node_tab d"
proof -
  have del: "hist_tab d' = {r \<in> hist_tab d. \<not> hr_Timestamp r < now - retention}"
    "n = i64_of (int (card {r \<in> hist_tab d. hr_Timestamp r < now - retention}))"
    "node_tab d' = node_tab d"
    using delete_history [of d "[TimestampLt (now - retention)]" n d'] assms
    by (auto simp: CleanOldRecords_def)
  moreover have "hist_tab d - hist_tab d' = {r \<in> hist_tab d. hr_Timestamp r < now - retention}"
    using del by auto
  ultimately show ?thesis by (auto simp: not_less)
qed

lemma save_idempotent:
  assumes "ready d" and "hr_ID r = 0"
    and "SaveHistoryRecord D r d = (None, d1)" and "SaveHistoryRecord D r d1 = (None, d2)"
  shows "hr_key ` hist_tab d2 = hr_key ` hist_tab d1"
  using store.save_twice [OF assms] by (simp add: hist_keys_def)

lemma node_saved:
  assumes "ready d" and "SaveNodeState D ns d = (None, d')" and "GetNodeState D (ns_NodeID ns) d' = Inr got"
  shows "got = ns\<lparr>ns_Clock := None\<rparr>"
proof -
  have "ready d'" "node_tab d' (ns_NodeID ns) = Some (stored_node ns)"
    using upsert_ok [OF assms(1) assms(2) [unfolded SaveNodeState_def]] by auto
  with first_node [of d' "ns_NodeID ns" got] assms(3) show ?thesis
    by (simp add: GetNodeState_def stored_node_def)
qed

lemma no_clock_stored:
  assumes "ready d" and "SaveNodeState D ns d = (res, d')" and "GetNodeState D n d' = Inr got"
    and "\<forall>m s. node_tab d m = Some s \<longrightarrow> ns_Clock s = None"
  shows "ns_Clock got = None"
proof -
  have "ready d'" and tab: "node_tab d' = node_tab d \<or> node_tab d' = (node_tab d)(ns_NodeID ns \<mapsto> stored_node ns)"
    using upsert_ok [OF assms(1), of ns d'] upsert_err [OF assms(1), of ns _ d'] assms(2)
    by (cases res; auto simp: SaveNodeState_def)+
  with first_node [of d' n got] assms(3) have "node_tab d' n = Some got"
    by (simp add: GetNodeState_def)
  with tab assms(4) show ?thesis
    by (auto simp: stored_node_def split: if_splits)
qed

end

end
