(* ===== verification/MemDB.thy ===== *)
theory MemDB
  imports StorageSpec
begin

text \<open>
  An executable database with the documented behaviour: two in-memory tables with a primary
  key, the unique index of the history table and a closed flag after which every call fails.
  It interprets \<open>gorm_sqlite\<close>, so the contract can hold, and it is the database on which
  the witnesses of the development run the program's operations.
\<close>

record memdb =
  md_open :: bool
  md_migrated :: bool
  md_index :: bool
  md_nodes :: "(string, NodeState) alist"
  md_hist :: "HistoryRecord list"

definition mem_fresh :: memdb where
  "mem_fresh = \<lparr>md_open = True, md_migrated = False, md_index = False, md_nodes = mempty, md_hist = []\<rparr>"

definition mem_closed :: db_error where
  "mem_closed = DBError ''sql: database is closed''"

definition mem_consistent :: "memdb \<Rightarrow> bool" where
  "mem_consistent d \<longleftrightarrow> distinct (List.map hr_key (md_hist d)) \<and> distinct (List.map hr_ID (md_hist d)) \<and>
     list_all (\<lambda>(k, v). ns_NodeID v = k \<and> ns_Clock v = None) (mentries (md_nodes d))"

definition mem_ready :: "memdb \<Rightarrow> bool" where
  "mem_ready d \<longleftrightarrow> md_migrated d \<and> md_index d \<and> mem_consistent d"

definition mem_exec :: "string \<Rightarrow> memdb \<Rightarrow> db_error option \<times> memdb" where
  "mem_exec sql d =
     (if \<not> md_open d then (Some mem_closed, d)
      else if sql = create_index_sql then
        (if mem_consistent d then (None, d\<lparr>md_index := True\<rparr>)
         else (Some (DBError ''UNIQUE constraint failed''), d))
      else (None, d))"

definition mem_scan :: "cond list \<Rightarrow> ordering \<Rightarrow> memdb \<Rightarrow> HistoryRecord list" where
  "mem_scan cs ord d =
     (let rs = sort_key hr_Timestamp (filter (\<lambda>r. list_all (cond_holds r) cs) (md_hist d))
      in case ord of TimestampAsc \<Rightarrow> rs | TimestampDesc \<Rightarrow> rev rs)"

definition mem_insert :: "HistoryRecord \<Rightarrow> memdb \<Rightarrow> (i64 \<times> db_error option) \<times> memdb" where
  "mem_insert hr d =
     (if \<not> md_open d then ((i64_of 0, Some mem_closed), d)
      else
        let r = stored_history hr in
        if list_ex (\<lambda>x. hr_key x = hr_key r \<or> (hr_ID hr \<noteq> 0 \<and> hr_ID x = hr_ID hr)) (md_hist d)
        then ((i64_of 0, None), d)
        else
          let i = (if hr_ID hr \<noteq> 0 then hr_ID hr else Suc (foldr max (List.map hr_ID (md_hist d)) 0)) in
          ((i64_of 1, None), d\<lparr>md_hist := md_hist d @ [r\<lparr>hr_ID := i\<rparr>]\<rparr>))"

definition mem_delete :: "cond list \<Rightarrow> memdb \<Rightarrow> (i64 \<times> db_error option) \<times> memdb" where
  "mem_delete cs d =
     (if \<not> md_open d then ((i64_of 0, Some mem_closed), d)
      else ((i64_of (int (length (filter (\<lambda>r. list_all (cond_holds r) cs) (md_hist d)))), None),
            d\<lparr>md_hist := filter (\<lambda>r. \<not> list_all (cond_holds r) cs) (md_hist d)\<rparr>))"

definition mem_gorm :: "memdb gorm" where
  "mem_gorm = \<lparr>
     g_Open = (\<lambda>path. if path = [] then Inl (DBError ''unable to open database file'') else Inr mem_fresh),
     g_AutoMigrate = (\<lambda>d. if md_open d then (None, d\<lparr>md_migrated := True\<rparr>) else (Some mem_closed, d)),
     g_DB = (\<lambda>d. None),
     g_SetMaxOpenConns = (\<lambda>_ d. d),
     g_Exec = mem_exec,
     g_Close = (\<lambda>d. (None, d\<lparr>md_open := False\<rparr>)),
     g_UpsertNode = (\<lambda>ns d. if md_open d
        then (None, d\<lparr>md_nodes := mput (ns_NodeID ns) (stored_node ns) (md_nodes d)\<rparr>) else (Some mem_closed, d)),
     g_FirstNode = (\<lambda>n d. if \<not> md_open d then Inl mem_closed
        else case mget (md_nodes d) n of None \<Rightarrow> Inl ErrRecordNotFound | Some ns \<Rightarrow> Inr (stored_node ns)),
     g_FindNodes = (\<lambda>d. if \<not> md_open d then Inl mem_closed else Inr (mvals (md_nodes d))),
     g_DeleteNode = (\<lambda>n d. if md_open d
        then (None, d\<lparr>md_nodes := mdel n (md_nodes d)\<rparr>) else (Some mem_closed, d)),
     g_InsertHistory = mem_insert,
     g_FindHistory = (\<lambda>q d. if \<not> md_open d then Inl mem_closed
        else Inr (cut (q_offset q) (q_limit q) (mem_scan (q_where q) (q_order q) d))),
     g_FirstHistory = (\<lambda>ord d. if \<not> md_open d then Inl mem_closed
        else case mem_scan [] ord d of [] \<Rightarrow> Inl ErrRecordNotFound | r # _ \<Rightarrow> Inr r),
     g_DeleteHistory = mem_delete\<rparr>"

abbreviation mem_node_tab :: "memdb \<Rightarrow> string \<Rightarrow> NodeState option" where
  "mem_node_tab d \<equiv> mget (md_nodes d)"

abbreviation mem_hist_tab :: "memdb \<Rightarrow> HistoryRecord set" where
  "mem_hist_tab d \<equiv> set (md_hist d)"

section \<open>It satisfies the contract\<close>

lemma hr_key_stored_ID [simp]: "hr_key (r\<lparr>hr_ID := i\<rparr>) = hr_key r"
  by (simp add: hr_key_def)

lemma hr_ID_stored [simp]: "hr_ID (stored_history r) = hr_ID r"
  by (simp add: stored_history_def)

lemma ns_NodeID_stored [simp]: "ns_NodeID (stored_node ns) = ns_NodeID ns"
  by (simp add: stored_node_def)

lemma mem_closed_found [simp]: "mem_closed \<noteq> ErrRecordNotFound" "ErrRecordNotFound \<noteq> mem_closed"
  by (simp_all add: mem_closed_def)

lemma fresh_id: "x \<in> set xs \<Longrightarrow> hr_ID x < Suc (foldr max (List.map hr_ID xs) 0)"
  by (induction xs) (auto simp: less_Suc_eq_le le_max_iff_disj)

abbreviation mem_conflict :: "HistoryRecord \<Rightarrow> memdb \<Rightarrow> bool" where
  "mem_conflict hr d \<equiv>
     \<exists>x \<in> mem_hist_tab d. hr_key x = hr_key (stored_history hr) \<or> (hr_ID hr \<noteq> 0 \<and> hr_ID x = hr_ID hr)"

lemma mem_conflict_list_ex:
  "list_ex (\<lambda>x. hr_key x = hr_key (stored_history hr) \<or> (hr_ID hr \<noteq> 0 \<and> hr_ID x = hr_ID hr)) (md_hist d)
     \<longleftrightarrow> mem_conflict hr d"
  by (simp add: list_ex_iff)

lemma mem_insert_dup:
  "mem_insert hr d = ((cnt, None), d') \<Longrightarrow> mem_conflict hr d \<Longrightarrow> cnt = i64_of 0 \<and> d' = d"
  unfolding mem_insert_def Let_def mem_conflict_list_ex by (simp split: if_splits)

lemma mem_insert_new:
  assumes "mem_ready d" and "mem_insert hr d = ((cnt, None), d')" and "\<not> mem_conflict hr d"
  shows "cnt = i64_of 1 \<and> mem_ready d' \<and> md_nodes d' = md_nodes d \<and>
    (\<exists>i. (hr_ID hr \<noteq> 0 \<longrightarrow> i = hr_ID hr) \<and>
       mem_hist_tab d' = insert (stored_history hr\<lparr>hr_ID := i\<rparr>) (mem_hist_tab d))"
proof -
  define i where "i = (if hr_ID hr \<noteq> 0 then hr_ID hr else Suc (foldr max (List.map hr_ID (md_hist d)) 0))"
  have "\<forall>x \<in> mem_hist_tab d. hr_ID x \<noteq> Suc (foldr max (List.map hr_ID (md_hist d)) 0)"
    using fresh_id by (metis less_irrefl)
  with assms(3) have new: "\<forall>x \<in> mem_hist_tab d. hr_ID x \<noteq> i"
    by (auto simp: i_def)
  have d': "d' = d\<lparr>md_hist := md_hist d @ [stored_history hr\<lparr>hr_ID := i\<rparr>]\<rparr>" "cnt = i64_of 1"
    using assms(2,3) unfolding mem_insert_def Let_def mem_conflict_list_ex i_def
    by (simp_all split: if_splits)
  have "mem_ready d'"
    using assms(1,3) new by (force simp: d' mem_ready_def mem_consistent_def)
  moreover have "hr_ID hr \<noteq> 0 \<longrightarrow> i = hr_ID hr" by (simp add: i_def)
  ultimately show ?thesis
    by (auto simp: d')
qed

lemma mem_scan_set: "set (mem_scan cs ord d) = {r \<in> mem_hist_tab d. matches cs r}"
  by (auto simp: mem_scan_def Let_def list_all_iff split: ordering.splits)

lemma mem_scan_distinct: "mem_ready d \<Longrightarrow> distinct (mem_scan cs ord d)"
  by (auto simp: mem_scan_def Let_def mem_ready_def mem_consistent_def distinct_map split: ordering.splits)

lemma mem_scan_ordered: "ordered_by ord (mem_scan cs ord d)"
  by (auto simp: mem_scan_def Let_def rev_map [symmetric] split: ordering.splits)

lemma mem_ready_filter: "mem_ready d \<Longrightarrow> mem_ready (d\<lparr>md_hist := filter P (md_hist d)\<rparr>)"
  by (auto simp: mem_ready_def mem_consistent_def distinct_map inj_on_def)

lemma mem_ready_put:
  "mem_ready d \<Longrightarrow> mem_ready (d\<lparr>md_nodes := mput (ns_NodeID ns) (stored_node ns) (md_nodes d)\<rparr>)"
  by (auto simp: mem_ready_def mem_consistent_def list_all_mentries stored_node_def DAList.lookup_update split: if_splits)

lemma mem_ready_del: "mem_ready d \<Longrightarrow> mem_ready (d\<lparr>md_nodes := mdel n (md_nodes d)\<rparr>)"
  by (auto simp: mem_ready_def mem_consistent_def list_all_mentries split: if_splits)

lemma mem_stored: "mem_ready d \<Longrightarrow> mem_node_tab d n = Some ns \<Longrightarrow> stored_node ns = ns"
  by (auto simp: mem_ready_def mem_consistent_def list_all_mentries stored_node_def)

lemma mem_nodes_distinct: "mem_ready d \<Longrightarrow> distinct (mvals (md_nodes d))"
proof -
  assume "mem_ready d"
  then have "List.map ns_NodeID (mvals (md_nodes d)) = List.map fst (mentries (md_nodes d))"
    by (auto simp: mem_ready_def mem_consistent_def list_all_iff split_beta)
  then have "distinct (List.map ns_NodeID (mvals (md_nodes d)))"
    by (simp only: DAList.impl_of_distinct)
  then show ?thesis by (simp only: distinct_map)
qed

interpretation mem: gorm_sqlite mem_gorm md_migrated mem_ready mem_node_tab mem_hist_tab mem_scan
proof (unfold_locales, goal_cases)
  case (4 d d')
  then show ?case
    by (auto simp: mem_gorm_def mem_exec_def mem_ready_def mem_consistent_def split: if_splits)
next
  case (9 d nss)
  then show ?case
    by (auto simp: mem_gorm_def mem_nodes_distinct mvals_eq_ran simp del: set_map split: if_splits)
next
  case (10 d n ns)
  then show ?case
    by (auto simp: mem_ready_def mem_consistent_def list_all_mentries)
next
  case (13 d hr cnt d')
  then have "mem_insert hr d = ((cnt, None), d')" by (simp add: mem_gorm_def)
  from mem_insert_dup [OF this 13(3)] 13(1) show ?case by simp
next
  case (14 d hr cnt d')
  then have "mem_insert hr d = ((cnt, None), d')" by (simp add: mem_gorm_def)
  from mem_insert_new [OF 14(1) this 14(3)] show ?case by simp
next
  case (15 d cs ord)
  show ?case by (rule mem_scan_set)
next
  case (16 d cs ord)
  then show ?case by (rule mem_scan_distinct)
next
  case (17 d cs ord)
  show ?case by (rule mem_scan_ordered)
next
  case (19 d ord r)
  then show ?case
    using mem_scan_set [of "[]" ord d] by (auto simp: mem_gorm_def split: if_splits list.splits)
next
  case (20 d ord e)
  then show ?case
    using mem_scan_set [of "[]" ord d]
    by (auto simp: mem_gorm_def mem_closed_def split: if_splits list.splits)
next
  case (21 d cs cnt d')
  then have "distinct (md_hist d)"
    by (auto simp: mem_ready_def mem_consistent_def distinct_map)
  with 21 show ?case
    by (auto simp: mem_gorm_def mem_delete_def mem_ready_filter list_all_iff distinct_length_filter
             Int_def conj_commute split: if_splits)
next
  case (23 d)
  then show ?case by (simp add: mem_ready_def mem_consistent_def distinct_map)
next
  case (24 d)
  then show ?case by (simp add: mem_ready_def mem_consistent_def distinct_map)
qed (auto simp: mem_gorm_def mem_exec_def mem_insert_def mem_delete_def mem_ready_put mem_ready_del mem_stored Let_def
       fun_eq_iff DAList.lookup_update split: if_splits option.splits)

lemmas mem_ax = mem.gorm_sqlite_axioms

section \<open>Sample rows for the witnesses\<close>

definition zero_net :: NetInterface where
  "zero_net = \<lparr>ni_InterfaceName = [], ni_Speed = i64_of 0, ni_RxBytes = 0, ni_TxBytes = 0\<rparr>"

definition zero_load :: SystemLoad where
  "zero_load = \<lparr>sl_LoadAvg1min = 0, sl_LoadAvg5min = 0, sl_LoadAvg15min = 0\<rparr>"

definition sample_node :: "string \<Rightarrow> gotime \<Rightarrow> VectorClock \<Rightarrow> NodeState" where
  "sample_node n t vc = \<lparr>ns_NodeID = n, ns_IPAddress = ''10.0.0.1'', ns_Status = ''active'',
     ns_SystemType = ''linux'', ns_CPUUsage = 0, ns_MemoryUsage = 0, ns_DiskUsage = 0,
     ns_NetInterface = zero_net, ns_SystemLoad = zero_load, ns_LastSeen = t, ns_LastUpdated = t,
     ns_Clock = vc\<rparr>"

definition sample_event :: "nat \<Rightarrow> string \<Rightarrow> gotime \<Rightarrow> HistoryRecord" where
  "sample_event i n t = \<lparr>hr_ID = i, hr_NodeID = n, hr_Timestamp = t, hr_CPUUsage = 0,
     hr_MemoryUsage = 0, hr_DiskUsage = 0, hr_NetInterface = zero_net, hr_SystemLoad = zero_load,
     hr_EventType = ''metric_update'', hr_Status = ''active'', hr_Source = ''local''\<rparr>"

definition mem_with :: "HistoryRecord list \<Rightarrow> memdb" where
  "mem_with rs = \<lparr>md_open = True, md_migrated = True, md_index = True, md_nodes = mempty, md_hist = rs\<rparr>"

lemmas mem_defs =
  mem_gorm_def mem_insert_def mem_delete_def mem_exec_def mem_scan_def mem_closed_def Let_def

lemma mem_with_simps [simp]:
  "md_open (mem_with rs)" "md_hist (mem_with rs) = rs" "md_nodes (mem_with rs) = mempty"
  "mem_with rs\<lparr>md_hist := rs'\<rparr> = mem_with rs'"
  by (simp_all add: mem_with_def)

lemma sample_event_simps [simp]:
  "hr_ID (sample_event i n t) = i" "hr_NodeID (sample_event i n t) = n"
  "hr_Timestamp (sample_event i n t) = t" "hr_EventType (sample_event i n t) = ''metric_update''"
  "hr_key (sample_event i n t) = (n, t, ''metric_update'')"
  "stored_history (sample_event i n t) = sample_event i n t"
  "sample_event i n t\<lparr>hr_ID := j\<rparr> = sample_event j n t"
  by (simp_all add: sample_event_def stored_history_def hr_key_def)

lemma sample_event_eq [simp]:
  "sample_event i n t = sample_event j m u \<longleftrightarrow> i = j \<and> n = m \<and> t = u"
  by (simp add: sample_event_def)

lemma sample_node_simps [simp]:
  "ns_NodeID (sample_node n t vc) = n" "ns_Clock (sample_node n t vc) = vc"
  "ns_LastUpdated (sample_node n t vc) = t" "ns_Status (sample_node n t vc) = ''active''"
  "sample_node n t vc\<lparr>ns_Clock := vc'\<rparr> = sample_node n t vc'"
  by (simp_all add: sample_node_def)

lemma mem_with_ready [simp]:
  "mem_ready (mem_with rs) \<longleftrightarrow> distinct (List.map hr_key rs) \<and> distinct (List.map hr_ID rs)"
  by (simp add: mem_ready_def mem_consistent_def mem_with_def)

end
