(* ===== verification/StorageProps.thy ===== *)
theory StorageProps
  imports MemDB
begin

text \<open>
  Properties of the storage package over any database that satisfies \<open>gorm_sqlite\<close>, with
  witnesses on \<open>MemDB\<close>.
\<close>

text \<open>
  \<^verbatim>\<open>GetNodeHistory\<close> returns the records of the node in the half-open interval
  from \<open>since\<close> to \<open>until\<close>, each once, in ascending timestamp order; a zero bound is
  no bound.
\<close>

theorem GetNodeHistory_spec:
  assumes "gorm_sqlite D mg rdy nt ht sc" and "rdy d"
    and "GetNodeHistory D n since until d = Inr rs"
  shows "sorted (List.map hr_Timestamp rs) \<and> distinct rs \<and>
    set rs = {r \<in> ht d. hr_NodeID r = n \<and> (IsZero since \<or> since \<le> hr_Timestamp r) \<and>
                        (IsZero until \<or> hr_Timestamp r < until)}"
  by (rule gorm_sqlite.node_history [OF assms])

theorem GetNodeHistory_spec_witness:
  defines "d \<equiv> mem_with [sample_event 1 ''a'' 20, sample_event 2 ''b'' 20,
                             sample_event 3 ''a'' 30, sample_event 4 ''a'' 10]"
  shows "GetNodeHistory mem_gorm ''a'' 10 30 d = Inr [sample_event 4 ''a'' 10, sample_event 1 ''a'' 20] \<and>
    {sample_event 4 ''a'' 10, sample_event 1 ''a'' 20} =
      {r \<in> mem_hist_tab d. hr_NodeID r = ''a'' \<and> (IsZero 10 \<or> 10 \<le> hr_Timestamp r) \<and>
                          (IsZero 30 \<or> hr_Timestamp r < 30)}"
proof -
  have h: "GetNodeHistory mem_gorm ''a'' 10 30 d = Inr [sample_event 4 ''a'' 10, sample_event 1 ''a'' 20]"
    by (simp add: GetNodeHistory_def mem_defs IsZero_def time_zero_def d_def)
  have r: "mem_ready d" by (simp add: d_def)
  show ?thesis
    using GetNodeHistory_spec [OF mem_ax r h] h by simp
qed



text \<open>
  An import only adds rows to the history, and the number it reports, with or without an
  error, is exactly the number of rows it added.
\<close>

theorem ImportHistoryRecords_counts:
  assumes "gorm_sqlite D mg rdy nt ht sc" and "rdy d" and "ImportHistoryRecords D rs d = ((n, res), d')"
  shows "rdy d' \<and> nt d' = nt d \<and> ht d \<subseteq> ht d' \<and> card (ht d' - ht d) \<le> length rs \<and>
    n = i64_of (int (card (ht d' - ht d)))"
  by (rule gorm_sqlite.import_count [OF assms])

theorem ImportHistoryRecords_counts_witness:
  defines "d \<equiv> mem_with [sample_event 1 ''a'' 20]"
  shows "card (mem_hist_tab (mem_with [sample_event 1 ''a'' 20, sample_event 7 ''b'' 20]) - mem_hist_tab d) \<le> 2 \<and>
    ImportHistoryRecords mem_gorm [sample_event 0 ''a'' 20, sample_event 7 ''b'' 20] d =
      ((i64_of 1, None), mem_with [sample_event 1 ''a'' 20, sample_event 7 ''b'' 20])"
proof -
  have h: "ImportHistoryRecords mem_gorm [sample_event 0 ''a'' 20, sample_event 7 ''b'' 20] d =
      ((i64_of 1, None), mem_with [sample_event 1 ''a'' 20, sample_event 7 ''b'' 20])"
    by (simp add: ImportHistoryRecords_def mem_defs d_def i64_add_of)
  have r: "mem_ready d" by (simp add: d_def)
  show ?thesis
    using ImportHistoryRecords_counts [OF mem_ax r h] h by simp
qed

text \<open>
  C36: after an import that reports no error, every imported record is in the history under its
  (node, timestamp, event type) key, unless a row with the record's own nonzero identifier was
  stored.
\<close>

theorem ImportHistoryRecords_present:
  assumes "gorm_sqlite D mg rdy nt ht sc" and "rdy d" and "ImportHistoryRecords D rs d = ((n, None), d')"
    and "r \<in> set rs"
  shows "hr_key (stored_history r) \<in> hr_key ` ht d' \<or>
    (hr_ID r \<noteq> 0 \<and> (\<exists>x \<in> ht d'. hr_ID x = hr_ID r))"
  by (rule gorm_sqlite.import_present [OF assms])

theorem ImportHistoryRecords_present_witness:
  defines "d \<equiv> mem_with [sample_event 1 ''a'' 20]"
  shows "hr_key (stored_history (sample_event 0 ''b'' 20)) \<in>
           hr_key ` mem_hist_tab (mem_with [sample_event 1 ''a'' 20, sample_event 2 ''b'' 20])"
proof -
  have h: "ImportHistoryRecords mem_gorm [sample_event 0 ''b'' 20] d =
      ((i64_of 1, None), mem_with [sample_event 1 ''a'' 20, sample_event 2 ''b'' 20])"
    by (simp add: ImportHistoryRecords_def mem_defs d_def i64_add_of numeral_2_eq_2)
  have r: "mem_ready d" by (simp add: d_def)
  show ?thesis
    using ImportHistoryRecords_present [OF mem_ax r h, of "sample_event 0 ''b'' 20"]
    by simp
qed

text \<open>
  The exception of C4 is real. \<^verbatim>\<open>ImportHistoryRecords\<close> passes on the primary key a
  record had at the peer; a record whose key is new but whose identifier is taken here is
  skipped without an error, although it is no duplicate.
\<close>

theorem ImportHistoryRecords_drops_by_id:
  "mem_ready (mem_with [sample_event 1 ''local'' 20]) \<and>
   ImportHistoryRecords mem_gorm [sample_event 1 ''peer'' 10] (mem_with [sample_event 1 ''local'' 20]) =
     ((i64_of 0, None), mem_with [sample_event 1 ''local'' 20]) \<and>
   hr_key (stored_history (sample_event 1 ''peer'' 10)) \<notin>
     hr_key ` mem_hist_tab (mem_with [sample_event 1 ''local'' 20])"
  by (simp add: ImportHistoryRecords_def mem_defs i64_add_of)

text \<open>
  \<^verbatim>\<open>GetLatestHistoryTime\<close> is the zero instant exactly for an empty history and the
  greatest timestamp of the history otherwise.
\<close>

theorem GetLatestHistoryTime_max:
  assumes "gorm_sqlite D mg rdy nt ht sc" and "rdy d" and "GetLatestHistoryTime D d = Inr t"
  shows "t = (if ht d = {} then time_zero else Max (hr_Timestamp ` ht d))"
  by (rule gorm_sqlite.latest_time [OF assms])

theorem GetLatestHistoryTime_max_witness:
  "GetLatestHistoryTime mem_gorm (mem_with [sample_event 1 ''a'' 20, sample_event 2 ''b'' 50]) = Inr 50 \<and>
   Max (hr_Timestamp ` mem_hist_tab (mem_with [sample_event 1 ''a'' 20, sample_event 2 ''b'' 50])) = 50"
proof -
  let ?d = "mem_with [sample_event 1 ''a'' 20, sample_event 2 ''b'' 50]"
  have h: "GetLatestHistoryTime mem_gorm ?d = Inr 50"
    by (simp add: GetLatestHistoryTime_def mem_defs)
  have r: "mem_ready ?d" by simp
  have "mem_hist_tab ?d \<noteq> {}" by simp
  then show ?thesis
    using GetLatestHistoryTime_max [OF mem_ax r h] h by simp
qed

text \<open>
  C37: \<^verbatim>\<open>CleanOldRecords\<close> keeps exactly the records not older than the retention period,
  reports the number it removed and leaves the node table alone.
\<close>

theorem CleanOldRecords_exact:
  assumes "gorm_sqlite D mg rdy nt ht sc" and "rdy d"
    and "CleanOldRecords D now retention d = ((n, None), d')"
  shows "ht d' = {r \<in> ht d. now - retention \<le> hr_Timestamp r} \<and>
    n = i64_of (int (card (ht d - ht d'))) \<and> nt d' = nt d"
  by (rule gorm_sqlite.clean_old [OF assms])

theorem CleanOldRecords_exact_witness:
  defines "d \<equiv> mem_with [sample_event 1 ''a'' 20, sample_event 2 ''a'' 50]"
  shows "CleanOldRecords mem_gorm 60 30 d = ((i64_of 1, None), mem_with [sample_event 2 ''a'' 50]) \<and>
    mem_hist_tab (mem_with [sample_event 2 ''a'' 50]) = {r \<in> mem_hist_tab d. 60 - 30 \<le> hr_Timestamp r}"
proof -
  have h: "CleanOldRecords mem_gorm 60 30 d = ((i64_of 1, None), mem_with [sample_event 2 ''a'' 50])"
    by (simp add: CleanOldRecords_def mem_defs d_def)
  have r: "mem_ready d" by (simp add: d_def)
  show ?thesis
    using CleanOldRecords_exact [OF mem_ax r h] h by simp
qed



text \<open>
  \<^verbatim>\<open>New\<close> hands out a store only when the tables are migrated and the unique index is
  there: any setup step that fails is an error and no store.
\<close>

theorem New_indexed:
  assumes "gorm_sqlite D mg rdy nt ht sc" and "New D dbPath = Inr d"
  shows "rdy d"
  by (rule gorm_sqlite.New_ready [OF assms])

theorem New_indexed_witness:
  "\<exists>d. New mem_gorm ''goggrid.db'' = Inr d \<and> mem_ready d"
proof -
  obtain d where h: "New mem_gorm ''goggrid.db'' = Inr d"
    by (simp add: New_def exec_or_def mem_defs mem_fresh_def mem_consistent_def
        create_index_sql_def drop_old_index_sql_def)
  with New_indexed [OF mem_ax h] show ?thesis by blast
qed

text \<open>
  Saving the same fresh event twice leaves the set of stored event keys as the first save
  left it: history records are deduplicated by node, timestamp and event type.
\<close>

theorem SaveHistoryRecord_idempotent:
  assumes "gorm_sqlite D mg rdy nt ht sc" and "rdy d" and "hr_ID r = 0"
    and "SaveHistoryRecord D r d = (None, d1)" and "SaveHistoryRecord D r d1 = (None, d2)"
  shows "hr_key ` ht d2 = hr_key ` ht d1"
  by (rule gorm_sqlite.save_idempotent [OF assms])

theorem SaveHistoryRecord_idempotent_witness:
  "hr_key ` mem_hist_tab (snd (SaveHistoryRecord mem_gorm (sample_event 0 ''a'' 20)
      (snd (SaveHistoryRecord mem_gorm (sample_event 0 ''a'' 20) (mem_with []))))) =
   hr_key ` mem_hist_tab (snd (SaveHistoryRecord mem_gorm (sample_event 0 ''a'' 20) (mem_with [])))"
proof -
  let ?r = "sample_event 0 ''a'' 20"
  have 1: "SaveHistoryRecord mem_gorm ?r (mem_with []) = (None, mem_with [sample_event 1 ''a'' 20])"
    and 2: "SaveHistoryRecord mem_gorm ?r (mem_with [sample_event 1 ''a'' 20]) =
      (None, mem_with [sample_event 1 ''a'' 20])"
    by (simp_all add: SaveHistoryRecord_def mem_defs)
  have r: "mem_ready (mem_with [])" "hr_ID ?r = 0" by simp_all
  show ?thesis
    using SaveHistoryRecord_idempotent [OF mem_ax r 1 2] by (simp add: 1 2 [simplified])
qed

end
