(* ===== verification/StateManager.thy ===== *)
theory StateManager
  imports Storage
begin

text \<open>
  \<^verbatim>\<open>pkg/state/state.go\<close>: the in-memory cluster state of a node, the resolution of
  conflicts between a stored and a received node state, and the subscribers that are told of
  every change. Every method runs under the manager's mutex, so it is one function of the
  manager's state; \<open>MergeNodeState\<close> and \<open>MarkNodeInactive\<close> release the mutex before they
  write to the history, so each is split into its locked part and the write that follows.

  Channels are allocated in a table \<open>sm_chans\<close> and named by their index; the keys of
  \<open>sm_subscribers\<close> are such names. The store is an optional database state: \<open>None\<close> stands
  for the nil store of a manager without persistence.
\<close>

record NodeChangeEvent =
  ev_NodeID :: string
  ev_EventType :: string
  ev_NodeState :: NodeState

type_synonym event_chans = "(nat, NodeChangeEvent chan) alist"

record StateManager =
  sm_clusterState :: ClusterState
  sm_subscribers :: "(nat, unit) alist"
  sm_chans :: event_chans
  sm_historySyncTime :: gotime

definition NewStateManager :: "gotime \<Rightarrow> string \<Rightarrow> string \<Rightarrow> StateManager" where
  "NewStateManager now clusterName localNodeID =
     \<lparr>sm_clusterState = \<lparr>cs_ClusterName = clusterName, cs_Nodes = mempty,
        cs_LocalNodeID = localNodeID, cs_UpdatedAt = now, cs_Epoch = i64_of 0\<rparr>,
      sm_subscribers = mempty, sm_chans = mempty, sm_historySyncTime = time_zero\<rparr>"

section \<open>Reading\<close>

text \<open>\<^verbatim>\<open>GetClusterState\<close> copies every field but the epoch, which stays zero in the copy.\<close>

definition GetClusterState :: "StateManager \<Rightarrow> ClusterState" where
  "GetClusterState sm =
     (let cs = sm_clusterState sm in
      \<lparr>cs_ClusterName = cs_ClusterName cs, cs_Nodes = cs_Nodes cs,
       cs_LocalNodeID = cs_LocalNodeID cs, cs_UpdatedAt = cs_UpdatedAt cs, cs_Epoch = i64_of 0\<rparr>)"

definition GetNode :: "string \<Rightarrow> StateManager \<Rightarrow> NodeState option" where
  "GetNode nodeID sm = mget (cs_Nodes (sm_clusterState sm)) nodeID"

definition GetHistorySyncTime :: "StateManager \<Rightarrow> gotime" where
  "GetHistorySyncTime sm = sm_historySyncTime sm"

definition SetHistorySyncTime :: "gotime \<Rightarrow> StateManager \<Rightarrow> StateManager" where
  "SetHistorySyncTime t sm = sm\<lparr>sm_historySyncTime := t\<rparr>"

section \<open>Notifying the subscribers\<close>

text \<open>\<^verbatim>\<open>sendEvent\<close> recovers from the panic of sending on a closed channel.\<close>

definition sendEvent :: "nat \<Rightarrow> NodeChangeEvent \<Rightarrow> event_chans \<Rightarrow> event_chans" where
  "sendEvent ch event chans =
     (case mget chans ch of
        None \<Rightarrow> chans
      | Some c \<Rightarrow> (case try_send event c of Inl _ \<Rightarrow> chans | Inr c' \<Rightarrow> mput ch c' chans))"

fun broadcast_loop :: "(nat \<times> unit) list \<Rightarrow> NodeChangeEvent \<Rightarrow> event_chans \<Rightarrow> event_chans" where
  "broadcast_loop [] event chans = chans"
| "broadcast_loop ((ch, _) # es) event chans = broadcast_loop es event (sendEvent ch event chans)"

definition broadcast :: "NodeChangeEvent \<Rightarrow> StateManager \<Rightarrow> StateManager" where
  "broadcast event sm =
     sm\<lparr>sm_chans := broadcast_loop (mentries (sm_subscribers sm)) event (sm_chans sm)\<rparr>"

definition Subscribe :: "StateManager \<Rightarrow> nat \<times> StateManager" where
  "Subscribe sm =
     (let ch = length (mentries (sm_chans sm)) in
      (ch, sm\<lparr>sm_chans := mput ch (make_chan 64) (sm_chans sm),
              sm_subscribers := mput ch () (sm_subscribers sm)\<rparr>))"

definition Unsubscribe :: "nat \<Rightarrow> StateManager \<Rightarrow> StateManager go" where
  "Unsubscribe ch sm =
     (let sm1 = sm\<lparr>sm_subscribers := mdel ch (sm_subscribers sm)\<rparr> in
      case mget (sm_chans sm1) ch of
        None \<Rightarrow> Inl CloseOfNilChannel
      | Some c \<Rightarrow> go_bind (close_chan c) (\<lambda>c'. Inr (sm1\<lparr>sm_chans := mput ch c' (sm_chans sm1)\<rparr>)))"

text \<open>The receiving end of a subscription: what a reader of the channel takes out of it.\<close>

definition Receive :: "nat \<Rightarrow> StateManager \<Rightarrow> (NodeChangeEvent \<times> StateManager) option" where
  "Receive ch sm =
     (case mget (sm_chans sm) ch of
        None \<Rightarrow> None
      | Some c \<Rightarrow> (case recv_chan c of
                     None \<Rightarrow> None
                   | Some (e, c') \<Rightarrow> Some (e, sm\<lparr>sm_chans := mput ch c' (sm_chans sm)\<rparr>)))"

section \<open>Writing\<close>

text \<open>Storing a node, stamping the cluster state and telling the subscribers.\<close>

definition put_node :: "gotime \<Rightarrow> string \<Rightarrow> NodeState \<Rightarrow> string \<Rightarrow> StateManager \<Rightarrow> StateManager" where
  "put_node now nodeID ns eventType sm =
     broadcast \<lparr>ev_NodeID = nodeID, ev_EventType = eventType, ev_NodeState = ns\<rparr>
       (sm\<lparr>sm_clusterState := (sm_clusterState sm)
          \<lparr>cs_Nodes := mput nodeID ns (cs_Nodes (sm_clusterState sm)), cs_UpdatedAt := now\<rparr>\<rparr>)"

definition UpdateLocalNode :: "gotime \<Rightarrow> NodeState \<Rightarrow> StateManager \<Rightarrow> StateManager" where
  "UpdateLocalNode now ns sm = put_node now (ns_NodeID ns) ns ''update'' sm"

datatype winner = LocalWins | RemoteWins

definition resolveConflict :: "NodeState \<Rightarrow> NodeState \<Rightarrow> winner" where
  "resolveConflict local remote =
     (let c = Compare (ns_Clock remote) (ns_Clock local) in
      if c = 1 then RemoteWins
      else if c = -1 then LocalWins
      else if After (ns_LastUpdated remote) (ns_LastUpdated local) then RemoteWins
      else LocalWins)"

definition own_clock :: "VectorClock \<Rightarrow> VectorClock" where
  "own_clock vc = (case vc of None \<Rightarrow> Some mempty | Some m \<Rightarrow> Some m)"

text \<open>
  The locked part of \<open>MergeNodeState\<close>: whether the state changed, the history event to write
  once the mutex is released, and the new state.
\<close>

definition Merge_locked ::
    "gotime \<Rightarrow> NodeState \<Rightarrow> StateManager \<Rightarrow> (bool \<times> (NodeState \<times> string) option \<times> StateManager) go" where
  "Merge_locked now remote sm =
     (case mget (cs_Nodes (sm_clusterState sm)) (ns_NodeID remote) of
        None \<Rightarrow>
          (let copyRemote = remote\<lparr>ns_Clock := own_clock (ns_Clock remote)\<rparr> in
           Inr (True, Some (copyRemote, ''node_join''),
                put_node now (ns_NodeID remote) copyRemote ''join'' sm))
      | Some local \<Rightarrow>
          (case resolveConflict local remote of
             LocalWins \<Rightarrow> Inr (False, None, sm)
           | RemoteWins \<Rightarrow>
               go_bind (Merge (own_clock (ns_Clock remote)) (ns_Clock local)) (\<lambda>vc.
                 let copyWinner = remote\<lparr>ns_Clock := vc\<rparr> in
                 Inr (True, Some (copyWinner, ''metric_update''),
                      put_node now (ns_NodeID remote) copyWinner ''update'' sm))))"

definition Inactive_locked ::
    "gotime \<Rightarrow> string \<Rightarrow> StateManager \<Rightarrow> (NodeState \<times> string) option \<times> StateManager" where
  "Inactive_locked now nodeID sm =
     (case mget (cs_Nodes (sm_clusterState sm)) nodeID of
        None \<Rightarrow> (None, sm)
      | Some ns \<Rightarrow>
          (let copyNode = ns\<lparr>ns_Status := ''inactive''\<rparr> in
           (Some (copyNode, ''node_leave''), put_node now nodeID copyNode ''leave'' sm)))"

definition event_record :: "NodeState \<Rightarrow> string \<Rightarrow> string \<Rightarrow> HistoryRecord" where
  "event_record ns eventType source =
     \<lparr>hr_ID = 0, hr_NodeID = ns_NodeID ns, hr_Timestamp = ns_LastUpdated ns,
      hr_CPUUsage = ns_CPUUsage ns, hr_MemoryUsage = ns_MemoryUsage ns, hr_DiskUsage = ns_DiskUsage ns,
      hr_NetInterface = ns_NetInterface ns, hr_SystemLoad = ns_SystemLoad ns,
      hr_EventType = eventType, hr_Status = ns_Status ns, hr_Source = source\<rparr>"

definition recordEvent ::
    "'db gorm \<Rightarrow> NodeState \<Rightarrow> string \<Rightarrow> string \<Rightarrow> 'db option \<Rightarrow> 'db option" where
  "recordEvent D ns eventType source store =
     (case store of
        None \<Rightarrow> None
      | Some d \<Rightarrow> Some (snd (SaveHistoryRecord D (event_record ns eventType source) d)))"

definition record_pending ::
    "'db gorm \<Rightarrow> (NodeState \<times> string) option \<Rightarrow> 'db option \<Rightarrow> 'db option" where
  "record_pending D ev store =
     (case ev of None \<Rightarrow> store | Some (ns, eventType) \<Rightarrow> recordEvent D ns eventType ''gossip'' store)"

text \<open>The pointer argument may be nil: the first field access then panics.\<close>

definition MergeNodeState ::
    "'db gorm \<Rightarrow> gotime \<Rightarrow> NodeState option \<Rightarrow> StateManager \<times> 'db option
       \<Rightarrow> (bool \<times> StateManager \<times> 'db option) go" where
  "MergeNodeState D now remote s =
     (let (sm, store) = s in
      case remote of
        None \<Rightarrow> Inl NilDereference
      | Some r \<Rightarrow> go_bind (Merge_locked now r sm) (\<lambda>(changed, ev, sm').
          Inr (changed, sm', record_pending D ev store)))"

definition MarkNodeInactive ::
    "'db gorm \<Rightarrow> gotime \<Rightarrow> string \<Rightarrow> StateManager \<times> 'db option \<Rightarrow> StateManager \<times> 'db option" where
  "MarkNodeInactive D now nodeID s =
     (let (sm, store) = s; (ev, sm') = Inactive_locked now nodeID sm in (sm', record_pending D ev store))"

definition RemoveNode :: "gotime \<Rightarrow> string \<Rightarrow> StateManager \<Rightarrow> StateManager" where
  "RemoveNode now nodeID sm =
     (case mget (cs_Nodes (sm_clusterState sm)) nodeID of
        None \<Rightarrow> sm
      | Some ns \<Rightarrow>
          broadcast \<lparr>ev_NodeID = nodeID, ev_EventType = ''leave'', ev_NodeState = ns\<rparr>
            (sm\<lparr>sm_clusterState := (sm_clusterState sm)
               \<lparr>cs_Nodes := mdel nodeID (cs_Nodes (sm_clusterState sm)), cs_UpdatedAt := now\<rparr>\<rparr>))"

section \<open>Basic facts\<close>

lemma broadcast_frame [simp]:
  "sm_clusterState (broadcast e sm) = sm_clusterState sm"
  "sm_subscribers (broadcast e sm) = sm_subscribers sm"
  "sm_historySyncTime (broadcast e sm) = sm_historySyncTime sm"
  by (simp_all add: broadcast_def)

lemma put_node_frame [simp]:
  "sm_subscribers (put_node now n ns et sm) = sm_subscribers sm"
  "sm_historySyncTime (put_node now n ns et sm) = sm_historySyncTime sm"
  "cs_UpdatedAt (sm_clusterState (put_node now n ns et sm)) = now"
  "cs_LocalNodeID (sm_clusterState (put_node now n ns et sm)) = cs_LocalNodeID (sm_clusterState sm)"
  by (simp_all add: put_node_def)

lemma nodes_put_node [simp]:
  "cs_Nodes (sm_clusterState (put_node now n ns et sm)) = mput n ns (cs_Nodes (sm_clusterState sm))"
  by (simp add: put_node_def)

lemma GetNode_put_node:
  "GetNode m (put_node now n ns et sm) = (if m = n then Some ns else GetNode m sm)"
  by (auto simp: GetNode_def DAList.lookup_update)

lemma own_clock_Some: "\<exists>m. own_clock vc = Some m"
  by (cases vc) (simp_all add: own_clock_def)

lemma gget_own_clock [simp]: "gget (own_clock vc) = gget vc"
  by (cases vc) (simp_all add: own_clock_def gget_Some fun_eq_iff)

lemma Merge_own_clock: "\<exists>m. Merge (own_clock a) b = Inr (Some m)"
  using own_clock_Some [of a] Merge_Some by metis

lemma resolveConflict_order:
  "resolveConflict local remote = RemoteWins \<longleftrightarrow>
     gget (ns_Clock local) < gget (ns_Clock remote) \<or>
     (\<not> gget (ns_Clock remote) < gget (ns_Clock local) \<and> ns_LastUpdated local < ns_LastUpdated remote)"
  by (auto simp: resolveConflict_def Let_def Compare_eq_1 Compare_eq_m1 After_def)

end
