(* ===== verification/GoStd.thy ===== *)
theory GoStd
  imports Prelude
begin

text \<open>
  The functions of Go's standard library that the configuration uses, on strings as lists of
  characters: \<^verbatim>\<open>strings.Split\<close>, \<^verbatim>\<open>strings.TrimSpace\<close> (on the ASCII spaces),
  \<^verbatim>\<open>strconv.Atoi\<close> and \<^verbatim>\<open>strconv.ParseBool\<close>, \<^verbatim>\<open>net.SplitHostPort\<close> and
  \<^verbatim>\<open>time.ParseDuration\<close>. An error is \<open>None\<close>: the callers only test for it. The one
  floating-point product of \<^verbatim>\<open>ParseDuration\<close>, for the digits after a decimal point, is an
  argument.
\<close>

section \<open>Splitting and trimming\<close>

fun split_on :: "'a \<Rightarrow> 'a list \<Rightarrow> 'a list list" where
  "split_on c [] = [[]]"
| "split_on c (x # xs) =
     (if x = c then [] # split_on c xs
      else case split_on c xs of [] \<Rightarrow> [[x]] | y # ys \<Rightarrow> (x # y) # ys)"

lemma split_on_nonempty [simp]: "split_on c xs \<noteq> []"
  by (cases "(c, xs)" rule: split_on.cases) (auto split: list.splits)

lemma split_on_none: "c \<notin> set xs \<Longrightarrow> split_on c xs = [xs]"
  by (induction xs) auto

lemma split_on_append: "c \<notin> set xs \<Longrightarrow> split_on c (xs @ c # ys) = xs # split_on c ys"
  by (induction xs) auto

lemma split_on_no_sep: "p \<in> set (split_on c xs) \<Longrightarrow> c \<notin> set p"
proof (induction xs arbitrary: p)
  case (Cons x xs)
  then show ?case by (cases "split_on c xs") (auto split: if_splits)
qed simp

definition is_space :: "char \<Rightarrow> bool" where
  "is_space c \<longleftrightarrow> (let n = (of_char c :: nat) in n = 32 \<or> (9 \<le> n \<and> n \<le> 13))"

definition TrimSpace :: "string \<Rightarrow> string" where
  "TrimSpace s = rev (dropWhile is_space (rev (dropWhile is_space s)))"

lemma TrimSpace_subset: "set (TrimSpace s) \<subseteq> set s"
  by (metis TrimSpace_def set_dropWhileD set_rev subsetI)

lemma dropWhile_fix: "xs = [] \<or> \<not> P (hd xs) \<Longrightarrow> dropWhile P xs = xs"
  by (cases xs) auto

lemma TrimSpace_fix:
  "s = [] \<or> (\<not> is_space (hd s) \<and> \<not> is_space (last s)) \<Longrightarrow> TrimSpace s = s"
  by (auto simp: TrimSpace_def dropWhile_fix hd_rev)

lemma hd_dropWhile_not: "dropWhile P xs \<noteq> [] \<Longrightarrow> \<not> P (hd (dropWhile P xs))"
  by (rule hd_dropWhile)

lemma last_dropWhile: "dropWhile P xs \<noteq> [] \<Longrightarrow> last (dropWhile P xs) = last xs"
  by (induction xs) auto

lemma TrimSpace_ends:
  "TrimSpace s \<noteq> [] \<Longrightarrow> \<not> is_space (hd (TrimSpace s)) \<and> \<not> is_space (last (TrimSpace s))"
proof -
  let ?a = "dropWhile is_space s"
  let ?b = "dropWhile is_space (rev ?a)"
  assume "TrimSpace s \<noteq> []"
  then have b: "?b \<noteq> []" by (simp add: TrimSpace_def)
  then have a: "?a \<noteq> []" by (metis dropWhile.simps(1) rev.simps(1))
  have "last (TrimSpace s) = hd ?b" by (simp add: TrimSpace_def last_rev)
  moreover have "hd (TrimSpace s) = last ?b" by (simp add: TrimSpace_def hd_rev)
  moreover have "last ?b = hd ?a" using b by (simp add: last_dropWhile last_rev)
  ultimately show ?thesis
    using hd_dropWhile_not [OF b] hd_dropWhile_not [OF a] by simp
qed

section \<open>Numbers and booleans\<close>

definition is_digit :: "char \<Rightarrow> bool" where
  "is_digit c \<longleftrightarrow> (let n = (of_char c :: nat) in 48 \<le> n \<and> n \<le> 57)"

definition Atoi :: "string \<Rightarrow> int option" where
  "Atoi s =
     (let neg = (s \<noteq> [] \<and> hd s = CHR ''-'');
          ds = (if s \<noteq> [] \<and> (hd s = CHR ''-'' \<or> hd s = CHR ''+'') then tl s else s)
      in if ds = [] \<or> \<not> list_all is_digit ds then None
         else
           let n = int (read_digits ds 0); v = (if neg then - n else n)
           in if - (2 ^ 63) \<le> v \<and> v < 2 ^ 63 then Some v else None)"

definition ParseBool :: "string \<Rightarrow> bool option" where
  "ParseBool s =
     (if s \<in> {''1'', ''t'', ''T'', ''true'', ''TRUE'', ''True''} then Some True
      else if s \<in> {''0'', ''f'', ''F'', ''false'', ''FALSE'', ''False''} then Some False
      else None)"

lemma is_digit_char: "d < 10 \<Longrightarrow> is_digit (digit_char d)"
  by (simp add: is_digit_def digit_char_def)

lemma show_nat_digits: "list_all is_digit (show_nat n)"
proof (induction n rule: show_nat.induct)
  case (1 n)
  then show ?case by (subst show_nat.simps) (simp add: is_digit_char)
qed

lemma show_nat_nonempty [simp]: "show_nat n \<noteq> []"
  by (subst show_nat.simps) simp

lemma digit_not_sign: "is_digit c \<Longrightarrow> c \<noteq> CHR ''-'' \<and> c \<noteq> CHR ''+'' \<and> c \<noteq> CHR '':''"
  by (auto simp: is_digit_def)

lemma Atoi_show: "int n < 2 ^ 63 \<Longrightarrow> Atoi (show_nat n) = Some (int n)"
proof -
  assume n: "int n < 2 ^ 63"
  have "is_digit (hd (show_nat n))"
    using show_nat_digits [of n] by (cases "show_nat n") auto
  with digit_not_sign n show ?thesis
    by (auto simp: Atoi_def Let_def show_nat_digits read_show_nat)
qed

section \<open>Prefixes and paths\<close>

text \<open>\<^verbatim>\<open>strings.HasPrefix\<close>, \<^verbatim>\<open>strings.TrimPrefix\<close> and \<^verbatim>\<open>strings.SplitN\<close> with n = 2.\<close>

definition has_prefix :: "string \<Rightarrow> string \<Rightarrow> bool" where
  "has_prefix p s \<longleftrightarrow> take (length p) s = p"

definition TrimPrefix :: "string \<Rightarrow> string \<Rightarrow> string" where
  "TrimPrefix s p = (if has_prefix p s then drop (length p) s else s)"

fun SplitN2 :: "char \<Rightarrow> string \<Rightarrow> string \<times> string option" where
  "SplitN2 c [] = ([], None)"
| "SplitN2 c (x # xs) =
     (if x = c then ([], Some xs) else (let (a, b) = SplitN2 c xs in (x # a, b)))"

lemma has_prefix_append [simp]: "has_prefix p (p @ s)"
  by (simp add: has_prefix_def)

lemma has_prefix_iff: "has_prefix p s \<longleftrightarrow> (\<exists>t. s = p @ t)"
  by (auto simp: has_prefix_def) (metis append_take_drop_id)

lemma TrimPrefix_append [simp]: "TrimPrefix (p @ s) p = s"
  by (simp add: TrimPrefix_def)

lemma SplitN2_none: "c \<notin> set s \<Longrightarrow> SplitN2 c s = (s, None)"
  by (induction s) auto

lemma SplitN2_cut: "c \<notin> set s \<Longrightarrow> SplitN2 c (s @ c # t) = (s, Some t)"
  by (induction s) auto

lemma SplitN2_sound:
  "SplitN2 c s = (a, b) \<Longrightarrow> c \<notin> set a \<and> s = (case b of None \<Rightarrow> a | Some t \<Rightarrow> a @ c # t)"
  by (induction s arbitrary: a) (auto split: if_splits prod.splits option.splits)

text \<open>
  \<^verbatim>\<open>path.Clean\<close> of a rooted path, with the slash at the end that \<^verbatim>\<open>http.ServeMux\<close> keeps: empty
  segments and dots disappear, two dots remove the segment before them.
\<close>

fun clean_segs :: "string list \<Rightarrow> string list \<Rightarrow> string list" where
  "clean_segs [] acc = rev acc"
| "clean_segs (s # ss) acc =
     (if s = [] \<or> s = ''.'' then clean_segs ss acc
      else if s = ''..'' then clean_segs ss (tl acc)
      else clean_segs ss (s # acc))"

definition cleanPath :: "string \<Rightarrow> string" where
  "cleanPath p =
     (let segs = clean_segs (split_on (CHR ''/'') p) [];
          np = (if segs = [] then ''/'' else concat (List.map (\<lambda>s. CHR ''/'' # s) segs))
      in if p \<noteq> [] \<and> last p = CHR ''/'' \<and> np \<noteq> ''/'' then np @ ''/'' else np)"

section \<open>Addresses\<close>

text \<open>\<open>split_last c s\<close> cuts s at its last c.\<close>

fun split_last :: "'a \<Rightarrow> 'a list \<Rightarrow> ('a list \<times> 'a list) option" where
  "split_last c [] = None"
| "split_last c (x # xs) =
     (case split_last c xs of
        Some (a, b) \<Rightarrow> Some (x # a, b)
      | None \<Rightarrow> if x = c then Some ([], xs) else None)"

lemma split_last_None: "split_last c s = None \<longleftrightarrow> c \<notin> set s"
  by (induction s) (auto split: option.splits)

lemma split_last_append: "c \<notin> set b \<Longrightarrow> split_last c (a @ c # b) = Some (a, b)"
  by (induction a) (simp_all add: split_last_None [THEN iffD2])

lemma split_last_sound: "split_last c s = Some (a, b) \<Longrightarrow> s = a @ c # b \<and> c \<notin> set b"
  by (induction s arbitrary: a) (auto simp: split_last_None split: option.splits if_splits)

lemma split_last_Some: "split_last c s = Some (a, b) \<longleftrightarrow> s = a @ c # b \<and> c \<notin> set b"
  using split_last_sound split_last_append by metis

text \<open>
  The host and the port of an address. With a bracket in front, the first closing bracket has to
  stand right before the last colon; without one, the host has no colon. No other bracket may
  occur.
\<close>

definition SplitHostPort :: "string \<Rightarrow> (string \<times> string) option" where
  "SplitHostPort hostport =
     (case split_last (CHR '':'') hostport of
        None \<Rightarrow> None
      | Some (before, port) \<Rightarrow>
          if hd hostport = CHR ''['' then
            (let inner = takeWhile (\<lambda>c. c \<noteq> CHR '']'') (tl hostport) in
             if before = CHR ''['' # inner @ [CHR '']''] \<and> CHR ''['' \<notin> set (inner @ port) \<and>
                CHR '']'' \<notin> set port
             then Some (inner, port) else None)
          else if CHR '':'' \<in> set before \<or> CHR ''['' \<in> set hostport \<or> CHR '']'' \<in> set hostport then None
          else Some (before, port))"

section \<open>Durations\<close>

definition unit_ns :: "string \<Rightarrow> nat option" where
  "unit_ns u =
     (if u = ''ns'' then Some 1
      else if u = ''us'' then Some 1000
      else if u = [char_of (194::nat), char_of (181::nat), CHR ''s''] then Some 1000
      else if u = [char_of (206::nat), char_of (188::nat), CHR ''s''] then Some 1000
      else if u = ''ms'' then Some 1000000
      else if u = ''s'' then Some 1000000000
      else if u = ''m'' then Some 60000000000
      else if u = ''h'' then Some 3600000000000
      else None)"

text \<open>\<open>frac f scale unit\<close> is the float64 product of the fraction f / scale and the unit, truncated.\<close>

type_synonym float_product = "nat \<Rightarrow> nat \<Rightarrow> nat \<Rightarrow> nat"

text \<open>
  The digits after the point, as \<^verbatim>\<open>leadingFraction\<close> reads them: a digit that would take the
  value beyond an int64 is dropped, and all after it.
\<close>

fun leading_fraction :: "string \<Rightarrow> nat \<Rightarrow> nat \<Rightarrow> bool \<Rightarrow> nat \<times> nat" where
  "leading_fraction [] x scale overflow = (x, scale)"
| "leading_fraction (c # cs) x scale overflow =
     (let y = x * 10 + (of_char c - 48) in
      if overflow \<or> x > (2 ^ 63 - 1) div 10 \<or> y > 2 ^ 63 then leading_fraction cs x scale True
      else leading_fraction cs y (scale * 10) False)"

definition digit_or_dot :: "char \<Rightarrow> bool" where
  "digit_or_dot c \<longleftrightarrow> c = CHR ''.'' \<or> is_digit c"

text \<open>One number with its unit: its nanoseconds and the rest of the input.\<close>

definition parse_term :: "float_product \<Rightarrow> string \<Rightarrow> (nat \<times> string) option" where
  "parse_term frac s =
     (let ds = takeWhile is_digit s; s1 = dropWhile is_digit s;
          v = read_digits ds 0;
          dot = (s1 \<noteq> [] \<and> hd s1 = CHR ''.'');
          fs = (if dot then takeWhile is_digit (tl s1) else []);
          s2 = (if dot then dropWhile is_digit (tl s1) else s1);
          (f, scale) = leading_fraction fs 0 1 False;
          u = takeWhile (\<lambda>c. \<not> digit_or_dot c) s2; s3 = dropWhile (\<lambda>c. \<not> digit_or_dot c) s2
      in if s = [] \<or> \<not> digit_or_dot (hd s) \<or> v > 2 ^ 63 \<or> (ds = [] \<and> fs = []) \<or> u = [] then None
         else
           (case unit_ns u of
              None \<Rightarrow> None
            | Some unit \<Rightarrow>
                if v > 2 ^ 63 div unit then None
                else
                  let w = v * unit + (if f > 0 then frac f scale unit else 0)
                  in if w > 2 ^ 63 then None else Some (w, s3)))"

lemma parse_term_shorter: "parse_term frac s = Some (v, s') \<Longrightarrow> length s' < length s"
proof -
  assume h: "parse_term frac s = Some (v, s')"
  let ?s1 = "dropWhile is_digit s"
  let ?dot = "?s1 \<noteq> [] \<and> hd ?s1 = CHR ''.''"
  let ?s2 = "if ?dot then dropWhile is_digit (tl ?s1) else ?s1"
  have s': "s' = dropWhile (\<lambda>c. \<not> digit_or_dot c) ?s2" "takeWhile (\<lambda>c. \<not> digit_or_dot c) ?s2 \<noteq> []"
    using h by (auto simp: parse_term_def Let_def split: if_splits option.splits prod.splits)
  have "length (dropWhile is_digit (tl ?s1)) \<le> length (tl ?s1)" "length ?s1 \<le> length s"
    by (rule length_dropWhile_le)+
  then have "length ?s2 \<le> length s" by auto
  moreover have "length (takeWhile (\<lambda>c. \<not> digit_or_dot c) ?s2) + length s' = length ?s2"
    unfolding s'(1) by (metis length_append takeWhile_dropWhile_id)
  ultimately show ?thesis using s'(2) by (cases "takeWhile (\<lambda>c. \<not> digit_or_dot c) ?s2") auto
qed

function parse_terms :: "float_product \<Rightarrow> string \<Rightarrow> nat \<Rightarrow> nat option" where
  "parse_terms frac s d =
     (if s = [] then Some d
      else
        (case parse_term frac s of
           None \<Rightarrow> None
         | Some (v, s') \<Rightarrow> if d + v > 2 ^ 63 then None else parse_terms frac s' (d + v)))"
  by pat_completeness auto
termination
  by (relation "measure (\<lambda>(_, s, _). length s)") (auto dest: parse_term_shorter)

declare parse_terms.simps [simp del]

definition ParseDuration :: "float_product \<Rightarrow> string \<Rightarrow> duration option" where
  "ParseDuration frac s =
     (let signed = (s \<noteq> [] \<and> (hd s = CHR ''-'' \<or> hd s = CHR ''+''));
          neg = (signed \<and> hd s = CHR ''-'');
          s1 = (if signed then tl s else s)
      in if s1 = ''0'' then Some 0
         else if s1 = [] then None
         else
           (case parse_terms frac s1 0 of
              None \<Rightarrow> None
            | Some d \<Rightarrow> if neg then Some (- int d) else if int d \<ge> 2 ^ 63 then None else Some (int d)))"

lemma parse_terms_bound: "parse_terms frac s d = Some r \<Longrightarrow> d \<le> 2 ^ 63 \<Longrightarrow> r \<le> 2 ^ 63"
proof (induction frac s d rule: parse_terms.induct)
  case (1 frac s d)
  show ?case
  proof (cases "s = []")
    case True
    with 1(2,3) show ?thesis by (simp add: parse_terms.simps [of frac "[]"])
  next
    case False
    with 1(2) obtain v s' where t: "parse_term frac s = Some (v, s')" "\<not> d + v > 2 ^ 63"
      "parse_terms frac s' (d + v) = Some r"
      by (subst (asm) parse_terms.simps) (auto split: if_splits option.splits prod.splits)
    from "1.IH" [OF False t(1) refl t(2,3)] t(2) show ?thesis by simp
  qed
qed

lemma ParseDuration_int64: "ParseDuration frac s = Some d \<Longrightarrow> - (2 ^ 63) \<le> d \<and> d < 2 ^ 63"
proof -
  assume "ParseDuration frac s = Some d"
  then consider "d = 0" | r where "parse_terms frac (if s \<noteq> [] \<and> (hd s = CHR ''-'' \<or> hd s = CHR ''+'') then tl s else s) 0 = Some r"
    "d = - int r \<or> (d = int r \<and> int r < 2 ^ 63)"
    by (auto simp: ParseDuration_def Let_def split: if_splits option.splits)
  then show ?thesis
  proof cases
    case (2 r)
    then have "r \<le> 2 ^ 63" using parse_terms_bound by blast
    then have "int r \<le> 2 ^ 63" by simp
    with 2(2) show ?thesis by auto
  qed simp
qed

end
