(* ===== verification/Http.thy ===== *)
theory Http
  imports GoStd
begin

text \<open>
  What the HTTP handlers use of \<^verbatim>\<open>net/http\<close>, and the four middlewares of
  \<^verbatim>\<open>pkg/api/api.go\<close>. A request is its method, its path, its headers and the parameters of
  its query, each by its canonical name and empty when absent. A response writer keeps the
  header map, the status line and headers once they are sent (after that the map has no effect)
  and the pieces of the body. A handler works on a server state and a writer and may panic; a
  panic leaves what was written before.
\<close>

section \<open>Requests and responses\<close>

record request =
  req_Method :: string
  req_Path :: string
  req_Header :: "string \<Rightarrow> string"
  req_Query :: "string \<Rightarrow> string"

record writer =
  w_header :: "string \<Rightarrow> string"
  w_sent :: "(int \<times> (string \<Rightarrow> string)) option"
  w_body :: "string list"

definition fresh_writer :: writer where
  "fresh_writer = \<lparr>w_header = (\<lambda>_. []), w_sent = None, w_body = []\<rparr>"

definition set_header :: "string \<Rightarrow> string \<Rightarrow> writer \<Rightarrow> writer" where
  "set_header k v w = w\<lparr>w_header := (w_header w)(k := v)\<rparr>"

text \<open>Only the first status counts; \<^verbatim>\<open>net/http\<close> ignores the others.\<close>

definition WriteHeader :: "int \<Rightarrow> writer \<Rightarrow> writer" where
  "WriteHeader status w = (if w_sent w = None then w\<lparr>w_sent := Some (status, w_header w)\<rparr> else w)"

definition write_body :: "string \<Rightarrow> writer \<Rightarrow> writer" where
  "write_body s w = (let w' = WriteHeader 200 w in w'\<lparr>w_body := w_body w' @ [s]\<rparr>)"

definition newline :: string where
  "newline = [char_of (10::nat)]"

definition http_Error :: "string \<Rightarrow> int \<Rightarrow> writer \<Rightarrow> writer" where
  "http_Error msg code w =
     write_body (msg @ newline)
       (WriteHeader code
         (set_header ''X-Content-Type-Options'' ''nosniff''
           (set_header ''Content-Type'' ''text/plain; charset=utf-8'' w)))"

definition status :: "writer \<Rightarrow> int option" where
  "status w = map_option fst (w_sent w)"

type_synonym 's handler = "request \<Rightarrow> 's \<times> writer \<Rightarrow> go_panic option \<times> 's \<times> writer"

text \<open>A handler that only writes a response.\<close>

definition reply :: "(writer \<Rightarrow> writer) \<Rightarrow> 's \<times> writer \<Rightarrow> go_panic option \<times> 's \<times> writer" where
  "reply f s = (None, fst s, f (snd s))"

section \<open>The middlewares\<close>

text \<open>The log line of \<^verbatim>\<open>loggingMiddleware\<close> is its only effect.\<close>

definition loggingMiddleware :: "'s handler \<Rightarrow> 's handler" where
  "loggingMiddleware next_handler r s = next_handler r s"

definition corsMiddleware :: "'s handler \<Rightarrow> 's handler" where
  "corsMiddleware next_handler r s =
     (let (st, w) = s;
          w1 = set_header ''Access-Control-Allow-Methods'' ''GET, OPTIONS''
                 (set_header ''Access-Control-Allow-Origin'' ''*'' w)
      in if req_Method r = ''OPTIONS'' then (None, st, WriteHeader 200 w1)
         else next_handler r (st, w1))"

text \<open>\<open>BlockedForever\<close> is no panic: there is nothing to recover from.\<close>

definition recoveryMiddleware :: "'s handler \<Rightarrow> 's handler" where
  "recoveryMiddleware next_handler r s =
     (case next_handler r s of
        (None, s') \<Rightarrow> (None, s')
      | (Some p, st, w) \<Rightarrow>
          if p = BlockedForever then (Some p, st, w)
          else (None, st, http_Error ''Internal Server Error'' 500 w))"

definition bearer_ok :: "string \<Rightarrow> request \<Rightarrow> bool" where
  "bearer_ok token r \<longleftrightarrow>
     (let auth = req_Header r ''Authorization'' in
      \<not> (\<not> has_prefix ''Bearer '' auth \<or> TrimPrefix auth ''Bearer '' \<noteq> token))"

definition json_error :: "string \<Rightarrow> string" where
  "json_error msg = CHR 0x7B # CHR 0x22 # ''error'' @ CHR 0x22 # CHR '':'' # CHR 0x22 # msg @ [CHR 0x22, CHR 0x7D]"

definition authMiddleware :: "string \<Rightarrow> 's handler \<Rightarrow> 's handler" where
  "authMiddleware token next_handler r s =
     (if token = [] \<or> req_Path r = ''/api/health'' then next_handler r s
      else if \<not> bearer_ok token r then
        reply (\<lambda>w. write_body (json_error ''unauthorized'') (WriteHeader 401 (set_header ''Content-Type'' ''application/json'' w))) s
      else next_handler r s)"

section \<open>Facts\<close>

lemma WriteHeader_fresh [simp]: "w_sent w = None \<Longrightarrow> status (WriteHeader c w) = Some c"
  by (simp add: WriteHeader_def status_def)

lemma set_header_simps [simp]:
  "w_sent (set_header k v w) = w_sent w" "w_body (set_header k v w) = w_body w"
  "w_header (set_header k v w) = (w_header w)(k := v)"
  by (simp_all add: set_header_def)

lemma http_Error_status [simp]: "w_sent w = None \<Longrightarrow> status (http_Error msg c w) = Some c"
  by (simp add: http_Error_def write_body_def WriteHeader_def status_def Let_def)

lemma http_Error_body [simp]: "w_body (http_Error msg c w) = w_body w @ [msg @ newline]"
  by (simp add: http_Error_def write_body_def WriteHeader_def Let_def)

lemma bearer_ok_iff: "bearer_ok token r \<longleftrightarrow> req_Header r ''Authorization'' = ''Bearer '' @ token"
  by (auto simp: bearer_ok_def Let_def has_prefix_iff TrimPrefix_def)

text \<open>Recovery leaves no panic.\<close>

lemma recovery_no_panic:
  "fst (next_handler r s) \<noteq> Some BlockedForever \<Longrightarrow> fst (recoveryMiddleware next_handler r s) = None"
  by (auto simp: recoveryMiddleware_def split: prod.splits option.splits)

end
