(* ===== verification/Hub.thy ===== *)
theory Hub
  imports StateManager Http
begin

text \<open>
  \<^verbatim>\<open>pkg/api/websocket.go\<close>: the hub that hands state changes to the connected clients. A
  client is an address in the heap of the hub; its cell holds the buffered channel
  \<^verbatim>\<open>send\<close>, the frames written to its connection, whether the connection is open and
  whether its \<^verbatim>\<open>writePump\<close> still runs. The goroutines that are blocked in
  \<^verbatim>\<open>register <- client\<close> are a list of addresses. Each case of the \<^verbatim>\<open>select\<close> of
  \<^verbatim>\<open>Run\<close> is a function. Writing to a connection may fail: the outcome is an argument.
\<close>

datatype frame = TextFrame string | CloseFrame | PingFrame

record wsClient =
  wc_send :: "string chan"
  wc_frames :: "frame list"
  wc_open :: bool
  wc_pumping :: bool

type_synonym ws_heap = "(nat, wsClient) alist"

record wsHub =
  hb_clients :: "(nat, bool) alist"
  hb_broadcast :: "string chan"
  hb_stopped :: bool
  hb_origins :: "string list"
  hb_heap :: ws_heap
  hb_registering :: "nat list"

definition newWSHub :: "string list \<Rightarrow> wsHub" where
  "newWSHub allowedOrigins =
     \<lparr>hb_clients = mempty, hb_broadcast = make_chan 256, hb_stopped = False,
      hb_origins = allowedOrigins, hb_heap = mempty, hb_registering = []\<rparr>"

definition CheckOrigin :: "string list \<Rightarrow> request \<Rightarrow> bool" where
  "CheckOrigin allowedOrigins r =
     (let origin = req_Header r ''Origin'' in
      if origin = [] then True
      else if length allowedOrigins = 0 then False
      else list_ex (\<lambda>o'. origin = o') allowedOrigins)"

section \<open>The main loop\<close>

text \<open>A client made by the handler of \<^verbatim>\<open>/ws\<close>: it waits to be registered.\<close>

definition ws_connect :: "wsHub \<Rightarrow> nat \<times> wsHub" where
  "ws_connect h =
     (let c = length (mentries (hb_heap h)) in
      (c, h\<lparr>hb_heap := mput c \<lparr>wc_send = make_chan 256, wc_frames = [], wc_open = True, wc_pumping = False\<rparr> (hb_heap h),
            hb_registering := hb_registering h @ [c]\<rparr>))"

text \<open>The hub takes a waiting client, whose handler then starts the two pumps.\<close>

definition hub_register :: "nat \<Rightarrow> wsHub \<Rightarrow> wsHub" where
  "hub_register c h =
     h\<lparr>hb_clients := mput c True (hb_clients h),
       hb_registering := remove1 c (hb_registering h),
       hb_heap := (case mget (hb_heap h) c of None \<Rightarrow> hb_heap h
                   | Some cl \<Rightarrow> mput c (cl\<lparr>wc_pumping := True\<rparr>) (hb_heap h))\<rparr>"

definition close_send :: "nat \<Rightarrow> ws_heap \<Rightarrow> ws_heap go" where
  "close_send c heap =
     (case mget heap c of
        None \<Rightarrow> Inl NilDereference
      | Some cl \<Rightarrow> go_bind (close_chan (wc_send cl)) (\<lambda>ch. Inr (mput c (cl\<lparr>wc_send := ch\<rparr>) heap)))"

definition hub_unregister :: "nat \<Rightarrow> wsHub \<Rightarrow> wsHub go" where
  "hub_unregister c h =
     (case mget (hb_clients h) c of
        None \<Rightarrow> Inr h
      | Some _ \<Rightarrow>
          go_bind (close_send c (hb_heap h)) (\<lambda>heap.
            Inr (h\<lparr>hb_clients := mdel c (hb_clients h), hb_heap := heap\<rparr>)))"

text \<open>
  One message for every client: a client whose buffer is full is closed and remembered as
  stale. A send on a closed channel panics, also in a \<^verbatim>\<open>select\<close> with a default.
\<close>

fun hub_send_loop :: "(nat \<times> bool) list \<Rightarrow> string \<Rightarrow> ws_heap \<times> nat list \<Rightarrow> (ws_heap \<times> nat list) go" where
  "hub_send_loop [] message s = Inr s"
| "hub_send_loop ((c, _) # cs) message (heap, stale) =
     (case mget heap c of
        None \<Rightarrow> Inl NilDereference
      | Some cl \<Rightarrow>
          (case send_chan message (wc_send cl) of
             Inr ch \<Rightarrow> hub_send_loop cs message (mput c (cl\<lparr>wc_send := ch\<rparr>) heap, stale)
           | Inl p \<Rightarrow>
               if p = BlockedForever
               then go_bind (close_send c heap) (\<lambda>heap'. hub_send_loop cs message (heap', stale @ [c]))
               else Inl p))"

definition hub_message :: "string \<Rightarrow> wsHub \<Rightarrow> wsHub go" where
  "hub_message message h =
     go_bind (hub_send_loop (mentries (hb_clients h)) message (hb_heap h, [])) (\<lambda>(heap, stale).
       Inr (h\<lparr>hb_heap := heap, hb_clients := fold mdel stale (hb_clients h)\<rparr>))"

definition hub_Stop :: "wsHub \<Rightarrow> wsHub" where
  "hub_Stop h = (if hb_stopped h then h else h\<lparr>hb_stopped := True\<rparr>)"

section \<open>The pumps of a client\<close>

text \<open>
  \<^verbatim>\<open>writePump\<close>: a wake-up is a message or the closing of \<^verbatim>\<open>send\<close>, or a tick of its
  ticker, with whether the write succeeds. The pump closes the connection when it returns.
  \<open>None\<close> means that the channel has nothing to receive.
\<close>

datatype pump_wake = WakeSend bool | WakeTick bool

definition pump_return :: "wsClient \<Rightarrow> wsClient" where
  "pump_return cl = cl\<lparr>wc_open := False, wc_pumping := False\<rparr>"

definition write_frame :: "bool \<Rightarrow> frame \<Rightarrow> wsClient \<Rightarrow> wsClient option" where
  "write_frame ok f cl = (if ok \<and> wc_open cl then Some (cl\<lparr>wc_frames := wc_frames cl @ [f]\<rparr>) else None)"

fun pump_step :: "pump_wake \<Rightarrow> wsClient \<Rightarrow> wsClient option" where
  "pump_step (WakeSend ok) cl =
     (case recv_chan (wc_send cl) of
        Some (message, ch) \<Rightarrow>
          (let cl1 = cl\<lparr>wc_send := ch\<rparr> in
           case write_frame ok (TextFrame message) cl1 of
             Some cl2 \<Rightarrow> Some cl2
           | None \<Rightarrow> Some (pump_return cl1))
      | None \<Rightarrow>
          if ch_closed (wc_send cl) then
            (case write_frame ok CloseFrame cl of
               Some cl1 \<Rightarrow> Some (pump_return cl1)
             | None \<Rightarrow> Some (pump_return cl))
          else None)"
| "pump_step (WakeTick ok) cl =
     (case write_frame ok PingFrame cl of Some cl1 \<Rightarrow> Some cl1 | None \<Rightarrow> Some (pump_return cl))"

text \<open>The loop of \<^verbatim>\<open>writePump\<close> over its wake-ups; one that is not ready passes by.\<close>

fun writePump :: "pump_wake list \<Rightarrow> wsClient \<Rightarrow> wsClient" where
  "writePump [] cl = cl"
| "writePump (w # ws) cl =
     (if \<not> wc_pumping cl then cl
      else case pump_step w cl of None \<Rightarrow> writePump ws cl | Some cl' \<Rightarrow> writePump ws cl')"

definition hub_pump :: "nat \<Rightarrow> pump_wake \<Rightarrow> wsHub \<Rightarrow> wsHub" where
  "hub_pump c w h =
     (case mget (hb_heap h) c of
        None \<Rightarrow> h
      | Some cl \<Rightarrow> h\<lparr>hb_heap := mput c (writePump [w] cl) (hb_heap h)\<rparr>)"

text \<open>
  The end of \<^verbatim>\<open>readPump\<close>, after a read has failed: the hub takes the client when it waits in
  its \<^verbatim>\<open>select\<close> at that instant; otherwise only the connection is closed.
\<close>

definition readPump_exit :: "bool \<Rightarrow> nat \<Rightarrow> wsHub \<Rightarrow> wsHub go" where
  "readPump_exit taken c h =
     (if taken then hub_unregister c h
      else case mget (hb_heap h) c of
             None \<Rightarrow> Inr h
           | Some cl \<Rightarrow> Inr (h\<lparr>hb_heap := mput c (cl\<lparr>wc_open := False\<rparr>) (hb_heap h)\<rparr>))"

text \<open>\<^verbatim>\<open>readPump\<close>: it reads until the first read that fails, and drops what it reads.\<close>

fun readPump :: "bool list \<Rightarrow> bool \<Rightarrow> nat \<Rightarrow> wsHub \<Rightarrow> wsHub go" where
  "readPump [] taken c h = Inr h"
| "readPump (ok # reads) taken c h = (if ok then readPump reads taken c h else readPump_exit taken c h)"

section \<open>Run and the forwarder\<close>

text \<open>
  \<^verbatim>\<open>Run\<close> subscribes, forwards events in a goroutine of its own, and unsubscribes when it
  returns. The forwarder is idle (waiting for an event), holds an encoded event it cannot send
  yet, or has returned.
\<close>

datatype run_phase = NotRunning | Running nat | RunReturned
datatype fwd_phase = FwdNone | FwdIdle | FwdHolds string | FwdReturned

record ws_system =
  wy_hub :: wsHub
  wy_sm :: StateManager
  wy_run :: run_phase
  wy_fwd :: fwd_phase

definition Run_start :: "ws_system \<Rightarrow> ws_system" where
  "Run_start y =
     (let (ch, sm) = Subscribe (wy_sm y) in y\<lparr>wy_sm := sm, wy_run := Running ch, wy_fwd := FwdIdle\<rparr>)"

definition Run_return :: "nat \<Rightarrow> ws_system \<Rightarrow> ws_system go" where
  "Run_return ch y =
     go_bind (Unsubscribe ch (wy_sm y)) (\<lambda>sm. Inr (y\<lparr>wy_sm := sm, wy_run := RunReturned\<rparr>))"

text \<open>
  One receive of the forwarder on the channel: an event (skipped when it cannot be encoded), or
  the end of the range loop when the channel is closed and empty; \<open>None\<close> when it blocks.
\<close>

definition forward_receive :: "(NodeChangeEvent \<Rightarrow> string option) \<Rightarrow> nat \<Rightarrow> ws_system \<Rightarrow> ws_system option" where
  "forward_receive json ch y =
     (case Receive ch (wy_sm y) of
        Some (e, sm) \<Rightarrow>
          Some (y\<lparr>wy_sm := sm, wy_fwd := (case json e of None \<Rightarrow> FwdIdle | Some data \<Rightarrow> FwdHolds data)\<rparr>)
      | None \<Rightarrow>
          (case mget (sm_chans (wy_sm y)) ch of
             None \<Rightarrow> None
           | Some c \<Rightarrow> if ch_closed c then Some (y\<lparr>wy_fwd := FwdReturned\<rparr>) else None))"

text \<open>Its \<^verbatim>\<open>select\<close>: the send into the hub's buffer, or the end when the hub is stopped.\<close>

definition forward_send :: "string \<Rightarrow> ws_system \<Rightarrow> ws_system option" where
  "forward_send data y =
     (case send_chan data (hb_broadcast (wy_hub y)) of
        Inr ch \<Rightarrow> Some (y\<lparr>wy_hub := (wy_hub y)\<lparr>hb_broadcast := ch\<rparr>, wy_fwd := FwdIdle\<rparr>)
      | Inl _ \<Rightarrow> None)"

definition forward_stop :: "ws_system \<Rightarrow> ws_system option" where
  "forward_stop y = (if hb_stopped (wy_hub y) then Some (y\<lparr>wy_fwd := FwdReturned\<rparr>) else None)"

text \<open>The case of \<^verbatim>\<open>Run\<close>'s select that takes a message out of the hub's buffer.\<close>

definition Run_broadcast :: "ws_system \<Rightarrow> ws_system go option" where
  "Run_broadcast y =
     (case recv_chan (hb_broadcast (wy_hub y)) of
        None \<Rightarrow> None
      | Some (message, ch) \<Rightarrow>
          Some (go_bind (hub_message message ((wy_hub y)\<lparr>hb_broadcast := ch\<rparr>)) (\<lambda>h. Inr (y\<lparr>wy_hub := h\<rparr>))))"

end
