(* ===== verification/Convergence.thy ===== *)
theory Convergence
  imports StateManager "HOL-Library.Product_Lexorder"
begin

text \<open>
  What merging does to one entry of the cluster state, and why replicas that have received the
  same updates agree. The locale \<open>causal_register\<close> is the interface: a register whose
  stamps are partially ordered, which ignores stale updates, takes fresh ones and is not moved
  by an update it already holds. The conflict resolution of the state manager interprets it,
  with the vector clock as the stamp.
\<close>

section \<open>Registers ordered by stamps\<close>

locale causal_register =
  fixes merge :: "'s \<Rightarrow> 's \<Rightarrow> 's"
    and stamp :: "'s \<Rightarrow> 't::order"
    and view :: "'s \<Rightarrow> 'v"
  assumes stale: "stamp y < stamp s \<Longrightarrow> merge s y = s"
    and fresh: "stamp s < stamp y \<Longrightarrow> view (merge s y) = view y"
    and same: "view y = view s \<Longrightarrow> merge s y = s"
    and view_stamp: "view x = view y \<Longrightarrow> stamp x = stamp y"
begin

text \<open>A family of updates from one causal history: comparable, and determined by their stamps.\<close>

definition chain :: "'s set \<Rightarrow> bool" where
  "chain U \<longleftrightarrow> (\<forall>x \<in> U. \<forall>y \<in> U. (stamp x \<le> stamp y \<or> stamp y \<le> stamp x) \<and>
                                  (stamp x = stamp y \<longrightarrow> view x = view y))"

lemma chainD:
  assumes "chain U" and "x \<in> U" and "y \<in> U"
  shows "stamp x \<le> stamp y \<or> stamp y \<le> stamp x" and "stamp x = stamp y \<Longrightarrow> view x = view y"
  using assms unfolding chain_def by blast+

definition newest :: "'s set \<Rightarrow> 's \<Rightarrow> bool" where
  "newest U s \<longleftrightarrow> (\<exists>m \<in> U. view s = view m \<and> (\<forall>x \<in> U. stamp x \<le> stamp m))"

lemma newest_merge:
  assumes "newest U s" and "chain (insert y U)"
  shows "newest (insert y U) (merge s y)"
proof -
  obtain m where m: "m \<in> U" "view s = view m" "\<forall>x \<in> U. stamp x \<le> stamp m"
    using assms(1) by (auto simp: newest_def)
  have sm: "stamp s = stamp m"
    using m(2) by (rule view_stamp)
  have mem: "y \<in> insert y U" "m \<in> insert y U" using m(1) by simp_all
  note cmp = chainD(1) [OF assms(2) mem] and eq = chainD(2) [OF assms(2) mem]
  consider "stamp y < stamp m" | "stamp y = stamp m" | "stamp m < stamp y"
    using cmp by (auto simp: order.order_iff_strict)
  then show ?thesis
  proof cases
    case 1
    have "merge s y = s" using 1 sm by (simp add: stale)
    moreover have "\<forall>x \<in> insert y U. stamp x \<le> stamp m"
      using 1 m(3) by (simp add: less_imp_le)
    ultimately show ?thesis
      using m(1,2) unfolding newest_def by auto
  next
    case 2
    have "merge s y = s" using eq [OF 2] m(2) by (simp add: same)
    moreover have "\<forall>x \<in> insert y U. stamp x \<le> stamp m"
      using 2 m(3) by simp
    ultimately show ?thesis
      using m(1,2) unfolding newest_def by auto
  next
    case 3
    have "view (merge s y) = view y" using 3 sm by (simp add: fresh)
    moreover have "\<forall>x \<in> insert y U. stamp x \<le> stamp y"
      using 3 m(3) by (auto intro: order_trans [OF _ less_imp_le])
    ultimately show ?thesis
      unfolding newest_def by auto
  qed
qed

lemma newest_unique: "chain U \<Longrightarrow> newest U s \<Longrightarrow> newest U t \<Longrightarrow> view s = view t"
  unfolding newest_def by (metis chainD(2) antisym)

lemma newest_cong:
  assumes "newest A s" and "view ` A = view ` B"
  shows "newest B s"
proof -
  obtain m where m: "m \<in> A" "view s = view m" "\<forall>x \<in> A. stamp x \<le> stamp m" using assms(1) by (auto simp: newest_def)
  have fwd: "\<exists>y \<in> B. view x = view y" if "x \<in> A" for x
    using that assms(2) by (metis imageE image_eqI)
  have bwd: "\<exists>x \<in> A. view x = view y" if "y \<in> B" for y
    using that assms(2) by (metis imageE image_eqI)
  obtain m' where m': "m' \<in> B" "view m = view m'" using fwd [OF m(1)] by blast
  have "stamp y \<le> stamp m'" if "y \<in> B" for y
    using bwd [OF that] m(3) view_stamp m'(2) by metis
  with m' m(2) show ?thesis by (auto simp: newest_def)
qed

lemma chain_mono: "chain V \<Longrightarrow> U \<subseteq> V \<Longrightarrow> chain U"
  by (auto simp: chain_def)

end

section \<open>One entry of the cluster state\<close>

text \<open>What is observed of a node state: its fields, and its clock as a function.\<close>

definition ns_view :: "NodeState \<Rightarrow> NodeState \<times> (string \<Rightarrow> i64 option)" where
  "ns_view ns = (ns\<lparr>ns_Clock := None\<rparr>, gget (ns_Clock ns))"

definition ns_stamp :: "NodeState \<Rightarrow> string \<Rightarrow> i64 option" where
  "ns_stamp ns = gget (ns_Clock ns)"

definition node_join :: "NodeState \<Rightarrow> NodeState" where
  "node_join remote = remote\<lparr>ns_Clock := own_clock (ns_Clock remote)\<rparr>"

definition node_merge :: "NodeState \<Rightarrow> NodeState \<Rightarrow> NodeState" where
  "node_merge local remote =
     (case resolveConflict local remote of
        LocalWins \<Rightarrow> local
      | RemoteWins \<Rightarrow>
          (case Merge (own_clock (ns_Clock remote)) (ns_Clock local) of
             Inl _ \<Rightarrow> local
           | Inr vc \<Rightarrow> remote\<lparr>ns_Clock := vc\<rparr>))"

lemma ns_view_join [simp]: "ns_view (node_join r) = ns_view r"
  by (simp add: ns_view_def node_join_def)

lemma ns_stamp_view: "ns_view x = ns_view y \<Longrightarrow> ns_stamp x = ns_stamp y"
  by (simp add: ns_view_def ns_stamp_def)

lemma ns_view_LastUpdated: "ns_view x = ns_view y \<Longrightarrow> ns_LastUpdated x = ns_LastUpdated y"
  by (auto simp: ns_view_def dest: arg_cong [where f = ns_LastUpdated])

lemma ns_view_NodeID: "ns_view x = ns_view y \<Longrightarrow> ns_NodeID x = ns_NodeID y"
  by (auto simp: ns_view_def dest: arg_cong [where f = ns_NodeID])

lemma ns_NodeID_join [simp]: "ns_NodeID (node_join r) = ns_NodeID r"
  by (simp add: node_join_def)

lemma ns_stamp_merge:
  "ns_stamp (node_merge l r) =
     (if resolveConflict l r = RemoteWins then sup (ns_stamp l) (ns_stamp r) else ns_stamp l)"
proof (cases "resolveConflict l r")
  case LocalWins
  then show ?thesis by (simp add: node_merge_def)
next
  case RemoteWins
  obtain m where m: "Merge (own_clock (ns_Clock r)) (ns_Clock l) = Inr (Some m)"
    using Merge_own_clock by blast
  from gget_Merge [OF m] RemoteWins m show ?thesis
    by (simp add: node_merge_def ns_stamp_def sup_commute)
qed

lemma ns_fields_merge:
  "resolveConflict l r = RemoteWins \<Longrightarrow> (node_merge l r)\<lparr>ns_Clock := None\<rparr> = r\<lparr>ns_Clock := None\<rparr>"
  using Merge_own_clock [of "ns_Clock r" "ns_Clock l"] by (auto simp: node_merge_def)

lemma node_merge_mono: "ns_stamp l \<le> ns_stamp (node_merge l r)"
  by (simp add: ns_stamp_merge)

lemma node_merge_NodeID: "ns_NodeID l = ns_NodeID r \<Longrightarrow> ns_NodeID (node_merge l r) = ns_NodeID r"
  by (auto simp: node_merge_def split: winner.splits sum.splits)

lemma node_merge_stale: "ns_stamp y < ns_stamp s \<Longrightarrow> node_merge s y = s"
  by (cases "resolveConflict s y")
     (auto simp: node_merge_def resolveConflict_order ns_stamp_def less_le_not_le)

lemma node_merge_fresh: "ns_stamp s < ns_stamp y \<Longrightarrow> ns_view (node_merge s y) = ns_view y"
proof -
  assume lt: "ns_stamp s < ns_stamp y"
  then have "resolveConflict s y = RemoteWins"
    by (simp add: resolveConflict_order ns_stamp_def)
  with lt ns_fields_merge ns_stamp_merge [of s y] show ?thesis
    by (simp add: ns_view_def ns_stamp_def sup_absorb2 less_imp_le)
qed

lemma node_merge_same: "ns_view y = ns_view s \<Longrightarrow> node_merge s y = s"
  using ns_stamp_view [of y s] ns_view_LastUpdated [of y s]
  by (cases "resolveConflict s y") (auto simp: node_merge_def resolveConflict_order ns_stamp_def)

text \<open>
  What two replicas may disagree on is the status, which a departure changes without a new clock:
  the version of a node state is all the rest.
\<close>

definition version :: "NodeState \<Rightarrow> NodeState \<times> (string \<Rightarrow> i64 option)" where
  "version ns = ns_view (ns\<lparr>ns_Status := []\<rparr>)"

lemma version_of_view: "version ns = ((fst (ns_view ns))\<lparr>ns_Status := []\<rparr>, snd (ns_view ns))"
  by (simp add: version_def ns_view_def)

lemma version_view: "ns_view x = ns_view y \<Longrightarrow> version x = version y"
  by (simp add: version_of_view)

lemma version_stamp: "version x = version y \<Longrightarrow> ns_stamp x = ns_stamp y"
  by (simp add: version_def ns_view_def ns_stamp_def)

lemma version_fields:
  "version x = version y \<Longrightarrow> ns_LastUpdated x = ns_LastUpdated y \<and> ns_NodeID x = ns_NodeID y"
  by (auto simp: version_def ns_view_def dest: arg_cong [where f = ns_LastUpdated] arg_cong [where f = ns_NodeID])

lemma node_merge_same_version: "version y = version s \<Longrightarrow> node_merge s y = s"
  using version_stamp [of y s] version_fields [of y s]
  by (cases "resolveConflict s y") (auto simp: node_merge_def resolveConflict_order ns_stamp_def)

section \<open>The state manager applies it entry by entry\<close>

lemma Merge_locked_spec:
  "\<exists>ev sm'. Merge_locked now r sm =
       Inr (case GetNode (ns_NodeID r) sm of
              None \<Rightarrow> True | Some l \<Rightarrow> resolveConflict l r = RemoteWins, ev, sm') \<and>
     GetNode n sm' =
       (if n = ns_NodeID r
        then Some (case GetNode n sm of None \<Rightarrow> node_join r | Some l \<Rightarrow> node_merge l r)
        else GetNode n sm)"
proof (cases "GetNode (ns_NodeID r) sm")
  case None
  then show ?thesis
    by (simp add: Merge_locked_def GetNode_def [of "ns_NodeID r"] GetNode_put_node Let_def node_join_def)
next
  case (Some l)
  show ?thesis
  proof (cases "resolveConflict l r")
    case LocalWins
    with Some show ?thesis
      by (auto simp: Merge_locked_def GetNode_def node_merge_def)
  next
    case RemoteWins
    obtain m where m: "Merge (own_clock (ns_Clock r)) (ns_Clock l) = Inr (Some m)"
      using Merge_own_clock by blast
    with RemoteWins Some show ?thesis
      by (auto simp: Merge_locked_def GetNode_def [of "ns_NodeID r" sm] GetNode_put_node Let_def node_merge_def)
  qed
qed

lemma MergeNodeState_GetNode:
  assumes "MergeNodeState D now (Some r) (sm, st) = Inr (changed, sm', st')"
  shows "GetNode n sm' =
      (if n = ns_NodeID r
       then Some (case GetNode n sm of None \<Rightarrow> node_join r | Some l \<Rightarrow> node_merge l r)
       else GetNode n sm)"
    and "changed \<longleftrightarrow> (case GetNode (ns_NodeID r) sm of
              None \<Rightarrow> True | Some l \<Rightarrow> resolveConflict l r = RemoteWins)"
  using assms Merge_locked_spec [of now r sm n]
  by (auto simp: MergeNodeState_def split: prod.splits)

lemma MergeNodeState_total:
  "\<exists>changed sm' st'. MergeNodeState D now (Some r) (sm, st) = Inr (changed, sm', st')"
  using Merge_locked_spec [of now r sm] by (fastforce simp: MergeNodeState_def)

text \<open>
  Receiving a list of node states, as \<^verbatim>\<open>handleMessage\<close> and
  \<^verbatim>\<open>handleMergeRemoteState\<close> do for the nodes of a cluster sync; each element comes
  with the instant at which its merge reads the clock.
\<close>

fun merge_nodes ::
    "'db gorm \<Rightarrow> (gotime \<times> NodeState option) list \<Rightarrow> StateManager \<times> 'db option
       \<Rightarrow> (StateManager \<times> 'db option) go" where
  "merge_nodes D [] s = Inr s"
| "merge_nodes D ((now, ns) # nss) s =
     go_bind (MergeNodeState D now ns s) (\<lambda>(_, s'). merge_nodes D nss s')"

definition received :: "(gotime \<times> NodeState option) list \<Rightarrow> string \<Rightarrow> NodeState set" where
  "received xs n = {r. Some r \<in> snd ` set xs \<and> ns_NodeID r = n}"

lemma received_Cons:
  "received ((t, Some r) # xs) n = (if ns_NodeID r = n then insert r (received xs n) else received xs n)"
  by (auto simp: received_def)

lemma merge_nodes_total: "None \<notin> snd ` set xs \<Longrightarrow> \<exists>s'. merge_nodes D xs s = Inr s'"
proof (induction xs arbitrary: s)
  case Nil
  show ?case by simp
next
  case (Cons x xs)
  obtain t r where x: "x = (t, Some r)"
    using Cons.prems by (cases x; cases "snd x") auto
  obtain sm st where s: "s = (sm, st)" by (cases s)
  obtain c sm' st' where m: "MergeNodeState D t (Some r) (sm, st) = Inr (c, sm', st')"
    using MergeNodeState_total by blast
  from Cons.IH [of "(sm', st')"] Cons.prems show ?case
    by (simp add: x s m)
qed

text \<open>
  What of an entry is compared, and by which stamps, are parameters: the node state as it is viewed,
  or its version.
\<close>

locale entry_register = causal_register node_merge stamp view
  for stamp :: "NodeState \<Rightarrow> 't::order" and view :: "NodeState \<Rightarrow> 'v" +
  assumes view_join: "view (node_join r) = view r"
begin

text \<open>The entry of node n is the newest of what was there and what was received.\<close>

lemma merge_nodes_newest:
  assumes "merge_nodes D xs (sm, st) = Inr (sm', st')"
    and "chain (U \<union> received xs n)"
    and "case GetNode n sm of None \<Rightarrow> U = {} | Some l \<Rightarrow> newest U l"
  shows "case GetNode n sm' of None \<Rightarrow> U \<union> received xs n = {} | Some l \<Rightarrow> newest (U \<union> received xs n) l"
  using assms
proof (induction xs arbitrary: sm st U)
  case Nil
  have "received [] n = {}" by (simp add: received_def)
  with Nil show ?case by (simp split: option.splits)
next
  case (Cons x xs)
  obtain t ro where x: "x = (t, ro)" by (cases x)
  with Cons.prems(1) obtain r where ro: "ro = Some r"
    by (cases ro) (auto simp: MergeNodeState_def)
  obtain c sm1 st1 where m: "MergeNodeState D t (Some r) (sm, st) = Inr (c, sm1, st1)"
    using MergeNodeState_total by blast
  have rest: "merge_nodes D xs (sm1, st1) = Inr (sm', st')"
    using Cons.prems(1) by (simp add: x ro m)
  note get = MergeNodeState_GetNode(1) [OF m, of n]
  show ?case
  proof (cases "ns_NodeID r = n")
    case False
    with get have "GetNode n sm1 = GetNode n sm" by simp
    with Cons.IH [OF rest, of U] Cons.prems(2,3) False show ?thesis
      by (simp add: x ro received_Cons split: option.splits)
  next
    case True
    let ?U = "insert r U"
    have ch: "chain (?U \<union> received xs n)"
      using Cons.prems(2) True by (simp add: x ro received_Cons Un_insert_right)
    have "case GetNode n sm1 of None \<Rightarrow> ?U = {} | Some l \<Rightarrow> newest ?U l"
    proof (cases "GetNode n sm")
      case None
      with get True Cons.prems(3) show ?thesis
        by (simp add: newest_def view_join)
    next
      case (Some l)
      with Cons.prems(3) have "newest U l" by simp
      moreover have "chain ?U" using ch by (rule chain_mono) auto
      ultimately show ?thesis using get True Some newest_merge by simp
    qed
    from Cons.IH [OF rest ch this] True show ?thesis
      by (simp add: x ro received_Cons split: option.splits)
  qed
qed

end

interpretation reg: entry_register ns_stamp ns_view
  by unfold_locales (fact node_merge_stale node_merge_fresh node_merge_same ns_stamp_view ns_view_join)+

text \<open>
  The other order is lexicographic: of two states with the same clock, which a node can publish
  when it restarts, the one with the later time wins.
\<close>

definition ns_age :: "NodeState \<Rightarrow> (string \<Rightarrow> i64 option) \<times> gotime" where
  "ns_age ns = (ns_stamp ns, ns_LastUpdated ns)"

lemma ns_age_less:
  "ns_age x < ns_age y \<longleftrightarrow> ns_stamp x < ns_stamp y \<or> ns_stamp x = ns_stamp y \<and> ns_LastUpdated x < ns_LastUpdated y"
  by (auto simp: ns_age_def less_prod_def' order.order_iff_strict)

lemma ns_age_le:
  "ns_age x \<le> ns_age y \<longleftrightarrow> ns_stamp x < ns_stamp y \<or> ns_stamp x = ns_stamp y \<and> ns_LastUpdated x \<le> ns_LastUpdated y"
  by (auto simp: ns_age_def less_eq_prod_def order.order_iff_strict)

lemma ns_age_stamp: "ns_age x \<le> ns_age y \<Longrightarrow> ns_stamp x \<le> ns_stamp y"
  by (auto simp: ns_age_le less_imp_le)

lemma node_merge_later:
  "ns_stamp s = ns_stamp y \<Longrightarrow> ns_LastUpdated s < ns_LastUpdated y \<Longrightarrow> ns_view (node_merge s y) = ns_view y"
proof -
  assume eq: "ns_stamp s = ns_stamp y" and "ns_LastUpdated s < ns_LastUpdated y"
  then have "resolveConflict s y = RemoteWins" by (simp add: resolveConflict_order ns_stamp_def)
  with eq ns_fields_merge ns_stamp_merge [of s y] show ?thesis by (simp add: ns_view_def ns_stamp_def)
qed

lemma node_merge_earlier:
  "ns_stamp s = ns_stamp y \<Longrightarrow> ns_LastUpdated y < ns_LastUpdated s \<Longrightarrow> node_merge s y = s"
  by (cases "resolveConflict s y") (auto simp: node_merge_def resolveConflict_order ns_stamp_def)

interpretation ver: entry_register ns_age version
proof unfold_locales
  show "version (node_merge s y) = version y" if "ns_age s < ns_age y" for s y
    using that node_merge_fresh [of s y] node_merge_later [of s y] by (auto simp: ns_age_less intro: version_view)
  show "node_merge s y = s" if "ns_age y < ns_age s" for s y
    using that node_merge_stale [of y s] node_merge_earlier [of s y] by (auto simp: ns_age_less)
  show "ns_age x = ns_age y" if "version x = version y" for x y
    using that version_stamp [of x y] version_fields [of x y] by (simp add: ns_age_def)
  show "version (node_join r) = version r" for r
    using ns_view_join by (rule version_view)
qed (fact node_merge_same_version)

end
