(* ===== verification/StateSteps.thy ===== *)
theory StateSteps
  imports Convergence StorageSpec
begin

text \<open>
  The state manager under concurrent callers. Each method is atomic up to the release of the
  mutex, so an execution is an interleaving of locked sections and of the history writes that
  \<open>MergeNodeState\<close> and \<open>MarkNodeInactive\<close> make after they have released it. A
  configuration holds the manager, the writes still to be made and the database; the step
  relation has one rule per section.
\<close>

section \<open>Delivery of events\<close>

definition deliver :: "NodeChangeEvent \<Rightarrow> NodeChangeEvent chan \<Rightarrow> NodeChangeEvent chan" where
  "deliver e c =
     (if \<not> ch_closed c \<and> length (ch_buf c) < ch_cap c then c\<lparr>ch_buf := ch_buf c @ [e]\<rparr> else c)"

lemma deliver_simps [simp]:
  "ch_closed (deliver e c) = ch_closed c" "ch_cap (deliver e c) = ch_cap c"
  by (simp_all add: deliver_def)

lemma deliver_ok [simp]: "chan_ok c \<Longrightarrow> chan_ok (deliver e c)"
  by (auto simp: deliver_def chan_ok_def)

lemma mget_sendEvent:
  "mget (sendEvent ch e chans) k =
     (if k = ch then map_option (deliver e) (mget chans k) else mget chans k)"
  by (auto simp: sendEvent_def try_send_def deliver_def DAList.lookup_update split: option.splits)

lemma mget_broadcast_loop:
  "distinct (List.map fst es) \<Longrightarrow>
     mget (broadcast_loop es e chans) k =
       (if k \<in> fst ` set es then map_option (deliver e) (mget chans k) else mget chans k)"
proof (induction es arbitrary: chans)
  case Nil
  then show ?case by simp
next
  case (Cons x es)
  obtain ch u where "x = (ch, u)" by (cases x)
  with Cons show ?case by (auto simp: mget_sendEvent image_iff)
qed

lemma mget_broadcast:
  "mget (sm_chans (broadcast e sm)) k =
     (if mget (sm_subscribers sm) k = None then mget (sm_chans sm) k
      else map_option (deliver e) (mget (sm_chans sm) k))"
proof -
  have "k \<in> fst ` set (mentries (sm_subscribers sm)) \<longleftrightarrow> mget (sm_subscribers sm) k \<noteq> None"
    using mkeys_eq_dom [of "sm_subscribers sm"] by (simp add: dom_def set_eq_iff)
  then show ?thesis by (simp add: broadcast_def mget_broadcast_loop)
qed

lemma length_mentries_same_dom: "dom (mget m) = dom (mget m') \<Longrightarrow> length (mentries m) = length (mentries m')"
  by (simp add: length_mentries)

section \<open>The invariant of the manager\<close>

text \<open>
  Channel names are the numbers below the number of channels made; no queue exceeds its 64
  slots; a subscriber's channel exists and is open; a node is stored under its own identifier.
\<close>

definition chans_ok :: "StateManager \<Rightarrow> bool" where
  "chans_ok sm \<longleftrightarrow>
     dom (mget (sm_chans sm)) = {..<length (mentries (sm_chans sm))} \<and>
     (\<forall>ch c. mget (sm_chans sm) ch = Some c \<longrightarrow> chan_ok c \<and> ch_cap c = 64)"

definition subscribers_ok :: "StateManager \<Rightarrow> bool" where
  "subscribers_ok sm \<longleftrightarrow>
     (\<forall>ch. mget (sm_subscribers sm) ch \<noteq> None \<longrightarrow>
        (\<exists>c. mget (sm_chans sm) ch = Some c \<and> \<not> ch_closed c))"

definition nodes_keyed :: "StateManager \<Rightarrow> bool" where
  "nodes_keyed sm \<longleftrightarrow> (\<forall>n ns. GetNode n sm = Some ns \<longrightarrow> ns_NodeID ns = n)"

definition sm_inv :: "StateManager \<Rightarrow> bool" where
  "sm_inv sm \<longleftrightarrow> chans_ok sm \<and> subscribers_ok sm \<and> nodes_keyed sm"

lemma sm_inv_new: "sm_inv (NewStateManager now cn ln)"
  by (simp add: sm_inv_def chans_ok_def subscribers_ok_def nodes_keyed_def NewStateManager_def GetNode_def
      dom_def)

lemma nodes_keyed_cong: "sm_clusterState sm' = sm_clusterState sm \<Longrightarrow> nodes_keyed sm' = nodes_keyed sm"
  by (simp add: nodes_keyed_def GetNode_def)

lemma subscribers_ok_broadcast: "subscribers_ok sm \<Longrightarrow> subscribers_ok (broadcast e sm)"
  by (fastforce simp: subscribers_ok_def mget_broadcast)

lemma chans_okD: "chans_ok sm \<Longrightarrow> mget (sm_chans sm) ch = Some c \<Longrightarrow> chan_ok c \<and> ch_cap c = 64"
  unfolding chans_ok_def by blast

lemma dom_chans_broadcast: "dom (mget (sm_chans (broadcast e sm))) = dom (mget (sm_chans sm))"
  by (auto simp: mget_broadcast dom_def)

lemma mget_broadcast_Some:
  "mget (sm_chans (broadcast e sm)) k = Some c \<Longrightarrow>
     \<exists>c0. mget (sm_chans sm) k = Some c0 \<and> (c = c0 \<or> c = deliver e c0)"
  by (auto simp: mget_broadcast split: if_splits)

lemma chans_ok_broadcast:
  assumes "chans_ok sm"
  shows "chans_ok (broadcast e sm)"
  unfolding chans_ok_def
proof (intro conjI allI impI)
  show "dom (mget (sm_chans (broadcast e sm))) = {..<length (mentries (sm_chans (broadcast e sm)))}"
    using assms
    by (simp only: length_mentries_same_dom [OF dom_chans_broadcast] dom_chans_broadcast chans_ok_def)
next
  fix ch c
  assume "mget (sm_chans (broadcast e sm)) ch = Some c"
  then obtain c0 where c0: "mget (sm_chans sm) ch = Some c0" "c = c0 \<or> c = deliver e c0"
    using mget_broadcast_Some by blast
  from chans_okD [OF assms c0(1)] c0(2) show "chan_ok c" "ch_cap c = 64"
    by auto
qed

lemma sm_inv_broadcast: "sm_inv sm \<Longrightarrow> sm_inv (broadcast e sm)"
  by (simp add: sm_inv_def subscribers_ok_broadcast chans_ok_broadcast
      nodes_keyed_cong [OF broadcast_frame(1)])

lemma sm_inv_put_node:
  assumes "sm_inv sm" and "ns_NodeID ns = n"
  shows "sm_inv (put_node now n ns et sm)"
proof -
  let ?sm = "sm\<lparr>sm_clusterState := (sm_clusterState sm)
     \<lparr>cs_Nodes := mput n ns (cs_Nodes (sm_clusterState sm)), cs_UpdatedAt := now\<rparr>\<rparr>"
  have "chans_ok ?sm" "subscribers_ok ?sm"
    using assms(1) by (simp_all add: sm_inv_def chans_ok_def subscribers_ok_def)
  moreover have "nodes_keyed ?sm"
    using assms by (simp add: sm_inv_def nodes_keyed_def GetNode_def DAList.lookup_update)
  ultimately show ?thesis
    unfolding put_node_def by (intro sm_inv_broadcast) (simp add: sm_inv_def)
qed

lemma sm_inv_UpdateLocalNode: "sm_inv sm \<Longrightarrow> sm_inv (UpdateLocalNode now ns sm)"
  by (simp add: UpdateLocalNode_def sm_inv_put_node)

lemma sm_inv_Merge_locked:
  assumes inv: "sm_inv sm" and step: "Merge_locked now r sm = Inr (changed, ev, sm')"
  shows "sm_inv sm'"
proof (cases "mget (cs_Nodes (sm_clusterState sm)) (ns_NodeID r)")
  case None
  with step inv show ?thesis
    by (auto simp: Merge_locked_def Let_def intro!: sm_inv_put_node)
next
  case (Some l)
  obtain m where m: "Merge (own_clock (ns_Clock r)) (ns_Clock l) = Inr (Some m)"
    using Merge_own_clock by blast
  show ?thesis
    using step inv Some m
    by (cases "resolveConflict l r") (auto simp: Merge_locked_def Let_def intro!: sm_inv_put_node)
qed

lemma sm_inv_Inactive_locked:
  assumes inv: "sm_inv sm" and step: "Inactive_locked now n sm = (ev, sm')"
  shows "sm_inv sm'"
proof (cases "mget (cs_Nodes (sm_clusterState sm)) n")
  case None
  with step inv show ?thesis by (simp add: Inactive_locked_def)
next
  case (Some ns)
  with inv have "ns_NodeID (ns\<lparr>ns_Status := ''inactive''\<rparr>) = n"
    by (simp add: sm_inv_def nodes_keyed_def GetNode_def)
  from sm_inv_put_node [OF inv this] Some step show ?thesis
    by (auto simp: Inactive_locked_def Let_def)
qed

lemma sm_inv_RemoveNode: "sm_inv sm \<Longrightarrow> sm_inv (RemoveNode now n sm)"
proof (cases "mget (cs_Nodes (sm_clusterState sm)) n")
  case (Some ns)
  assume "sm_inv sm"
  then have "sm_inv (sm\<lparr>sm_clusterState := (sm_clusterState sm)
               \<lparr>cs_Nodes := mdel n (cs_Nodes (sm_clusterState sm)), cs_UpdatedAt := now\<rparr>\<rparr>)"
    by (auto simp: sm_inv_def chans_ok_def subscribers_ok_def nodes_keyed_def GetNode_def split: if_splits)
  with Some show ?thesis by (simp add: RemoveNode_def sm_inv_broadcast)
qed (simp add: RemoveNode_def)

lemma fresh_chan: "chans_ok sm \<Longrightarrow> mget (sm_chans sm) (length (mentries (sm_chans sm))) = None"
  by (auto simp: chans_ok_def)

lemma chans_ok_put_fresh:
  assumes "chans_ok sm"
  shows "chans_ok (sm\<lparr>sm_chans := mput (length (mentries (sm_chans sm))) (make_chan 64) (sm_chans sm),
                      sm_subscribers := subs\<rparr>)"
proof -
  let ?n = "length (mentries (sm_chans sm))"
  have d: "dom (mget (mput ?n (make_chan 64) (sm_chans sm))) = insert ?n {..<?n}"
    using assms by (auto simp: chans_ok_def DAList.lookup_update dom_def split: if_splits)
  then have "length (mentries (mput ?n (make_chan 64 :: NodeChangeEvent chan) (sm_chans sm))) = Suc ?n"
    by (simp add: length_mentries [of "mput _ _ _"])
  with d assms show ?thesis
    by (auto simp: chans_ok_def DAList.lookup_update split: if_splits)
qed

lemma sm_inv_Subscribe:
  assumes "sm_inv sm" and "Subscribe sm = (ch, sm')"
  shows "sm_inv sm'"
proof -
  have "subscribers_ok sm'" "nodes_keyed sm'"
    using assms
    by (auto simp: Subscribe_def Let_def sm_inv_def subscribers_ok_def nodes_keyed_def GetNode_def
             DAList.lookup_update split: if_splits)
  moreover have "chans_ok sm'"
    using assms by (auto simp: Subscribe_def Let_def sm_inv_def chans_ok_put_fresh)
  ultimately show ?thesis by (simp add: sm_inv_def)
qed

lemma chans_ok_replace:
  assumes "chans_ok sm" and "mget (sm_chans sm) ch = Some c" and "chan_ok c'" and "ch_cap c' = ch_cap c"
  shows "chans_ok (sm\<lparr>sm_chans := mput ch c' (sm_chans sm)\<rparr>)"
proof -
  have d: "dom (mget (mput ch c' (sm_chans sm))) = dom (mget (sm_chans sm))"
    using assms(2) by (auto simp: DAList.lookup_update dom_def)
  from length_mentries_same_dom [OF d] d assms show ?thesis
    by (auto simp: chans_ok_def DAList.lookup_update)
qed

lemma sm_inv_Unsubscribe:
  assumes inv: "sm_inv sm" and un: "Unsubscribe ch sm = Inr sm'"
  shows "sm_inv sm'"
proof -
  obtain c c' where c: "mget (sm_chans sm) ch = Some c" "close_chan c = Inr c'"
    and sm': "sm' = sm\<lparr>sm_subscribers := mdel ch (sm_subscribers sm), sm_chans := mput ch c' (sm_chans sm)\<rparr>"
    using un by (auto simp: Unsubscribe_def Let_def split: option.splits)
  have "chan_ok c" using inv chans_okD [OF _ c(1)] by (simp add: sm_inv_def)
  then have c': "chan_ok c'" "ch_cap c' = ch_cap c"
    using close_chan_ok [OF c(2)] by simp_all
  have "chans_ok (sm\<lparr>sm_chans := mput ch c' (sm_chans sm)\<rparr>)"
    using chans_ok_replace inv c(1) c' by (auto simp: sm_inv_def)
  then have "chans_ok sm'" by (simp add: chans_ok_def sm')
  moreover have "subscribers_ok sm'" "nodes_keyed sm'"
    using inv by (auto simp: sm' sm_inv_def subscribers_ok_def nodes_keyed_def GetNode_def
                       DAList.lookup_update split: if_splits)
  ultimately show ?thesis by (simp add: sm_inv_def)
qed

lemma sm_inv_Receive:
  assumes inv: "sm_inv sm" and rc: "Receive ch sm = Some (e, sm')"
  shows "sm_inv sm'"
proof -
  obtain c c' where c: "mget (sm_chans sm) ch = Some c" "recv_chan c = Some (e, c')"
    and sm': "sm' = sm\<lparr>sm_chans := mput ch c' (sm_chans sm)\<rparr>"
    using rc by (auto simp: Receive_def split: option.splits)
  have ok: "chan_ok c" using inv chans_okD [OF _ c(1)] by (simp add: sm_inv_def)
  note c' = recv_chan_ok [OF c(2) ok]
  have "chans_ok sm'"
    using chans_ok_replace inv c(1) c' by (auto simp: sm' sm_inv_def)
  moreover have "subscribers_ok sm'" "nodes_keyed sm'"
    using inv c(1) c' by (auto simp: sm' sm_inv_def subscribers_ok_def nodes_keyed_def GetNode_def
                       DAList.lookup_update split: if_splits)
  ultimately show ?thesis by (simp add: sm_inv_def)
qed

lemma sm_inv_SetHistorySyncTime: "sm_inv sm \<Longrightarrow> sm_inv (SetHistorySyncTime t sm)"
  by (simp add: sm_inv_def chans_ok_def subscribers_ok_def nodes_keyed_def SetHistorySyncTime_def GetNode_def)

lemmas sm_inv_intros =
  sm_inv_UpdateLocalNode sm_inv_Merge_locked sm_inv_Inactive_locked sm_inv_RemoveNode
  sm_inv_Subscribe sm_inv_Unsubscribe sm_inv_Receive sm_inv_SetHistorySyncTime

section \<open>Interleavings\<close>

record 'db conf =
  c_sm :: StateManager
  c_pending :: "(NodeState \<times> string) list"
  c_db :: 'db

text \<open>
  The label of a merge and of a departure carries the event it queues, the label of a write
  its outcome.
\<close>

datatype sm_op =
    OpMerge NodeState "(NodeState \<times> string) option"
  | OpInactive string "(NodeState \<times> string) option"
  | OpUpdate NodeState
  | OpRemove string
  | OpSubscribe
  | OpUnsubscribe nat
  | OpReceive nat
  | OpSync gotime
  | OpRecord NodeState string "db_error option"

definition queue_event :: "(NodeState \<times> string) option \<Rightarrow> 'db conf \<Rightarrow> 'db conf" where
  "queue_event ev c = (case ev of None \<Rightarrow> c | Some e \<Rightarrow> c\<lparr>c_pending := c_pending c @ [e]\<rparr>)"

inductive sm_step :: "'db gorm \<Rightarrow> 'db conf \<Rightarrow> sm_op \<Rightarrow> 'db conf \<Rightarrow> bool" for D :: "'db gorm" where
  merge: "Merge_locked now r (c_sm c) = Inr (changed, ev, sm') \<Longrightarrow>
     sm_step D c (OpMerge r ev) (queue_event ev (c\<lparr>c_sm := sm'\<rparr>))"
| inactive: "Inactive_locked now n (c_sm c) = (ev, sm') \<Longrightarrow>
     sm_step D c (OpInactive n ev) (queue_event ev (c\<lparr>c_sm := sm'\<rparr>))"
| update: "sm_step D c (OpUpdate ns) (c\<lparr>c_sm := UpdateLocalNode now ns (c_sm c)\<rparr>)"
| remove: "sm_step D c (OpRemove n) (c\<lparr>c_sm := RemoveNode now n (c_sm c)\<rparr>)"
| subscribe: "Subscribe (c_sm c) = (ch, sm') \<Longrightarrow> sm_step D c OpSubscribe (c\<lparr>c_sm := sm'\<rparr>)"
| unsubscribe: "Unsubscribe ch (c_sm c) = Inr sm' \<Longrightarrow> sm_step D c (OpUnsubscribe ch) (c\<lparr>c_sm := sm'\<rparr>)"
| receive: "Receive ch (c_sm c) = Some (e, sm') \<Longrightarrow> sm_step D c (OpReceive ch) (c\<lparr>c_sm := sm'\<rparr>)"
| sync: "sm_step D c (OpSync t) (c\<lparr>c_sm := SetHistorySyncTime t (c_sm c)\<rparr>)"
| flush: "c_pending c = ps @ (ns, et) # qs \<Longrightarrow>
     SaveHistoryRecord D (event_record ns et ''gossip'') (c_db c) = (res, d') \<Longrightarrow>
     sm_step D c (OpRecord ns et res) (c\<lparr>c_pending := ps @ qs, c_db := d'\<rparr>)"

inductive_cases sm_step_mergeE: "sm_step D c (OpMerge r ev) c'"
inductive_cases sm_step_recordE: "sm_step D c (OpRecord ns et res) c'"

inductive sm_run :: "'db gorm \<Rightarrow> 'db conf \<Rightarrow> sm_op list \<Rightarrow> 'db conf \<Rightarrow> bool" for D :: "'db gorm" where
  none: "sm_run D c [] c"
| step: "sm_step D c op c1 \<Longrightarrow> sm_run D c1 ops c' \<Longrightarrow> sm_run D c (op # ops) c'"

inductive_simps sm_run_Nil [simp]: "sm_run D c [] c'"
inductive_simps sm_run_Cons: "sm_run D c (op # ops) c'"

lemma queue_event_sm [simp]: "c_sm (queue_event ev c) = c_sm c" "c_db (queue_event ev c) = c_db c"
  by (simp_all add: queue_event_def split: option.splits)

lemma sm_step_inv: "sm_step D c op c' \<Longrightarrow> sm_inv (c_sm c) \<Longrightarrow> sm_inv (c_sm c')"
  by (induction rule: sm_step.induct) (auto intro: sm_inv_intros)

lemma sm_run_inv: "sm_run D c ops c' \<Longrightarrow> sm_inv (c_sm c) \<Longrightarrow> sm_inv (c_sm c')"
  by (induction rule: sm_run.induct) (auto intro: sm_step_inv)

section \<open>The history and the writes still to be made\<close>

definition event_key :: "NodeState \<times> string \<Rightarrow> string \<times> gotime \<times> string" where
  "event_key e = hr_key (stored_history (event_record (fst e) (snd e) ''gossip''))"

fun op_event :: "sm_op \<Rightarrow> (NodeState \<times> string) option" where
  "op_event (OpMerge _ ev) = ev"
| "op_event (OpInactive _ ev) = ev"
| "op_event _ = None"

fun op_failed :: "sm_op \<Rightarrow> bool" where
  "op_failed (OpRecord _ _ (Some _)) = True"
| "op_failed _ = False"

lemma pending_queue_event: "set (c_pending (queue_event ev c)) = set (c_pending c) \<union> set_option ev"
  by (auto simp: queue_event_def split: option.splits)

lemma step_history:
  assumes store: "history_store (SaveHistoryRecord D) usable keys"
    and "sm_step D c op c'" and "usable (c_db c)" and "\<not> op_failed op"
  shows "usable (c_db c') \<and>
    keys (c_db c') \<union> event_key ` set (c_pending c') =
      keys (c_db c) \<union> event_key ` set (c_pending c) \<union> event_key ` set_option (op_event op)"
  using assms(2-)
proof (cases rule: sm_step.cases)
  case (flush ps ns et qs res d')
  then have ok: "SaveHistoryRecord D (event_record ns et ''gossip'') (c_db c) = (None, d')"
    using assms(4) by (cases res) auto
  have "hr_ID (event_record ns et ''gossip'') = 0"
    by (simp add: event_record_def)
  from history_store.save_new [OF store assms(3) this ok] history_store.save_usable [OF store assms(3) ok] flush
  show ?thesis by (auto simp: event_key_def)
qed (simp_all add: pending_queue_event image_Un Un_assoc)

lemma run_history:
  assumes "history_store (SaveHistoryRecord D) usable keys"
    and "sm_run D c ops c'" and "usable (c_db c)" and "\<not> list_ex op_failed ops"
  shows "usable (c_db c') \<and>
    keys (c_db c') \<union> event_key ` set (c_pending c') =
      keys (c_db c) \<union> event_key ` set (c_pending c) \<union>
      event_key ` (\<Union>op \<in> set ops. set_option (op_event op))"
  using assms(2-)
proof (induction rule: sm_run.induct)
  case (none c)
  then show ?case by simp
next
  case (step c op c1 ops c')
  from step.prems have "\<not> op_failed op" "\<not> list_ex op_failed ops" by simp_all
  with step_history [OF assms(1) step.hyps(1) step.prems(1)] step.IH show ?case
    by (simp add: image_Un Un_assoc)
qed

end
