(* ===== verification/HubProps.thy ===== *)
theory HubProps
  imports Hub StateSteps "HOL-Library.Sublist"
begin

text \<open>
  Properties of the WebSocket hub: it implements an abstract hub without channels, no order of
  its steps closes a channel twice or sends on a closed one, a client receives an unbroken
  sequence of the messages, and a pump whose channel is closed ends.
\<close>

section \<open>The abstract hub\<close>

text \<open>
  A client is connected or dropped, with the messages it has not taken yet. A connected client
  gets every message until 256 of them are waiting; then it is dropped.
\<close>

datatype ws_client = Connected "string list" | Dropped "string list"

type_synonym ws_spec = "nat \<Rightarrow> ws_client option"

definition spec_register :: "nat \<Rightarrow> ws_spec \<Rightarrow> ws_spec" where
  "spec_register c s = s(c \<mapsto> Connected [])"

definition spec_unregister :: "nat \<Rightarrow> ws_spec \<Rightarrow> ws_spec" where
  "spec_unregister c s = (case s c of Some (Connected q) \<Rightarrow> s(c \<mapsto> Dropped q) | _ \<Rightarrow> s)"

fun spec_offer :: "string \<Rightarrow> ws_client \<Rightarrow> ws_client" where
  "spec_offer m (Connected q) = (if length q < 256 then Connected (q @ [m]) else Dropped q)"
| "spec_offer m (Dropped q) = Dropped q"

definition spec_message :: "string \<Rightarrow> ws_spec \<Rightarrow> ws_spec" where
  "spec_message m s c = map_option (spec_offer m) (s c)"

fun spec_take :: "ws_client \<Rightarrow> ws_client" where
  "spec_take (Connected q) = Connected (tl q)"
| "spec_take (Dropped q) = Dropped (tl q)"

definition spec_read :: "nat \<Rightarrow> ws_spec \<Rightarrow> ws_spec" where
  "spec_read c s = s(c := map_option spec_take (s c))"

section \<open>Abstraction and invariant\<close>

definition hub_abs :: "wsHub \<Rightarrow> ws_spec" where
  "hub_abs h c =
     (case mget (hb_heap h) c of
        None \<Rightarrow> None
      | Some cl \<Rightarrow>
          if mget (hb_clients h) c \<noteq> None then Some (Connected (ch_buf (wc_send cl)))
          else if ch_closed (wc_send cl) then Some (Dropped (ch_buf (wc_send cl)))
          else None)"

text \<open>
  A registered client has an open channel of 256 places; a waiting one an open, empty channel
  and no pumps yet; every other one a closed channel.
\<close>

definition cell_ok :: "wsHub \<Rightarrow> nat \<Rightarrow> wsClient \<Rightarrow> bool" where
  "cell_ok h c cl \<longleftrightarrow>
     chan_ok (wc_send cl) \<and> ch_cap (wc_send cl) = 256 \<and>
     (ch_closed (wc_send cl) \<longleftrightarrow> mget (hb_clients h) c = None \<and> c \<notin> set (hb_registering h)) \<and>
     (c \<in> set (hb_registering h) \<longrightarrow>
        mget (hb_clients h) c = None \<and> ch_buf (wc_send cl) = [] \<and> wc_frames cl = [] \<and> wc_open cl \<and> \<not> wc_pumping cl)"

definition hub_inv :: "wsHub \<Rightarrow> bool" where
  "hub_inv h \<longleftrightarrow>
     (\<forall>c cl. mget (hb_heap h) c = Some cl \<longrightarrow> cell_ok h c cl) \<and>
     (\<forall>c. mget (hb_clients h) c \<noteq> None \<longrightarrow> mget (hb_heap h) c \<noteq> None) \<and>
     (\<forall>c \<in> set (hb_registering h). mget (hb_heap h) c \<noteq> None) \<and> distinct (hb_registering h) \<and>
     (\<forall>c. mget (hb_heap h) c \<noteq> None \<longleftrightarrow> c < length (mentries (hb_heap h)))"

lemma hub_invD:
  assumes "hub_inv h"
  shows "mget (hb_heap h) c = Some cl \<Longrightarrow> cell_ok h c cl"
    and "mget (hb_clients h) c = Some b \<Longrightarrow> \<exists>cl. mget (hb_heap h) c = Some cl"
    and "c \<in> set (hb_registering h) \<Longrightarrow> \<exists>cl. mget (hb_heap h) c = Some cl"
    and "distinct (hb_registering h)"
    and "mget (hb_heap h) c \<noteq> None \<longleftrightarrow> c < length (mentries (hb_heap h))"
  using assms unfolding hub_inv_def by blast+

lemma hub_inv_new: "hub_inv (newWSHub os)"
  by (simp add: hub_inv_def newWSHub_def)

lemma hub_abs_new: "hub_abs (newWSHub os) = Map.empty"
  by (simp add: hub_abs_def newWSHub_def fun_eq_iff)

lemma size_put: "length (mentries (mput k v m)) =
    (if mget m k = None then Suc (length (mentries m)) else length (mentries m))"
proof -
  have "dom (mget (mput k v m)) = insert k (dom (mget m))"
    by (auto simp: DAList.lookup_update split: if_splits)
  then have "length (mentries (mput k v m)) = card (insert k (dom (mget m)))" by (simp add: length_mentries)
  also have "\<dots> = (if k \<in> dom (mget m) then card (dom (mget m)) else Suc (card (dom (mget m))))"
    by (simp add: card_insert_if)
  finally show ?thesis unfolding length_mentries by (cases "mget m k") auto
qed

text \<open>How a step that keeps the addresses keeps the invariant.\<close>

lemma hub_inv_step:
  assumes "hub_inv h" and "\<And>c. mget (hb_heap h') c = None \<longleftrightarrow> mget (hb_heap h) c = None"
    and "\<And>c. mget (hb_clients h') c \<noteq> None \<Longrightarrow> mget (hb_heap h) c \<noteq> None"
    and "set (hb_registering h') \<subseteq> set (hb_registering h)" and "distinct (hb_registering h')"
    and "\<And>c cl. mget (hb_heap h') c = Some cl \<Longrightarrow> cell_ok h' c cl"
  shows "hub_inv h'"
proof -
  have "dom (mget (hb_heap h')) = dom (mget (hb_heap h))" using assms(2) by (auto simp: dom_def set_eq_iff)
  then have len: "length (mentries (hb_heap h')) = length (mentries (hb_heap h))"
    by (simp add: length_mentries)
  have "\<forall>c. mget (hb_heap h') c \<noteq> None \<longleftrightarrow> c < length (mentries (hb_heap h'))"
    unfolding len assms(2) using assms(1) unfolding hub_inv_def by blast
  moreover have "\<forall>c \<in> set (hb_registering h'). mget (hb_heap h') c \<noteq> None"
    unfolding assms(2) using assms(1,4) unfolding hub_inv_def by blast
  ultimately show ?thesis
    using assms(2,3,5,6) unfolding hub_inv_def by blast
qed

section \<open>Each step implements the abstract one\<close>

lemma connect_refines:
  assumes "hub_inv h" and "ws_connect h = (c, h')"
  shows "hub_inv h' \<and> hub_abs h' = hub_abs h \<and> c \<in> set (hb_registering h') \<and> mget (hb_heap h) c = None"
proof -
  have c: "c = length (mentries (hb_heap h))" using assms(2) by (simp add: ws_connect_def Let_def)
  then have new: "mget (hb_heap h) c = None" using hub_invD(5) [OF assms(1), of c] by simp
  then have fresh: "mget (hb_clients h) c = None" "c \<notin> set (hb_registering h)"
    using hub_invD(2,3) [OF assms(1), of c] by (cases "mget (hb_clients h) c"; auto)+
  define cl where "cl = \<lparr>wc_send = make_chan 256, wc_frames = [], wc_open = True, wc_pumping = False\<rparr>"
  have h': "h' = h\<lparr>hb_heap := mput c cl (hb_heap h), hb_registering := hb_registering h @ [c]\<rparr>"
    using assms(2) by (auto simp: ws_connect_def Let_def cl_def)
  have "cell_ok h' k x" if "mget (hb_heap h') k = Some x" for k x
  proof (cases "k = c")
    case True
    with that have "x = cl" by (simp add: h')
    with True fresh show ?thesis by (simp add: h' cell_ok_def cl_def)
  next
    case False
    with that hub_invD(1) [OF assms(1), of k x] show ?thesis
      by (simp add: h' DAList.lookup_update cell_ok_def)
  qed
  moreover have "mget (hb_heap h') k \<noteq> None \<longleftrightarrow> k < length (mentries (hb_heap h'))" for k
    using hub_invD(5) [OF assms(1), of k] new c by (auto simp: h' DAList.lookup_update size_put less_Suc_eq)
  moreover have "\<forall>k \<in> set (hb_registering h'). mget (hb_heap h') k \<noteq> None"
    using hub_invD(3) [OF assms(1)] by (auto simp: h' DAList.lookup_update)
  moreover have "mget (hb_heap h') k \<noteq> None" if "mget (hb_clients h') k \<noteq> None" for k
    using hub_invD(2) [OF assms(1), of k] that by (auto simp: h' DAList.lookup_update)
  ultimately have "hub_inv h'"
    using hub_invD(4) [OF assms(1)] fresh(2) unfolding hub_inv_def by (simp add: h')
  moreover have "hub_abs h' = hub_abs h"
  proof
    show "hub_abs h' k = hub_abs h k" for k
      using new fresh by (cases "k = c") (simp_all add: hub_abs_def h' cl_def split: option.split)
  qed
  ultimately show ?thesis using new h' by simp
qed

lemma register_refines:
  assumes "hub_inv h" and c: "c \<in> set (hb_registering h)"
  shows "hub_inv (hub_register c h) \<and> hub_abs (hub_register c h) = spec_register c (hub_abs h)"
proof -
  obtain cl where cl: "mget (hb_heap h) c = Some cl" using hub_invD(3) [OF assms] by blast
  note ok = hub_invD(1) [OF assms(1) cl]
  have reg: "hub_register c h = h\<lparr>hb_clients := mput c True (hb_clients h),
      hb_registering := remove1 c (hb_registering h), hb_heap := mput c (cl\<lparr>wc_pumping := True\<rparr>) (hb_heap h)\<rparr>"
    by (simp add: hub_register_def cl)
  have rem: "set (remove1 c (hb_registering h)) = set (hb_registering h) - {c}"
    using hub_invD(4) [OF assms(1)] by simp
  have ok': "cell_ok (hub_register c h) k x" if "mget (hb_heap (hub_register c h)) k = Some x" for k x
  proof (cases "k = c")
    case True
    with that ok c show ?thesis by (auto simp: reg cell_ok_def DAList.lookup_update rem)
  next
    case False
    with that hub_invD(1) [OF assms(1), of k x] show ?thesis
      by (auto simp: reg cell_ok_def DAList.lookup_update rem)
  qed
  have "hub_inv (hub_register c h)"
  proof (rule hub_inv_step [OF assms(1) _ _ _ _ ok'])
    show "mget (hb_heap (hub_register c h)) k = None \<longleftrightarrow> mget (hb_heap h) k = None" for k
      using cl by (cases "k = c") (simp_all add: reg)
    show "mget (hb_heap h) k \<noteq> None" if "mget (hb_clients (hub_register c h)) k \<noteq> None" for k
      using that cl hub_invD(2) [OF assms(1), of k] by (cases "k = c") (auto simp: reg DAList.lookup_update)
    show "set (hb_registering (hub_register c h)) \<subseteq> set (hb_registering h)" by (auto simp: reg rem)
    show "distinct (hb_registering (hub_register c h))"
      using hub_invD(4) [OF assms(1)] by (simp add: reg)
  qed
  moreover have "hub_abs (hub_register c h) k = spec_register c (hub_abs h) k" for k
    using cl ok c by (cases "k = c") (simp_all add: hub_abs_def reg spec_register_def cell_ok_def split: option.split)
  ultimately show ?thesis by (simp add: fun_eq_iff)
qed

lemma close_send_ok:
  assumes "mget heap c = Some cl" and "\<not> ch_closed (wc_send cl)"
  shows "close_send c heap = Inr (mput c (cl\<lparr>wc_send := (wc_send cl)\<lparr>ch_closed := True\<rparr>\<rparr>) heap)"
  using assms by (simp add: close_send_def close_chan_def)

lemma unregister_refines:
  assumes "hub_inv h"
  shows "\<exists>h'. hub_unregister c h = Inr h' \<and> hub_inv h' \<and> hub_abs h' = spec_unregister c (hub_abs h) \<and>
    hb_broadcast h' = hb_broadcast h \<and> hb_stopped h' = hb_stopped h"
proof (cases "mget (hb_clients h) c")
  case None
  then show ?thesis
    using assms by (auto simp: hub_unregister_def spec_unregister_def hub_abs_def split: option.splits)
next
  case (Some b)
  obtain cl where cl: "mget (hb_heap h) c = Some cl" using hub_invD(2) [OF assms Some] by blast
  note ok = hub_invD(1) [OF assms cl]
  let ?h = "h\<lparr>hb_clients := mdel c (hb_clients h),
    hb_heap := mput c (cl\<lparr>wc_send := (wc_send cl)\<lparr>ch_closed := True\<rparr>\<rparr>) (hb_heap h)\<rparr>"
  have run: "hub_unregister c h = Inr ?h"
    using close_send_ok [OF cl] ok Some by (simp add: hub_unregister_def cell_ok_def)
  have ok': "cell_ok ?h k x" if "mget (hb_heap ?h) k = Some x" for k x
  proof (cases "k = c")
    case True
    with that ok Some show ?thesis
      by (auto simp: cell_ok_def chan_ok_def DAList.lookup_update DAList.lookup_delete)
  next
    case False
    with that hub_invD(1) [OF assms, of k x] show ?thesis
      by (auto simp: cell_ok_def DAList.lookup_update DAList.lookup_delete)
  qed
  have "hub_inv ?h"
  proof (rule hub_inv_step [OF assms _ _ _ _ ok'])
    show "mget (hb_heap ?h) k = None \<longleftrightarrow> mget (hb_heap h) k = None" for k
      using cl by (cases "k = c") simp_all
    show "mget (hb_heap h) k \<noteq> None" if "mget (hb_clients ?h) k \<noteq> None" for k
      using that hub_invD(2) [OF assms, of k] by (cases "k = c") (auto simp: DAList.lookup_delete)
    show "set (hb_registering ?h) \<subseteq> set (hb_registering h)" "distinct (hb_registering ?h)"
      using hub_invD(4) [OF assms] by simp_all
  qed
  moreover have "hub_abs ?h k = spec_unregister c (hub_abs h) k" for k
    using cl Some by (cases "k = c") (simp_all add: hub_abs_def spec_unregister_def split: option.split)
  then have "hub_abs ?h = spec_unregister c (hub_abs h)" by (rule ext)
  ultimately show ?thesis using run by auto
qed

text \<open>What one message does to the cell of a client.\<close>

definition offer_cell :: "string \<Rightarrow> wsClient \<Rightarrow> wsClient" where
  "offer_cell m cl = cl\<lparr>wc_send :=
     (if length (ch_buf (wc_send cl)) < ch_cap (wc_send cl)
      then (wc_send cl)\<lparr>ch_buf := ch_buf (wc_send cl) @ [m]\<rparr>
      else (wc_send cl)\<lparr>ch_closed := True\<rparr>)\<rparr>"

definition has_room :: "ws_heap \<Rightarrow> nat \<Rightarrow> bool" where
  "has_room heap c = (case mget heap c of None \<Rightarrow> False
     | Some cl \<Rightarrow> length (ch_buf (wc_send cl)) < ch_cap (wc_send cl))"

definition open_cell :: "ws_heap \<Rightarrow> nat \<Rightarrow> bool" where
  "open_cell heap c = (case mget heap c of None \<Rightarrow> False | Some cl \<Rightarrow> \<not> ch_closed (wc_send cl))"

lemma send_cell:
  assumes "mget heap c = Some cl" and "\<not> ch_closed (wc_send cl)"
  shows "hub_send_loop ((c, b) # cs) m (heap, stale) =
    hub_send_loop cs m (mput c (offer_cell m cl) heap, if has_room heap c then stale else stale @ [c])"
  using assms close_send_ok [OF assms] by (simp add: send_chan_def offer_cell_def has_room_def)

lemma send_loop_ok:
  assumes "distinct (List.map fst cs)" and "\<forall>c \<in> fst ` set cs. open_cell heap c"
  shows "\<exists>heap' stale'. hub_send_loop cs m (heap, stale) = Inr (heap', stale @ stale') \<and>
     set stale' = {c \<in> fst ` set cs. \<not> has_room heap c} \<and>
     (\<forall>k. mget heap' k = (if k \<in> fst ` set cs then map_option (offer_cell m) (mget heap k) else mget heap k))"
  using assms
proof (induction cs arbitrary: heap stale)
  case Nil
  then show ?case by simp
next
  case (Cons x cs)
  obtain c b where x: "x = (c, b)" by (cases x)
  obtain cl where cl: "mget heap c = Some cl" "\<not> ch_closed (wc_send cl)"
    using Cons.prems(2) by (auto simp: x open_cell_def split: option.splits)
  let ?heap = "mput c (offer_cell m cl) heap" and ?stale = "if has_room heap c then stale else stale @ [c]"
  have c: "c \<notin> fst ` set cs" using Cons.prems(1) by (simp add: x)
  have other: "has_room ?heap k = has_room heap k" "open_cell ?heap k = open_cell heap k" if "k \<in> fst ` set cs" for k
    using that c by (cases "k = c"; auto simp: has_room_def open_cell_def)+
  have pre: "distinct (List.map fst cs)" "\<forall>k \<in> fst ` set cs. open_cell ?heap k"
    using Cons.prems other(2) by (simp_all add: x)
  obtain heap' stale' where r: "hub_send_loop cs m (?heap, ?stale) = Inr (heap', ?stale @ stale')"
    "set stale' = {k \<in> fst ` set cs. \<not> has_room ?heap k}"
    "\<forall>k. mget heap' k = (if k \<in> fst ` set cs then map_option (offer_cell m) (mget ?heap k) else mget ?heap k)"
    using Cons.IH [OF pre, of ?stale] by blast
  have "hub_send_loop (x # cs) m (heap, stale) = Inr (heap', stale @ ((if has_room heap c then [] else [c]) @ stale'))"
    using send_cell [OF cl, of b cs m stale] r(1) by (simp add: x)
  moreover have "set ((if has_room heap c then [] else [c]) @ stale') = {k \<in> fst ` set (x # cs). \<not> has_room heap k}"
    using r(2) other(1) by (auto simp: x)
  moreover have "mget heap' k = (if k \<in> fst ` set (x # cs) then map_option (offer_cell m) (mget heap k) else mget heap k)" for k
    using r(3) c cl(1) by (cases "k = c") (auto simp: x)
  ultimately show ?case by blast
qed

lemma mget_fold_mdel: "mget (fold mdel ks m) k = (if k \<in> set ks then None else mget m k)"
  by (induction ks arbitrary: m) auto

lemma message_effect:
  assumes "hub_inv h"
  obtains h' where "hub_message m h = Inr h'"
    "\<And>k. mget (hb_heap h') k =
       (if mget (hb_clients h) k = None then mget (hb_heap h) k else map_option (offer_cell m) (mget (hb_heap h) k))"
    "\<And>k. mget (hb_clients h') k = (if has_room (hb_heap h) k then mget (hb_clients h) k else None)"
    "hb_registering h' = hb_registering h" "hb_broadcast h' = hb_broadcast h" "hb_stopped h' = hb_stopped h"
proof -
  have key: "k \<in> fst ` set (mentries (hb_clients h)) \<longleftrightarrow> mget (hb_clients h) k \<noteq> None" for k
    using mkeys_eq_dom [of "hb_clients h"] by (auto simp: dom_def)
  have op: "\<forall>c \<in> fst ` set (mentries (hb_clients h)). open_cell (hb_heap h) c"
  proof
    fix c assume "c \<in> fst ` set (mentries (hb_clients h))"
    then obtain b where b: "mget (hb_clients h) c = Some b" using key by blast
    then obtain cl where cl: "mget (hb_heap h) c = Some cl" using hub_invD(2) [OF assms] by blast
    from hub_invD(1) [OF assms cl] b cl show "open_cell (hb_heap h) c"
      by (simp add: open_cell_def cell_ok_def)
  qed
  obtain heap' stale' where r: "hub_send_loop (mentries (hb_clients h)) m (hb_heap h, []) = Inr (heap', [] @ stale')"
    "set stale' = {c \<in> fst ` set (mentries (hb_clients h)). \<not> has_room (hb_heap h) c}"
    "\<forall>k. mget heap' k = (if k \<in> fst ` set (mentries (hb_clients h)) then map_option (offer_cell m) (mget (hb_heap h) k)
       else mget (hb_heap h) k)"
    using send_loop_ok [OF DAList.impl_of_distinct op, of m "[]"] by blast
  let ?h = "h\<lparr>hb_heap := heap', hb_clients := fold mdel stale' (hb_clients h)\<rparr>"
  show thesis
  proof (rule that [of ?h])
    show "hub_message m h = Inr ?h" using r(1) by (simp add: hub_message_def)
    show "mget (hb_heap ?h) k = (if mget (hb_clients h) k = None then mget (hb_heap h) k
        else map_option (offer_cell m) (mget (hb_heap h) k))" for k
      using r(3) key [of k] by (simp del: mem_mentries)
    show "mget (hb_clients ?h) k = (if has_room (hb_heap h) k then mget (hb_clients h) k else None)" for k
      using r(2) key [of k] by (auto simp: mget_fold_mdel simp del: mem_mentries)
  qed simp_all
qed

lemma has_room_Some: "mget heap c = Some cl \<Longrightarrow> has_room heap c = (length (ch_buf (wc_send cl)) < ch_cap (wc_send cl))"
  by (simp add: has_room_def)

lemma offer_cell_simps [simp]:
  "wc_frames (offer_cell m cl) = wc_frames cl" "wc_open (offer_cell m cl) = wc_open cl"
  "wc_pumping (offer_cell m cl) = wc_pumping cl" "ch_cap (wc_send (offer_cell m cl)) = ch_cap (wc_send cl)"
  by (simp_all add: offer_cell_def)

lemma message_refines:
  assumes "hub_inv h"
  shows "\<exists>h'. hub_message m h = Inr h' \<and> hub_inv h' \<and> hub_abs h' = spec_message m (hub_abs h) \<and>
    hb_broadcast h' = hb_broadcast h \<and> hb_stopped h' = hb_stopped h"
proof -
  obtain h' where h': "hub_message m h = Inr h'"
    "\<And>k. mget (hb_heap h') k =
       (if mget (hb_clients h) k = None then mget (hb_heap h) k else map_option (offer_cell m) (mget (hb_heap h) k))"
    "\<And>k. mget (hb_clients h') k = (if has_room (hb_heap h) k then mget (hb_clients h) k else None)"
    "hb_registering h' = hb_registering h" "hb_broadcast h' = hb_broadcast h" "hb_stopped h' = hb_stopped h"
    by (rule message_effect [OF assms, of m]) blast
  have cell: "cell_ok h' k x \<and> hub_abs h' k = spec_message m (hub_abs h) k" if x: "mget (hb_heap h') k = Some x" for k x
  proof (cases "mget (hb_clients h) k")
    case None
    then have "mget (hb_heap h) k = Some x" using h'(2) [of k] x by simp
    with None hub_invD(1) [OF assms this] x show ?thesis
      by (simp add: cell_ok_def h'(3,4) hub_abs_def spec_message_def)
  next
    case (Some b)
    then obtain cl where cl: "mget (hb_heap h) k = Some cl" "x = offer_cell m cl"
      using h'(2) [of k] x by (cases "mget (hb_heap h) k") auto
    from hub_invD(1) [OF assms cl(1)] Some
    have ok: "chan_ok (wc_send cl)" "ch_cap (wc_send cl) = 256" "\<not> ch_closed (wc_send cl)" "k \<notin> set (hb_registering h)"
      by (auto simp: cell_ok_def)
    show ?thesis
    proof (cases "length (ch_buf (wc_send cl)) < 256")
      case True
      with ok Some cl x show ?thesis
        by (simp add: cell_ok_def h'(3,4) has_room_Some [OF cl(1)] offer_cell_def chan_ok_def hub_abs_def spec_message_def)
    next
      case False
      with ok Some cl x show ?thesis
        by (simp add: cell_ok_def h'(3,4) has_room_Some [OF cl(1)] offer_cell_def chan_ok_def hub_abs_def spec_message_def)
    qed
  qed
  have same: "mget (hb_heap h') k = None \<longleftrightarrow> mget (hb_heap h) k = None" for k
    by (simp add: h'(2))
  have "hub_inv h'"
  proof (rule hub_inv_step [OF assms same])
    show "mget (hb_heap h) k \<noteq> None" if "mget (hb_clients h') k \<noteq> None" for k
      using that by (auto simp: h'(3) has_room_def split: if_splits option.splits)
    show "set (hb_registering h') \<subseteq> set (hb_registering h)" "distinct (hb_registering h')"
      using hub_invD(4) [OF assms] by (simp_all add: h'(4))
  qed (use cell in blast)
  moreover have "hub_abs h' k = spec_message m (hub_abs h) k" for k
    using cell [of k] same [of k]
    by (cases "mget (hb_heap h') k") (auto simp: hub_abs_def spec_message_def)
  ultimately show ?thesis using h'(1,5,6) by blast
qed

section \<open>The pumps\<close>

lemma write_frame_cell:
  "write_frame ok f cl = Some cl' \<Longrightarrow> wc_send cl' = wc_send cl \<and> wc_pumping cl' = wc_pumping cl"
  by (auto simp: write_frame_def split: if_splits)

lemma pump_return_cell [simp]:
  "wc_send (pump_return cl) = wc_send cl" "\<not> wc_pumping (pump_return cl)" "\<not> wc_open (pump_return cl)"
  "wc_frames (pump_return cl) = wc_frames cl"
  by (simp_all add: pump_return_def)

lemma pump_send_cases:
  assumes "pump_step (WakeSend ok) cl = Some cl'"
  obtains (message) m ms cl1 where "ch_buf (wc_send cl) = m # ms" "cl1 = cl\<lparr>wc_send := (wc_send cl)\<lparr>ch_buf := ms\<rparr>\<rparr>"
      "cl' = (case write_frame ok (TextFrame m) cl1 of Some cl2 \<Rightarrow> cl2 | None \<Rightarrow> pump_return cl1)"
    | (closed) "ch_buf (wc_send cl) = []" "ch_closed (wc_send cl)"
      "cl' = pump_return (case write_frame ok CloseFrame cl of Some cl2 \<Rightarrow> cl2 | None \<Rightarrow> cl)"
  using assms that by (auto simp: recv_chan_def Let_def split: list.splits option.splits if_splits)

lemma pump_step_send:
  "pump_step (WakeSend ok) cl = Some cl' \<Longrightarrow>
     wc_send cl' = (wc_send cl)\<lparr>ch_buf := tl (ch_buf (wc_send cl))\<rparr>"
  by (erule pump_send_cases) (auto dest: write_frame_cell split: option.splits)

lemma pump_step_tick:
  "\<exists>cl'. pump_step (WakeTick ok) cl = Some cl' \<and> wc_send cl' = wc_send cl"
  by (auto dest: write_frame_cell split: option.splits)

lemma pump_step_none: "pump_step (WakeSend ok) cl = None \<Longrightarrow> ch_buf (wc_send cl) = [] \<and> \<not> ch_closed (wc_send cl)"
  by (auto simp: recv_chan_def Let_def split: list.splits option.splits if_splits)

lemma writePump_cell:
  "wc_send (writePump [w] cl) =
     (if wc_pumping cl \<and> (\<exists>ok. w = WakeSend ok)
      then (wc_send cl)\<lparr>ch_buf := tl (ch_buf (wc_send cl))\<rparr> else wc_send cl)"
proof (cases w)
  case (WakeSend ok)
  then show ?thesis
    using pump_step_send [of ok cl] pump_step_none [of ok cl]
    by (cases "pump_step (WakeSend ok) cl") (auto simp del: pump_step.simps)
next
  case (WakeTick ok)
  obtain cl' where "pump_step (WakeTick ok) cl = Some cl'" "wc_send cl' = wc_send cl"
    using pump_step_tick by blast
  with WakeTick show ?thesis by (simp del: pump_step.simps)
qed

lemma hub_inv_cell:
  assumes "hub_inv h" and "mget (hb_heap h) c = Some cl" and "cell_ok h c cl'"
  shows "hub_inv (h\<lparr>hb_heap := mput c cl' (hb_heap h)\<rparr>)"
proof (rule hub_inv_step [OF assms(1)])
  show "mget (hb_heap (h\<lparr>hb_heap := mput c cl' (hb_heap h)\<rparr>)) k = None \<longleftrightarrow> mget (hb_heap h) k = None" for k
    using assms(2) by (cases "k = c") simp_all
  show "mget (hb_heap h) k \<noteq> None" if "mget (hb_clients (h\<lparr>hb_heap := mput c cl' (hb_heap h)\<rparr>)) k \<noteq> None" for k
    using that hub_invD(2) [OF assms(1), of k] by auto
  show "cell_ok (h\<lparr>hb_heap := mput c cl' (hb_heap h)\<rparr>) k x"
    if "mget (hb_heap (h\<lparr>hb_heap := mput c cl' (hb_heap h)\<rparr>)) k = Some x" for k x
    using that hub_invD(1) [OF assms(1), of k x] assms(3) by (cases "k = c") (simp_all add: cell_ok_def)
qed (use hub_invD(4) [OF assms(1)] in simp_all)

lemma pump_refines:
  assumes "hub_inv h"
  shows "hub_inv (hub_pump c w h)"
    and "hub_abs (hub_pump c w h) = hub_abs h \<or> hub_abs (hub_pump c w h) = spec_read c (hub_abs h)"
proof -
  have "hub_inv (hub_pump c w h) \<and>
    (hub_abs (hub_pump c w h) = hub_abs h \<or> hub_abs (hub_pump c w h) = spec_read c (hub_abs h))"
  proof (cases "mget (hb_heap h) c")
    case None
    then show ?thesis using assms by (simp add: hub_pump_def)
  next
    case (Some cl)
    let ?cl = "writePump [w] cl"
    have h': "hub_pump c w h = h\<lparr>hb_heap := mput c ?cl (hb_heap h)\<rparr>" by (simp add: hub_pump_def Some)
    note ok = hub_invD(1) [OF assms Some]
    have send: "wc_send ?cl = wc_send cl \<or> wc_send ?cl = (wc_send cl)\<lparr>ch_buf := tl (ch_buf (wc_send cl))\<rparr>"
      unfolding writePump_cell by simp
    have "cell_ok h c ?cl"
    proof (cases "wc_pumping cl")
      case True
      with ok send show ?thesis by (auto simp: cell_ok_def chan_ok_def)
    next
      case False
      with ok show ?thesis by simp
    qed
    from hub_inv_cell [OF assms Some this] have "hub_inv (hub_pump c w h)" by (simp add: h')
    moreover have "hub_abs (hub_pump c w h) = hub_abs h" if "wc_send ?cl = wc_send cl"
    proof
      show "hub_abs (hub_pump c w h) k = hub_abs h k" for k
        using that Some by (cases "k = c") (simp_all add: hub_abs_def h' split: option.split del: writePump.simps)
    qed
    moreover have "hub_abs (hub_pump c w h) = spec_read c (hub_abs h)"
      if "wc_send ?cl = (wc_send cl)\<lparr>ch_buf := tl (ch_buf (wc_send cl))\<rparr>"
    proof
      show "hub_abs (hub_pump c w h) k = spec_read c (hub_abs h) k" for k
        using that Some
        by (cases "k = c") (simp_all add: hub_abs_def h' spec_read_def split: option.split del: writePump.simps)
    qed
    ultimately show ?thesis using send by blast
  qed
  then show "hub_inv (hub_pump c w h)"
    and "hub_abs (hub_pump c w h) = hub_abs h \<or> hub_abs (hub_pump c w h) = spec_read c (hub_abs h)" by blast+
qed

section \<open>Every run of the hub\<close>

text \<open>
  The steps around the hub, in any order: a connection that waits, its registration, a message
  taken from the buffer, a wake-up of a pump, the end of a client's reading, and the stop. A
  step that is not possible (registering a client that does not wait, ending the reading of one
  that has not started) changes nothing.
\<close>

datatype hub_op =
    Connect | Register nat | Deliver string | Pump nat pump_wake | ReadEnd bool nat | StopHub

fun hub_apply :: "hub_op \<Rightarrow> wsHub \<Rightarrow> wsHub go" where
  "hub_apply Connect h = Inr (snd (ws_connect h))"
| "hub_apply (Register c) h = Inr (if c \<in> set (hb_registering h) then hub_register c h else h)"
| "hub_apply (Deliver m) h = hub_message m h"
| "hub_apply (Pump c w) h = Inr (hub_pump c w h)"
| "hub_apply (ReadEnd taken c) h = (if c \<in> set (hb_registering h) then Inr h else readPump_exit taken c h)"
| "hub_apply StopHub h = Inr (hub_Stop h)"

fun hub_run :: "hub_op list \<Rightarrow> wsHub \<Rightarrow> wsHub go" where
  "hub_run [] h = Inr h"
| "hub_run (op # ops) h = go_bind (hub_apply op h) (hub_run ops)"

text \<open>What a step may do to the abstract hub.\<close>

fun spec_steps :: "hub_op \<Rightarrow> ws_spec \<Rightarrow> ws_spec list" where
  "spec_steps Connect s = [s]"
| "spec_steps (Register c) s = [s, spec_register c s]"
| "spec_steps (Deliver m) s = [spec_message m s]"
| "spec_steps (Pump c w) s = [s, spec_read c s]"
| "spec_steps (ReadEnd taken c) s = [s, spec_unregister c s]"
| "spec_steps StopHub s = [s]"

fun spec_run_of :: "hub_op list \<Rightarrow> ws_spec \<Rightarrow> ws_spec \<Rightarrow> bool" where
  "spec_run_of [] s t \<longleftrightarrow> s = t"
| "spec_run_of (op # ops) s t \<longleftrightarrow> (\<exists>s' \<in> set (spec_steps op s). spec_run_of ops s' t)"

lemma hub_Stop_simps [simp]:
  "hb_heap (hub_Stop h) = hb_heap h" "hb_clients (hub_Stop h) = hb_clients h"
  "hb_registering (hub_Stop h) = hb_registering h" "hb_stopped (hub_Stop h)"
  by (simp_all add: hub_Stop_def)

lemma Stop_refines: "hub_inv h \<Longrightarrow> hub_inv (hub_Stop h) \<and> hub_abs (hub_Stop h) = hub_abs h"
proof -
  assume inv: "hub_inv h"
  have "cell_ok (h\<lparr>hb_stopped := True\<rparr>) = cell_ok h" by (intro ext) (simp add: cell_ok_def)
  with inv have "hub_inv (h\<lparr>hb_stopped := True\<rparr>)"
    by (intro hub_inv_step [OF inv]) (use hub_invD(1-4) [OF inv] in auto)
  moreover have "hub_abs (h\<lparr>hb_stopped := True\<rparr>) = hub_abs h" by (rule ext) (simp add: hub_abs_def split: option.split)
  ultimately show ?thesis using inv by (simp add: hub_Stop_def)
qed

lemma read_end_refines:
  assumes "hub_inv h" and "c \<notin> set (hb_registering h)"
  shows "\<exists>h'. readPump_exit taken c h = Inr h' \<and> hub_inv h' \<and>
     (hub_abs h' = hub_abs h \<or> hub_abs h' = spec_unregister c (hub_abs h))"
proof (cases "taken \<or> mget (hb_heap h) c = None")
  case True
  then show ?thesis using unregister_refines [OF assms(1), of c] assms(1) by (auto simp: readPump_exit_def)
next
  case False
  then obtain cl where cl: "mget (hb_heap h) c = Some cl" by blast
  let ?h = "h\<lparr>hb_heap := mput c (cl\<lparr>wc_open := False\<rparr>) (hb_heap h)\<rparr>"
  have "cell_ok h c (cl\<lparr>wc_open := False\<rparr>)"
    using hub_invD(1) [OF assms(1) cl] assms(2) by (simp add: cell_ok_def)
  from hub_inv_cell [OF assms(1) cl this] have "hub_inv ?h" .
  moreover have "hub_abs ?h = hub_abs h"
  proof
    show "hub_abs ?h k = hub_abs h k" for k
      using cl by (cases "k = c") (simp_all add: hub_abs_def split: option.split)
  qed
  ultimately show ?thesis using False cl by (simp add: readPump_exit_def)
qed

lemma hub_apply_refines:
  assumes "hub_inv h"
  shows "\<exists>h'. hub_apply op h = Inr h' \<and> hub_inv h' \<and> hub_abs h' \<in> set (spec_steps op (hub_abs h))"
proof (cases op)
  case Connect
  then show ?thesis using connect_refines [OF assms] by (cases "ws_connect h") auto
next
  case (Register c)
  then show ?thesis using register_refines [OF assms, of c] assms by auto
next
  case (Deliver m)
  then show ?thesis using message_refines [OF assms, of m] by auto
next
  case (Pump c w)
  then show ?thesis using pump_refines [OF assms, of c w] by auto
next
  case (ReadEnd taken c)
  then show ?thesis using read_end_refines [OF assms, of c taken] assms by auto
next
  case StopHub
  then show ?thesis using Stop_refines [OF assms] by auto
qed

lemma hub_run_refines:
  "hub_inv h \<Longrightarrow> \<exists>h'. hub_run ops h = Inr h' \<and> hub_inv h' \<and> spec_run_of ops (hub_abs h) (hub_abs h')"
proof (induction ops arbitrary: h)
  case Nil
  then show ?case by simp
next
  case (Cons op ops)
  obtain h1 where h1: "hub_apply op h = Inr h1" "hub_inv h1" "hub_abs h1 \<in> set (spec_steps op (hub_abs h))"
    using hub_apply_refines [OF Cons.prems] by blast
  with Cons.IH [OF h1(2)] show ?case by auto
qed

text \<open>
  C9: the hub implements the abstract hub. Whatever the order of connections, registrations,
  messages, wake-ups of the pumps, ends of readers and the stop, it never closes a channel twice,
  never sends on a closed one and never dereferences nil, and each step does to what the clients
  still have to receive exactly what the abstract step does: every connected client gets every
  message, until 256 of them wait and it is dropped.
\<close>

theorem hub_refines_spec:
  "\<exists>h. hub_run ops (newWSHub origins) = Inr h \<and> spec_run_of ops Map.empty (hub_abs h)"
  using hub_run_refines [OF hub_inv_new, of ops origins] by (auto simp: hub_abs_new)

section \<open>What a client receives\<close>

fun texts :: "frame list \<Rightarrow> string list" where
  "texts [] = []"
| "texts (TextFrame m # fs) = m # texts fs"
| "texts (CloseFrame # fs) = texts fs"
| "texts (PingFrame # fs) = texts fs"

lemma texts_append [simp]: "texts (fs @ gs) = texts fs @ texts gs"
  by (induction fs rule: texts.induct) auto

fun delivered :: "hub_op list \<Rightarrow> string list" where
  "delivered [] = []"
| "delivered (Deliver m # ops) = m # delivered ops"
| "delivered (_ # ops) = delivered ops"

definition streams :: "nat \<Rightarrow> string list \<Rightarrow> wsHub \<Rightarrow> bool" where
  "streams c ms h \<longleftrightarrow> c \<notin> set (hb_registering h) \<and>
     (\<exists>cl. mget (hb_heap h) c = Some cl \<and> prefix (texts (wc_frames cl)) ms \<and>
        (wc_pumping cl \<longrightarrow> prefix (texts (wc_frames cl) @ ch_buf (wc_send cl)) ms \<and>
           (mget (hb_clients h) c \<noteq> None \<longrightarrow> texts (wc_frames cl) @ ch_buf (wc_send cl) = ms)))"

text \<open>A step that leaves the cell alone, or only closes its channel or its connection.\<close>

lemma streams_cong:
  assumes "streams c ms h" and "c \<notin> set (hb_registering h')"
    and "\<And>cl. mget (hb_heap h) c = Some cl \<Longrightarrow> \<exists>cl'. mget (hb_heap h') c = Some cl' \<and>
       wc_frames cl' = wc_frames cl \<and> wc_pumping cl' = wc_pumping cl \<and> ch_buf (wc_send cl') = ch_buf (wc_send cl)"
    and "mget (hb_clients h') c \<noteq> None \<Longrightarrow> mget (hb_clients h) c \<noteq> None"
  shows "streams c ms h'"
  using assms unfolding streams_def by metis

lemma streams_message:
  assumes "hub_inv h" and "streams c ms h" and "hub_message m h = Inr h'"
  shows "streams c (ms @ [m]) h'"
proof -
  obtain h1 where h1: "hub_message m h = Inr h1"
    "\<And>k. mget (hb_heap h1) k =
       (if mget (hb_clients h) k = None then mget (hb_heap h) k else map_option (offer_cell m) (mget (hb_heap h) k))"
    "\<And>k. mget (hb_clients h1) k = (if has_room (hb_heap h) k then mget (hb_clients h) k else None)"
    "hb_registering h1 = hb_registering h"
    by (rule message_effect [OF assms(1), of m]) blast
  obtain cl where cl: "mget (hb_heap h) c = Some cl" "prefix (texts (wc_frames cl)) ms"
    "wc_pumping cl \<longrightarrow> prefix (texts (wc_frames cl) @ ch_buf (wc_send cl)) ms \<and>
       (mget (hb_clients h) c \<noteq> None \<longrightarrow> texts (wc_frames cl) @ ch_buf (wc_send cl) = ms)"
    "c \<notin> set (hb_registering h)"
    using assms(2) by (auto simp: streams_def)
  have pre: "prefix xs (ms @ [m])" if "prefix xs ms" for xs using that by (rule prefix_prefix)
  show ?thesis
  proof (cases "mget (hb_clients h) c")
    case None
    with cl h1 assms(3) pre show ?thesis by (auto simp: streams_def)
  next
    case (Some b)
    then have cell: "mget (hb_heap h1) c = Some (offer_cell m cl)" using h1(2) [of c] cl(1) by simp
    show ?thesis
    proof (cases "length (ch_buf (wc_send cl)) < ch_cap (wc_send cl)")
      case True
      with cell cl Some h1 assms(3) pre show ?thesis by (auto simp: streams_def offer_cell_def)
    next
      case False
      then have "mget (hb_clients h1) c = None" using h1(3) [of c] by (simp add: has_room_Some [OF cl(1)])
      with False cell cl Some h1 assms(3) pre show ?thesis by (auto simp: streams_def offer_cell_def)
    qed
  qed
qed

lemma streams_pump:
  assumes "streams c ms h"
  shows "streams c ms (hub_pump c w h)"
proof -
  obtain cl where cl: "mget (hb_heap h) c = Some cl" "prefix (texts (wc_frames cl)) ms"
    "wc_pumping cl \<longrightarrow> prefix (texts (wc_frames cl) @ ch_buf (wc_send cl)) ms \<and>
       (mget (hb_clients h) c \<noteq> None \<longrightarrow> texts (wc_frames cl) @ ch_buf (wc_send cl) = ms)"
    "c \<notin> set (hb_registering h)"
    using assms by (auto simp: streams_def)
  let ?cl = "writePump [w] cl"
  have key: "wc_pumping cl \<Longrightarrow> texts (wc_frames cl) @ ch_buf (wc_send cl) = L \<Longrightarrow> prefix L ms \<Longrightarrow>
     prefix (texts (wc_frames ?cl)) ms \<and> (wc_pumping ?cl \<longrightarrow> texts (wc_frames ?cl) @ ch_buf (wc_send ?cl) = L)" for L
  proof (cases w)
    case (WakeSend ok)
    assume p: "wc_pumping cl" "texts (wc_frames cl) @ ch_buf (wc_send cl) = L" "prefix L ms"
    show ?thesis
    proof (cases "pump_step w cl")
      case None
      with p cl(2) WakeSend show ?thesis by (simp del: pump_step.simps)
    next
      case (Some cl')
      then have run: "?cl = cl'" using p(1) by (simp del: pump_step.simps)
      from Some [unfolded WakeSend] show ?thesis
      proof (cases rule: pump_send_cases)
        case (message m rest cl1)
        then show ?thesis using p cl(2) unfolding run
          by (auto simp: write_frame_def prefix_def split: if_splits)
      next
        case closed
        then show ?thesis using cl(2) unfolding run by (auto simp: write_frame_def)
      qed
    qed
  next
    case (WakeTick ok)
    assume p: "wc_pumping cl" "texts (wc_frames cl) @ ch_buf (wc_send cl) = L" "prefix L ms"
    with WakeTick cl(2) show ?thesis by (auto simp: write_frame_def)
  qed
  have "mget (hb_heap (hub_pump c w h)) c = Some ?cl" "hb_clients (hub_pump c w h) = hb_clients h"
    "hb_registering (hub_pump c w h) = hb_registering h"
    by (simp_all add: hub_pump_def cl(1))
  moreover have "prefix (texts (wc_frames ?cl)) ms \<and> (wc_pumping ?cl \<longrightarrow>
      prefix (texts (wc_frames ?cl) @ ch_buf (wc_send ?cl)) ms \<and>
      (mget (hb_clients h) c \<noteq> None \<longrightarrow> texts (wc_frames ?cl) @ ch_buf (wc_send ?cl) = ms))"
  proof (cases "wc_pumping cl")
    case True
    with key cl(3) show ?thesis by metis
  next
    case False
    with cl(2) show ?thesis by simp
  qed
  ultimately show ?thesis using cl(4) unfolding streams_def by simp
qed

lemma streams_unregister:
  assumes "hub_unregister k h = Inr h'" and "streams c ms h"
  shows "streams c ms h'"
proof (rule streams_cong [OF assms(2)])
  show "c \<notin> set (hb_registering h')" "mget (hb_clients h') c \<noteq> None \<Longrightarrow> mget (hb_clients h) c \<noteq> None"
    using assms by (auto simp: hub_unregister_def streams_def split: option.splits if_splits)
  show "\<exists>cl'. mget (hb_heap h') c = Some cl' \<and> wc_frames cl' = wc_frames cl \<and> wc_pumping cl' = wc_pumping cl \<and>
      ch_buf (wc_send cl') = ch_buf (wc_send cl)" if "mget (hb_heap h) c = Some cl" for cl
    using that assms(1)
    by (cases "k = c") (auto simp: hub_unregister_def close_send_def close_chan_def split: option.splits if_splits)
qed

lemma streams_apply:
  assumes "hub_inv h" and "streams c ms h" and "hub_apply op h = Inr h'"
  shows "streams c (ms @ delivered [op]) h'"
proof (cases op)
  case Connect
  obtain k h1 where k: "ws_connect h = (k, h1)" by fastforce
  have "k \<noteq> c" using connect_refines [OF assms(1) k] assms(2) by (auto simp: streams_def)
  with Connect k assms(2,3) show ?thesis
    by (auto simp: ws_connect_def Let_def intro!: streams_cong [OF assms(2)]) (simp add: streams_def)
next
  case (Register k)
  have c: "c \<notin> set (hb_registering h)" using assms(2) by (simp add: streams_def)
  show ?thesis
  proof (cases "k \<in> set (hb_registering h)")
    case True
    then have "k \<noteq> c" using c by blast
    have "streams c ms (hub_register k h)"
      by (rule streams_cong [OF assms(2)])
        (use \<open>k \<noteq> c\<close> c in \<open>auto simp: hub_register_def dest: notin_set_remove1 split: option.splits\<close>)
    with True Register assms(3) show ?thesis by simp
  qed (use Register assms in simp)
next
  case (Deliver m)
  with streams_message [OF assms(1,2)] assms(3) show ?thesis by simp
next
  case (Pump k w)
  show ?thesis
  proof (cases "k = c")
    case True
    with Pump streams_pump [OF assms(2), of w] assms(3) show ?thesis by auto
  next
    case False
    have "streams c ms (hub_pump k w h)"
      by (rule streams_cong [OF assms(2)])
        (use False assms(2) in \<open>auto simp: hub_pump_def streams_def split: option.splits\<close>)
    with Pump assms(3) show ?thesis by simp
  qed
next
  case (ReadEnd taken k)
  have "streams c ms h'" if "readPump_exit False k h = Inr h'"
  proof (rule streams_cong [OF assms(2)])
    show "c \<notin> set (hb_registering h')" "mget (hb_clients h') c \<noteq> None \<Longrightarrow> mget (hb_clients h) c \<noteq> None"
      using that assms(2) by (auto simp: readPump_exit_def streams_def split: option.splits)
    show "\<exists>cl'. mget (hb_heap h') c = Some cl' \<and> wc_frames cl' = wc_frames cl \<and> wc_pumping cl' = wc_pumping cl \<and>
        ch_buf (wc_send cl') = ch_buf (wc_send cl)" if "mget (hb_heap h) c = Some cl" for cl
      using that \<open>readPump_exit False k h = Inr h'\<close>
      by (cases "k = c") (auto simp: readPump_exit_def split: option.splits)
  qed
  with ReadEnd assms streams_unregister show ?thesis
    by (cases taken) (auto simp: readPump_exit_def [of True] split: if_splits)
next
  case StopHub
  have "streams c ms (hub_Stop h)"
    by (rule streams_cong [OF assms(2)]) (use assms(2) in \<open>simp_all add: streams_def\<close>)
  with StopHub assms(3) show ?thesis by simp
qed

lemma delivered_Cons: "delivered (op # ops) = delivered [op] @ delivered ops"
  by (cases op) simp_all

lemma streams_run:
  "hub_inv h \<Longrightarrow> streams c ms h \<Longrightarrow> hub_run ops h = Inr h' \<Longrightarrow> streams c (ms @ delivered ops) h'"
proof (induction ops arbitrary: h ms)
  case Nil
  then show ?case by simp
next
  case (Cons op ops)
  then obtain h1 where h1: "hub_apply op h = Inr h1" "hub_run ops h1 = Inr h'" by auto
  have "hub_inv h1" using hub_apply_refines [OF Cons.prems(1), of op] h1(1) by simp
  from Cons.IH [OF this streams_apply [OF Cons.prems(1,2) h1(1)] h1(2)] show ?case
    by (subst delivered_Cons) simp
qed

lemma streams_registered:
  assumes "hub_inv h" and "c \<in> set (hb_registering h)"
  shows "streams c [] (hub_register c h)"
proof -
  obtain cl where cl: "mget (hb_heap h) c = Some cl" using hub_invD(3) [OF assms] by blast
  from hub_invD(1) [OF assms(1) cl] assms(2) hub_invD(4) [OF assms(1)] cl show ?thesis
    by (simp add: streams_def hub_register_def cell_ok_def)
qed

text \<open>
  From its registration on a WebSocket client is sent a prefix of the messages, in their
  order and without a gap, whatever else happens in the hub; and as long as it is registered and
  its pump runs, what it was sent and what waits for it are together all the messages.
\<close>

lemma ws_client_stream:
  assumes "hub_inv h0" and "hub_run before h0 = Inr h" and "c \<in> set (hb_registering h)"
    and "hub_run (Register c # after) h = Inr h'"
  shows "\<exists>cl. mget (hb_heap h') c = Some cl \<and> prefix (texts (wc_frames cl)) (delivered after) \<and>
    (mget (hb_clients h') c \<noteq> None \<and> wc_pumping cl \<longrightarrow>
       texts (wc_frames cl) @ ch_buf (wc_send cl) = delivered after)"
proof -
  have inv: "hub_inv h" using hub_run_refines [OF assms(1), of before] assms(2) by simp
  have "hub_inv (hub_register c h)" using register_refines [OF inv assms(3)] by blast
  moreover have "hub_run after (hub_register c h) = Inr h'" using assms(3,4) by simp
  ultimately have "streams c (delivered after) h'"
    using streams_run [OF _ streams_registered [OF inv assms(3)]] by fastforce
  then show ?thesis by (auto simp: streams_def)
qed

section \<open>Ends\<close>

text \<open>What \<open>writePump\<close> still has to do: the messages of a closed channel and the closing frame.\<close>

definition is_send :: "pump_wake \<Rightarrow> bool" where
  "is_send w \<longleftrightarrow> (case w of WakeSend _ \<Rightarrow> True | WakeTick _ \<Rightarrow> False)"

lemma is_send_simps [simp]: "is_send (WakeSend ok)" "\<not> is_send (WakeTick ok)"
  by (simp_all add: is_send_def)

lemma pump_ends:
  assumes "ch_closed (wc_send cl)" and "length (ch_buf (wc_send cl)) < length (filter is_send ws)" and "wc_pumping cl"
  shows "\<not> wc_pumping (writePump ws cl) \<and> \<not> wc_open (writePump ws cl)"
  using assms
proof (induction ws arbitrary: cl)
  case Nil
  then show ?case by simp
next
  case (Cons w ws)
  have stay: "writePump ws cl' = cl'" if "\<not> wc_pumping cl'" for cl'
    using that by (cases ws) simp_all
  show ?case
  proof (cases w)
    case (WakeTick ok)
    obtain cl' where cl': "pump_step w cl = Some cl'" "wc_send cl' = wc_send cl"
      using pump_step_tick WakeTick by blast
    show ?thesis
    proof (cases "wc_pumping cl'")
      case True
      with Cons.IH [of cl'] Cons.prems cl' WakeTick show ?thesis by (simp del: pump_step.simps)
    next
      case False
      have "\<not> wc_open cl'" using cl' WakeTick False Cons.prems(3) by (auto simp: write_frame_def split: if_splits)
      with False stay cl' Cons.prems(3) show ?thesis by (simp del: pump_step.simps)
    qed
  next
    case (WakeSend ok)
    then obtain cl' where cl': "pump_step (WakeSend ok) cl = Some cl'"
      using pump_step_none [of ok cl] Cons.prems(1) by (cases "pump_step (WakeSend ok) cl") auto
    from cl' show ?thesis
    proof (cases rule: pump_send_cases)
      case (message m ms cl1)
      show ?thesis
      proof (cases "wc_pumping cl'")
        case True
        have "ch_closed (wc_send cl')" "length (ch_buf (wc_send cl')) < length (filter is_send ws)"
          using pump_step_send [OF cl'] message Cons.prems WakeSend by simp_all
        from Cons.IH [OF this True] cl' WakeSend Cons.prems(3) show ?thesis by (simp del: pump_step.simps)
      next
        case False
        have "\<not> wc_open cl'" using message False Cons.prems(3) by (auto simp: write_frame_def split: if_splits)
        with False stay cl' WakeSend Cons.prems(3) show ?thesis by (simp del: pump_step.simps)
      qed
    next
      case closed
      then have "\<not> wc_pumping cl'" "\<not> wc_open cl'" by simp_all
      with stay cl' WakeSend Cons.prems(3) show ?thesis by (simp del: pump_step.simps)
    qed
  qed
qed


lemma hub_sample:
  "\<exists>h cl. hub_run [Connect, Register 0, Deliver ''x'', ReadEnd True 0] (newWSHub []) = Inr h \<and>
     mget (hb_heap h) 0 = Some cl \<and> mget (hb_clients h) 0 = None \<and> wc_pumping cl \<and> ch_buf (wc_send cl) = [''x'']"
  by (simp add: newWSHub_def ws_connect_def hub_register_def hub_message_def mentries_put send_chan_def
      readPump_exit_def hub_unregister_def close_send_def close_chan_def)


section \<open>A reader whose end the hub misses\<close>

lemma lingers:
  assumes "hub_inv h" and "mget (hb_heap h) c = Some cl" and "mget (hb_clients h) c \<noteq> None"
    and "length (ch_buf (wc_send cl)) + length ms \<le> 256"
  shows "\<exists>h' cl'. hub_run (List.map Deliver ms) h = Inr h' \<and> hub_inv h' \<and> mget (hb_clients h') c \<noteq> None \<and>
    mget (hb_heap h') c = Some cl' \<and> ch_buf (wc_send cl') = ch_buf (wc_send cl) @ ms \<and> wc_open cl' = wc_open cl"
  using assms
proof (induction ms arbitrary: h cl)
  case Nil
  then show ?case by auto
next
  case (Cons m ms)
  obtain h1 where h1: "hub_message m h = Inr h1"
    "\<And>k. mget (hb_heap h1) k =
       (if mget (hb_clients h) k = None then mget (hb_heap h) k else map_option (offer_cell m) (mget (hb_heap h) k))"
    "\<And>k. mget (hb_clients h1) k = (if has_room (hb_heap h) k then mget (hb_clients h) k else None)"
    by (rule message_effect [OF Cons.prems(1), of m]) blast
  have cap: "ch_cap (wc_send cl) = 256" using hub_invD(1) [OF Cons.prems(1,2)] by (simp add: cell_ok_def)
  have cell: "mget (hb_heap h1) c = Some (offer_cell m cl)" using h1(2) [of c] Cons.prems(2,3) by simp
  have in1: "mget (hb_clients h1) c \<noteq> None"
    using h1(3) [of c] Cons.prems(3,4) cap by (simp add: has_room_Some [OF Cons.prems(2)])
  have inv: "hub_inv h1" using message_refines [OF Cons.prems(1), of m] h1(1) by simp
  have buf: "ch_buf (wc_send (offer_cell m cl)) = ch_buf (wc_send cl) @ [m]"
    using Cons.prems(4) cap by (simp add: offer_cell_def)
  have "length (ch_buf (wc_send (offer_cell m cl))) + length ms \<le> 256" using Cons.prems(4) by (simp add: buf)
  from Cons.IH [OF inv cell in1 this] h1(1) show ?case by (auto simp: buf)
qed

text \<open>
  When a reader ends at an instant at which the hub does not wait in its select, the hub
  never learns of it: the dead client stays registered and its buffer grows with every message;
  only the message after 256 waiting ones removes it.
\<close>

theorem missed_unregister_lingers:
  assumes "hub_run ops (newWSHub origins) = Inr h" and "mget (hb_clients h) c \<noteq> None"
    and "readPump_exit False c h = Inr h1" and "mget (hb_heap h) c = Some cl"
    and "length (ch_buf (wc_send cl)) + length ms = 256"
  shows "\<exists>h2 h3. hub_run (List.map Deliver ms) h1 = Inr h2 \<and> mget (hb_clients h2) c \<noteq> None \<and>
    hub_run [Deliver m] h2 = Inr h3 \<and> mget (hb_clients h3) c = None"
proof -
  have inv: "hub_inv h" using hub_run_refines [OF hub_inv_new, of ops origins] assms(1) by simp
  let ?cl = "cl\<lparr>wc_open := False\<rparr>"
  have h1: "h1 = h\<lparr>hb_heap := mput c ?cl (hb_heap h)\<rparr>" using assms(3,4) by (simp add: readPump_exit_def)
  have "cell_ok h c ?cl" using hub_invD(1) [OF inv assms(4)] assms(2) by (auto simp: cell_ok_def)
  then have inv1: "hub_inv h1" unfolding h1 by (rule hub_inv_cell [OF inv assms(4)])
  have cell1: "mget (hb_heap h1) c = Some ?cl" "mget (hb_clients h1) c \<noteq> None" using assms(2) by (simp_all add: h1)
  have room: "length (ch_buf (wc_send ?cl)) + length ms \<le> 256" using assms(5) by simp
  obtain h2 cl2 where h2: "hub_run (List.map Deliver ms) h1 = Inr h2" "hub_inv h2" "mget (hb_clients h2) c \<noteq> None"
    "mget (hb_heap h2) c = Some cl2" "ch_buf (wc_send cl2) = ch_buf (wc_send ?cl) @ ms"
    using lingers [OF inv1 cell1 room] by blast
  obtain h3 where h3: "hub_message m h2 = Inr h3"
    "\<And>k. mget (hb_clients h3) k = (if has_room (hb_heap h2) k then mget (hb_clients h2) k else None)"
    by (rule message_effect [OF h2(2), of m]) blast
  have "ch_cap (wc_send cl2) = 256" using hub_invD(1) [OF h2(2,4)] by (simp add: cell_ok_def)
  then have "\<not> has_room (hb_heap h2) c" using assms(5) h2(5) by (simp add: has_room_Some [OF h2(4)])
  then have "mget (hb_clients h3) c = None" by (simp add: h3(2))
  with h2(1,3) h3(1) show ?thesis by auto
qed

theorem missed_unregister_lingers_witness:
  "\<exists>h1 h2. readPump_exit False 0 (hub_register 0 (snd (ws_connect (newWSHub [])))) = Inr h1 \<and>
     hub_run (List.map Deliver (replicate 256 ''x'')) h1 = Inr h2 \<and> mget (hb_clients h2) 0 \<noteq> None"
proof -
  let ?h = "hub_register 0 (snd (ws_connect (newWSHub [])))"
  have r: "hub_run [Connect, Register 0] (newWSHub []) = Inr ?h" by (simp add: ws_connect_def newWSHub_def)
  obtain cl where cl: "mget (hb_heap ?h) 0 = Some cl" "ch_buf (wc_send cl) = []"
    by (simp add: ws_connect_def newWSHub_def hub_register_def)
  have c: "mget (hb_clients ?h) 0 \<noteq> None" by (simp add: hub_register_def)
  obtain h1 where e: "readPump_exit False 0 ?h = Inr h1" by (simp add: readPump_exit_def cl(1))
  have "length (ch_buf (wc_send cl)) + length (replicate 256 ''x'') = 256" by (simp add: cl(2))
  from missed_unregister_lingers [OF r c e cl(1) this] e show ?thesis by blast
qed

end
