(* ===== verification/HubRun.thy ===== *)
theory HubRun
  imports HubProps
begin

text \<open>
  The main loop of the WebSocket hub with its forwarder goroutine: what happens between a change of
  the cluster state and the frames that a client is sent, and how both goroutines end.
\<close>

section \<open>Run and its forwarder\<close>

text \<open>
  The steps of \<open>Run\<close> and its goroutine once it has subscribed to channel ch: the forwarder
  receives, sends or stops; \<open>Run\<close> takes a message, handles clients, or returns once the hub is
  stopped. Between them events are broadcast, other parts of the state manager change and the hub may
  be stopped; nobody else subscribes or reads the channel.
\<close>

datatype ws_label = Event NodeChangeEvent | HubOp hub_op | Internal

inductive ws_system_step ::
    "(NodeChangeEvent \<Rightarrow> string option) \<Rightarrow> nat \<Rightarrow> ws_label \<Rightarrow> ws_system \<Rightarrow> ws_system \<Rightarrow> bool"
  for json :: "NodeChangeEvent \<Rightarrow> string option" and ch :: nat where
  receives: "wy_fwd y = FwdIdle \<Longrightarrow> forward_receive json ch y = Some y' \<Longrightarrow> ws_system_step json ch Internal y y'"
| sends: "wy_fwd y = FwdHolds data \<Longrightarrow> forward_send data y = Some y' \<Longrightarrow> ws_system_step json ch Internal y y'"
| stops: "wy_fwd y = FwdHolds data \<Longrightarrow> forward_stop y = Some y' \<Longrightarrow> ws_system_step json ch Internal y y'"
| takes: "wy_run y = Running ch \<Longrightarrow> Run_broadcast y = Some (Inr y') \<Longrightarrow>
     ws_system_step json ch (HubOp (Deliver (hd (ch_buf (hb_broadcast (wy_hub y)))))) y y'"
| clients: "op \<in> {Connect, Register c, Pump c w, ReadEnd False c} \<or> (op = ReadEnd True c \<and> wy_run y = Running ch) \<Longrightarrow>
     op = Register c \<longrightarrow> wy_run y = Running ch \<Longrightarrow> hub_apply op (wy_hub y) = Inr h \<Longrightarrow>
     ws_system_step json ch (HubOp op) y (y\<lparr>wy_hub := h\<rparr>)"
| stop: "ws_system_step json ch (HubOp StopHub) y (y\<lparr>wy_hub := hub_Stop (wy_hub y)\<rparr>)"
| returns: "wy_run y = Running ch \<Longrightarrow> hb_stopped (wy_hub y) \<Longrightarrow> Run_return ch y = Inr y' \<Longrightarrow>
     ws_system_step json ch Internal y y'"
| changes: "ws_system_step json ch (Event e) y (y\<lparr>wy_sm := broadcast e (wy_sm y)\<rparr>)"
| elsewhere: "sm_chans sm = sm_chans (wy_sm y) \<Longrightarrow> sm_subscribers sm = sm_subscribers (wy_sm y) \<Longrightarrow>
     ws_system_step json ch Internal y (y\<lparr>wy_sm := sm\<rparr>)"

abbreviation ws_moves :: "(NodeChangeEvent \<Rightarrow> string option) \<Rightarrow> nat \<Rightarrow> ws_system \<Rightarrow> ws_system \<Rightarrow> bool" where
  "ws_moves json ch y y' \<equiv> \<exists>l. ws_system_step json ch l y y'"

inductive ws_reach ::
    "(NodeChangeEvent \<Rightarrow> string option) \<Rightarrow> ws_system \<Rightarrow> nat \<Rightarrow> ws_label list \<Rightarrow> ws_system \<Rightarrow> bool"
  for json :: "NodeChangeEvent \<Rightarrow> string option" and y0 :: ws_system and ch :: nat where
  started: "ws_reach json y0 ch [] (Run_start y0)"
| steps: "ws_reach json y0 ch ls y \<Longrightarrow> ws_system_step json ch l y y' \<Longrightarrow> ws_reach json y0 ch (ls @ [l]) y'"

text \<open>
  The channel of \<open>Run\<close> is open and subscribed until \<open>Run\<close> returns, and closed afterwards.
\<close>

definition ws_system_inv :: "nat \<Rightarrow> ws_system \<Rightarrow> bool" where
  "ws_system_inv ch y \<longleftrightarrow> hub_inv (wy_hub y) \<and> wy_fwd y \<noteq> FwdNone \<and>
     (\<exists>c. mget (sm_chans (wy_sm y)) ch = Some c \<and>
        (wy_run y = Running ch \<and> \<not> ch_closed c \<or> wy_run y = RunReturned \<and> ch_closed c \<and> hb_stopped (wy_hub y)))"

lemma sys_start:
  assumes "hub_inv (wy_hub y0)" and "fst (Subscribe (wy_sm y0)) = ch"
  shows "ws_system_inv ch (Run_start y0)"
  using assms by (auto simp: ws_system_inv_def Run_start_def Subscribe_def Let_def)

lemma hub_inv_broadcast_irrelevant [simp]: "hub_inv (h\<lparr>hb_broadcast := b\<rparr>) = hub_inv h"
proof -
  have "cell_ok (h\<lparr>hb_broadcast := b\<rparr>) = cell_ok h" by (intro ext) (simp add: cell_ok_def)
  then show ?thesis by (simp add: hub_inv_def)
qed

lemma Run_broadcast_ok:
  assumes "hub_inv (wy_hub y)" and "ch_buf (hb_broadcast (wy_hub y)) \<noteq> []"
  shows "\<exists>h. Run_broadcast y = Some (Inr (y\<lparr>wy_hub := h\<rparr>)) \<and> hub_inv h \<and> hb_stopped h = hb_stopped (wy_hub y)"
proof -
  obtain m ms where b: "ch_buf (hb_broadcast (wy_hub y)) = m # ms" using assms(2) by (cases "ch_buf (hb_broadcast (wy_hub y))") auto
  let ?h = "(wy_hub y)\<lparr>hb_broadcast := (hb_broadcast (wy_hub y))\<lparr>ch_buf := ms\<rparr>\<rparr>"
  have "hub_inv ?h" using assms(1) by simp
  from message_refines [OF this, of m] b show ?thesis by (auto simp: Run_broadcast_def recv_chan_def)
qed

lemma hub_apply_stopped:
  "hub_apply op h = Inr h' \<Longrightarrow> op \<in> {Connect, Register c, Pump c w, ReadEnd b c} \<Longrightarrow> hb_stopped h' = hb_stopped h"
  by (auto simp: ws_connect_def Let_def hub_register_def hub_pump_def readPump_exit_def hub_unregister_def
      split: option.splits if_splits)

lemma sys_step:
  assumes "ws_system_step json ch l y y'" and "ws_system_inv ch y"
  shows "ws_system_inv ch y'"
  using assms
proof (cases rule: ws_system_step.cases)
  case receives
  with assms(2) show ?thesis
    by (auto simp: ws_system_inv_def forward_receive_def Receive_def recv_chan_def
        split: option.splits list.splits if_splits)
next
  case (sends data)
  with assms(2) show ?thesis
    by (auto simp: ws_system_inv_def forward_send_def split: sum.splits)
next
  case (stops data)
  with assms(2) show ?thesis by (auto simp: ws_system_inv_def forward_stop_def split: if_splits)
next
  case takes
  then have "ch_buf (hb_broadcast (wy_hub y)) \<noteq> []" by (auto simp: Run_broadcast_def recv_chan_def)
  with Run_broadcast_ok [of y] takes assms(2) show ?thesis by (auto simp: ws_system_inv_def)
next
  case (clients op c w h)
  have "hub_inv h" using hub_apply_refines [of "wy_hub y" op] assms(2) clients(5) by (auto simp: ws_system_inv_def)
  moreover have "hb_stopped h = hb_stopped (wy_hub y)"
    using clients(3) by (intro hub_apply_stopped [OF clients(5), of c w "op = ReadEnd True c"]) auto
  ultimately show ?thesis using assms(2) by (auto simp: ws_system_inv_def clients(2))
next
  case stop
  with assms(2) Stop_refines [of "wy_hub y"] show ?thesis by (auto simp: ws_system_inv_def)
next
  case returns
  with assms(2) show ?thesis
    by (auto simp: ws_system_inv_def Run_return_def Unsubscribe_def Let_def close_chan_def split: option.splits if_splits)
next
  case (changes e)
  then show ?thesis using assms(2) by (auto simp: ws_system_inv_def mget_broadcast)
next
  case (elsewhere sm)
  with assms(2) show ?thesis by (auto simp: ws_system_inv_def)
qed

lemma ws_reach_inv:
  assumes "ws_reach json y0 ch ls y" and "hub_inv (wy_hub y0)" and "fst (Subscribe (wy_sm y0)) = ch"
  shows "ws_system_inv ch y"
  using assms(1) by (induction) (use sys_start [OF assms(2,3)] sys_step in blast)+

text \<open>The forwarder of a returned \<open>Run\<close> empties its channel and ends.\<close>

lemma forwarder_ends:
  assumes "ws_system_inv ch y" and "wy_run y = RunReturned"
  shows "\<exists>y'. (ws_moves json ch)\<^sup>*\<^sup>* y y' \<and> wy_run y' = RunReturned \<and> wy_fwd y' = FwdReturned"
  using assms
proof (induction "length (ch_buf (the (mget (sm_chans (wy_sm y)) ch)))" arbitrary: y rule: less_induct)
  case less
  obtain c where c: "mget (sm_chans (wy_sm y)) ch = Some c" "ch_closed c" "hb_stopped (wy_hub y)" "wy_fwd y \<noteq> FwdNone"
    using less.prems by (auto simp: ws_system_inv_def)
  show ?case
  proof (cases "wy_fwd y")
    case FwdNone
    with c show ?thesis by simp
  next
    case FwdReturned
    with less.prems show ?thesis by auto
  next
    case (FwdHolds data)
    have "ws_moves json ch y (y\<lparr>wy_fwd := FwdReturned\<rparr>)"
      using FwdHolds c(3) by (intro exI [of _ Internal] ws_system_step.stops) (simp_all add: forward_stop_def)
    with less.prems(2) show ?thesis by (intro exI [of _ "y\<lparr>wy_fwd := FwdReturned\<rparr>"]) auto
  next
    case FwdIdle
    show ?thesis
    proof (cases "ch_buf c")
      case Nil
      have "ws_moves json ch y (y\<lparr>wy_fwd := FwdReturned\<rparr>)"
        using FwdIdle c Nil
        by (intro exI [of _ Internal] ws_system_step.receives) (simp_all add: forward_receive_def Receive_def recv_chan_def)
      with less.prems(2) show ?thesis by (intro exI [of _ "y\<lparr>wy_fwd := FwdReturned\<rparr>"]) auto
    next
      case (Cons e es)
      let ?y = "y\<lparr>wy_sm := (wy_sm y)\<lparr>sm_chans := mput ch (c\<lparr>ch_buf := es\<rparr>) (sm_chans (wy_sm y))\<rparr>,
        wy_fwd := (case json e of None \<Rightarrow> FwdIdle | Some data \<Rightarrow> FwdHolds data)\<rparr>"
      have step: "ws_system_step json ch Internal y ?y"
        using FwdIdle c Cons by (auto intro!: ws_system_step.receives simp: forward_receive_def Receive_def recv_chan_def)
      have "wy_run ?y = RunReturned" using less.prems(2) by simp
      moreover have "length (ch_buf (the (mget (sm_chans (wy_sm ?y)) ch))) < length (ch_buf (the (mget (sm_chans (wy_sm y)) ch)))"
        using c(1) Cons by simp
      ultimately obtain y' where "(ws_moves json ch)\<^sup>*\<^sup>* ?y y'" "wy_run y' = RunReturned" "wy_fwd y' = FwdReturned"
        using less.hyps [OF _ sys_step [OF step less.prems(1)]] by blast
      moreover have "(ws_moves json ch)\<^sup>*\<^sup>* y ?y" using step by blast
      ultimately show ?thesis by (meson rtranclp_trans)
    qed
  qed
qed

section \<open>From a state change to a frame\<close>

fun events_of :: "ws_label list \<Rightarrow> NodeChangeEvent list" where
  "events_of [] = []"
| "events_of (Event e # ls) = e # events_of ls"
| "events_of (_ # ls) = events_of ls"

fun ops_of :: "ws_label list \<Rightarrow> hub_op list" where
  "ops_of [] = []"
| "ops_of (HubOp op # ls) = op # ops_of ls"
| "ops_of (_ # ls) = ops_of ls"

lemma labels_append: "events_of (ls @ ms) = events_of ls @ events_of ms \<and> ops_of (ls @ ms) = ops_of ls @ ops_of ms"
  by (induction ls rule: events_of.induct) simp_all

lemma delivered_append: "delivered (ops @ ops') = delivered ops @ delivered ops'"
  by (induction ops rule: delivered.induct) simp_all

lemma hub_run_append: "hub_run (ops @ ops') h = go_bind (hub_run ops h) (hub_run ops')"
proof (induction ops arbitrary: h)
  case (Cons op ops)
  then show ?case by (cases "hub_apply op h") simp_all
qed simp

text \<open>The hub's own buffer is not touched by what the hub does to its clients.\<close>

lemma hub_apply_broadcast:
  "hub_apply op (h\<lparr>hb_broadcast := b\<rparr>) = go_bind (hub_apply op h) (\<lambda>h'. Inr (h'\<lparr>hb_broadcast := b\<rparr>))"
proof (cases op)
  case (Deliver m)
  then show ?thesis
    by (cases "hub_send_loop (mentries (hb_clients h)) m (hb_heap h, [])") (simp_all add: hub_message_def split: prod.split)
next
  case (ReadEnd taken c)
  then show ?thesis
    by (auto simp: readPump_exit_def hub_unregister_def close_send_def close_chan_def split: option.split)
qed (auto simp: ws_connect_def Let_def hub_register_def hub_pump_def hub_Stop_def split: option.split)

definition fwd_held :: "fwd_phase \<Rightarrow> string list" where
  "fwd_held f = (case f of FwdHolds data \<Rightarrow> [data] | _ \<Rightarrow> [])"

text \<open>
  The invariant of the pipe. \<open>acc\<close> are the events that found room in the channel of the forwarder;
  their encodings are, in order, what the hub has handed to its clients, what waits in its buffer,
  what the forwarder holds and what waits in the channel (or was lost when the forwarder stopped).
\<close>

definition pipe ::
    "(NodeChangeEvent \<Rightarrow> string option) \<Rightarrow> nat \<Rightarrow> wsHub \<Rightarrow> ws_label list \<Rightarrow> ws_system \<Rightarrow> NodeChangeEvent list \<Rightarrow> bool" where
  "pipe json ch h0 ls y acc \<longleftrightarrow>
     (\<exists>h. hub_run (ops_of ls) h0 = Inr h \<and> wy_hub y = h\<lparr>hb_broadcast := hb_broadcast (wy_hub y)\<rparr>) \<and>
     subseq acc (events_of ls) \<and>
     (\<exists>c rest. mget (sm_chans (wy_sm y)) ch = Some c \<and> ch_cap c = 64 \<and> length (ch_buf c) \<le> length (events_of ls) \<and>
        (wy_run y = Running ch \<longrightarrow> \<not> ch_closed c \<and> mget (sm_subscribers (wy_sm y)) ch \<noteq> None) \<and>
        List.map_filter json acc =
          delivered (ops_of ls) @ ch_buf (hb_broadcast (wy_hub y)) @ fwd_held (wy_fwd y) @ rest \<and>
        (wy_fwd y \<noteq> FwdReturned \<longrightarrow> rest = List.map_filter json (ch_buf c)) \<and>
        (wy_run y = Running ch \<and> wy_fwd y \<noteq> FwdReturned \<and> length (events_of ls) \<le> 64 \<longrightarrow> acc = events_of ls))"

lemma pipe_start:
  assumes "ch_buf (hb_broadcast (wy_hub y0)) = []" and "fst (Subscribe (wy_sm y0)) = ch"
  shows "pipe json ch (wy_hub y0) [] (Run_start y0) []"
  using assms
  by (auto simp: pipe_def Run_start_def Subscribe_def Let_def fwd_held_def List.map_filter_simps)

lemma hub_step_broadcast:
  assumes "hub_run ops h0 = Inr h" and "hub_apply op (h\<lparr>hb_broadcast := b\<rparr>) = Inr hh"
  shows "\<exists>h'. hub_run (ops @ [op]) h0 = Inr h' \<and> hh = h'\<lparr>hb_broadcast := b\<rparr>"
  using assms by (cases "hub_apply op h") (auto simp: hub_apply_broadcast hub_run_append)

lemma map_filter_snoc: "List.map_filter f (xs @ [x]) = List.map_filter f xs @ (case f x of None \<Rightarrow> [] | Some y \<Rightarrow> [y])"
  by (simp add: List.map_filter_def split: option.split)

text \<open>A step that neither hands out a message nor reports an event.\<close>

lemma pipe_internal:
  assumes "pipe json ch h0 ls y acc" and "wy_hub y' = (wy_hub y)\<lparr>hb_broadcast := b\<rparr>"
    and "\<And>c. mget (sm_chans (wy_sm y)) ch = Some c \<Longrightarrow> wy_run y = Running ch \<longrightarrow> \<not> ch_closed c \<Longrightarrow>
      \<exists>c' lost. mget (sm_chans (wy_sm y')) ch = Some c' \<and> ch_cap c' = ch_cap c \<and> length (ch_buf c') \<le> length (ch_buf c) \<and>
        (wy_run y' = Running ch \<longrightarrow> wy_run y = Running ch \<and> (ch_closed c' \<longrightarrow> ch_closed c)) \<and>
        ch_buf (hb_broadcast (wy_hub y)) @ fwd_held (wy_fwd y) @ List.map_filter json (ch_buf c) =
          ch_buf b @ fwd_held (wy_fwd y') @ lost \<and>
        (wy_fwd y' \<noteq> FwdReturned \<longrightarrow> lost = List.map_filter json (ch_buf c'))"
    and "wy_fwd y \<noteq> FwdReturned"
    and "wy_run y' = Running ch \<longrightarrow> sm_subscribers (wy_sm y') = sm_subscribers (wy_sm y)"
  shows "pipe json ch h0 (ls @ [Internal]) y' acc"
proof -
  obtain h c rest where p: "hub_run (ops_of ls) h0 = Inr h" "wy_hub y = h\<lparr>hb_broadcast := hb_broadcast (wy_hub y)\<rparr>"
    "subseq acc (events_of ls)" "mget (sm_chans (wy_sm y)) ch = Some c" "ch_cap c = 64"
    "length (ch_buf c) \<le> length (events_of ls)"
    "wy_run y = Running ch \<longrightarrow> \<not> ch_closed c \<and> mget (sm_subscribers (wy_sm y)) ch \<noteq> None"
    "List.map_filter json acc = delivered (ops_of ls) @ ch_buf (hb_broadcast (wy_hub y)) @ fwd_held (wy_fwd y) @ rest"
    "rest = List.map_filter json (ch_buf c)"
    "wy_run y = Running ch \<and> length (events_of ls) \<le> 64 \<longrightarrow> acc = events_of ls"
    using assms(1,4) unfolding pipe_def by blast
  obtain c' lost where c': "mget (sm_chans (wy_sm y')) ch = Some c'" "ch_cap c' = ch_cap c"
    "length (ch_buf c') \<le> length (ch_buf c)"
    "wy_run y' = Running ch \<longrightarrow> wy_run y = Running ch \<and> (ch_closed c' \<longrightarrow> ch_closed c)"
    "ch_buf (hb_broadcast (wy_hub y)) @ fwd_held (wy_fwd y) @ List.map_filter json (ch_buf c) =
       ch_buf b @ fwd_held (wy_fwd y') @ lost"
    "wy_fwd y' \<noteq> FwdReturned \<longrightarrow> lost = List.map_filter json (ch_buf c')"
    using assms(3) [OF p(4)] p(7) by blast
  have "wy_hub y' = h\<lparr>hb_broadcast := hb_broadcast (wy_hub y')\<rparr>"
    by (subst assms(2), subst p(2)) (simp add: assms(2))
  moreover have "List.map_filter json acc =
      delivered (ops_of ls) @ ch_buf (hb_broadcast (wy_hub y')) @ fwd_held (wy_fwd y') @ lost"
    using c'(5) by (simp add: p(8,9) assms(2))
  ultimately show ?thesis
    using p c' assms(5) unfolding pipe_def
    by (intro conjI exI [of _ h] exI [of _ c'] exI [of _ lost]) (auto simp: labels_append)
qed

text \<open>A step of the hub.\<close>

lemma pipe_hub:
  assumes "pipe json ch h0 ls y acc" and "hub_apply op ((wy_hub y)\<lparr>hb_broadcast := b\<rparr>) = Inr hh"
    and "ch_buf (hb_broadcast (wy_hub y)) = delivered [op] @ ch_buf b"
  shows "pipe json ch h0 (ls @ [HubOp op]) (y\<lparr>wy_hub := hh\<rparr>) acc"
proof -
  obtain h where h: "hub_run (ops_of ls) h0 = Inr h" "wy_hub y = h\<lparr>hb_broadcast := hb_broadcast (wy_hub y)\<rparr>"
    using assms(1) unfolding pipe_def by blast
  have "(wy_hub y)\<lparr>hb_broadcast := b\<rparr> = h\<lparr>hb_broadcast := b\<rparr>" by (subst h(2)) simp
  with hub_step_broadcast [OF h(1)] assms(2) obtain h' where
    h': "hub_run (ops_of ls @ [op]) h0 = Inr h'" "hh = h'\<lparr>hb_broadcast := b\<rparr>" by metis
  then have "\<exists>h. hub_run (ops_of (ls @ [HubOp op])) h0 = Inr h \<and> hh = h\<lparr>hb_broadcast := hb_broadcast hh\<rparr>"
    by (simp add: labels_append)
  moreover have "events_of (ls @ [HubOp op]) = events_of ls" "ops_of (ls @ [HubOp op]) = ops_of ls @ [op]"
    by (simp_all add: labels_append)
  moreover have "hb_broadcast hh = b" by (simp add: h'(2))
  ultimately show ?thesis using assms(1,3) unfolding pipe_def by (simp add: delivered_append)
qed

text \<open>A change of the cluster state.\<close>

lemma subscribers_broadcast [simp]: "sm_subscribers (broadcast e sm) = sm_subscribers sm"
  by (simp add: broadcast_def)

lemma pipe_event:
  assumes "pipe json ch h0 ls y acc"
  shows "\<exists>acc'. pipe json ch h0 (ls @ [Event e]) (y\<lparr>wy_sm := broadcast e (wy_sm y)\<rparr>) acc'"
proof -
  obtain h c rest where p: "hub_run (ops_of ls) h0 = Inr h" "wy_hub y = h\<lparr>hb_broadcast := hb_broadcast (wy_hub y)\<rparr>"
    "subseq acc (events_of ls)" "mget (sm_chans (wy_sm y)) ch = Some c" "ch_cap c = 64"
    "length (ch_buf c) \<le> length (events_of ls)"
    "wy_run y = Running ch \<longrightarrow> \<not> ch_closed c \<and> mget (sm_subscribers (wy_sm y)) ch \<noteq> None"
    "List.map_filter json acc = delivered (ops_of ls) @ ch_buf (hb_broadcast (wy_hub y)) @ fwd_held (wy_fwd y) @ rest"
    "wy_fwd y \<noteq> FwdReturned \<longrightarrow> rest = List.map_filter json (ch_buf c)"
    "wy_run y = Running ch \<and> wy_fwd y \<noteq> FwdReturned \<and> length (events_of ls) \<le> 64 \<longrightarrow> acc = events_of ls"
    using assms unfolding pipe_def by blast
  define room where "room \<longleftrightarrow> mget (sm_subscribers (wy_sm y)) ch \<noteq> None \<and> \<not> ch_closed c \<and> length (ch_buf c) < 64"
  define c' where "c' = (if room then c\<lparr>ch_buf := ch_buf c @ [e]\<rparr> else c)"
  define acc' where "acc' = (if room then acc @ [e] else acc)"
  define rest' where "rest' = (if room then rest @ (case json e of None \<Rightarrow> [] | Some m \<Rightarrow> [m]) else rest)"
  have "mget (sm_chans (broadcast e (wy_sm y))) ch = Some c'"
    using p(4,5) by (auto simp: mget_broadcast deliver_def c'_def room_def)
  moreover have "subseq acc' (events_of ls @ [e])"
    using p(3) by (auto simp: acc'_def intro: list_emb_append_mono subseq_append_le_same_iff)
  moreover have "List.map_filter json acc' =
      delivered (ops_of ls) @ ch_buf (hb_broadcast (wy_hub y)) @ fwd_held (wy_fwd y) @ rest'"
    using p(8) by (simp add: acc'_def rest'_def map_filter_snoc)
  moreover have "wy_fwd y \<noteq> FwdReturned \<longrightarrow> rest' = List.map_filter json (ch_buf c')"
    using p(9) by (simp add: rest'_def c'_def map_filter_snoc)
  moreover have "acc' = events_of ls @ [e]"
    if "wy_run y = Running ch" "wy_fwd y \<noteq> FwdReturned" "Suc (length (events_of ls)) \<le> 64"
    using that p(6,7,10) by (simp add: acc'_def room_def)
  ultimately show ?thesis
    using p(1,2,5,6,7) unfolding pipe_def
    by (intro exI [of _ acc'] conjI exI [of _ h] exI [of _ c'] exI [of _ rest']) (auto simp: labels_append c'_def)
qed

lemma pipe_returns:
  assumes "pipe json ch h0 ls y acc" and "Run_return ch y = Inr y'"
  shows "pipe json ch h0 (ls @ [Internal]) y' acc"
  using assms
  by (auto simp: pipe_def Run_return_def Unsubscribe_def Let_def close_chan_def labels_append
      split: option.splits if_splits)

lemma pipe_step:
  assumes "ws_system_step json ch l y y'" and "pipe json ch h0 ls y acc"
  shows "\<exists>acc'. pipe json ch h0 (ls @ [l]) y' acc'"
  using assms(1)
proof (cases rule: ws_system_step.cases)
  case receives
  have "pipe json ch h0 (ls @ [Internal]) y' acc"
    by (rule pipe_internal [OF assms(2), of y' "hb_broadcast (wy_hub y)"])
      (use receives in \<open>auto simp: forward_receive_def Receive_def recv_chan_def fwd_held_def List.map_filter_simps
        split: option.splits list.splits if_splits\<close>)
  with receives(1) show ?thesis by blast
next
  case (sends data)
  obtain b where b: "send_chan data (hb_broadcast (wy_hub y)) = Inr b"
    "y' = y\<lparr>wy_hub := (wy_hub y)\<lparr>hb_broadcast := b\<rparr>, wy_fwd := FwdIdle\<rparr>"
    using sends(3) by (auto simp: forward_send_def split: sum.splits)
  have "pipe json ch h0 (ls @ [Internal]) y' acc"
    by (rule pipe_internal [OF assms(2), of y' b])
      (use b sends(2) in \<open>auto simp: send_chan_def fwd_held_def split: if_splits\<close>)
  with sends(1) show ?thesis by blast
next
  case (stops data)
  have "pipe json ch h0 (ls @ [Internal]) y' acc"
    by (rule pipe_internal [OF assms(2), of y' "hb_broadcast (wy_hub y)"])
      (use stops in \<open>auto simp: forward_stop_def fwd_held_def split: if_splits\<close>)
  with stops(1) show ?thesis by blast
next
  case takes
  obtain m b h where b: "recv_chan (hb_broadcast (wy_hub y)) = Some (m, b)"
    "hub_message m ((wy_hub y)\<lparr>hb_broadcast := b\<rparr>) = Inr h" "y' = y\<lparr>wy_hub := h\<rparr>"
    using takes(3) by (auto simp: Run_broadcast_def split: option.splits)
  then have buf: "ch_buf (hb_broadcast (wy_hub y)) = m # ch_buf b" by (auto simp: recv_chan_def split: list.splits)
  have "pipe json ch h0 (ls @ [HubOp (Deliver m)]) y' acc"
    using pipe_hub [OF assms(2), of "Deliver m" b h] b(2) buf by (simp add: b(3))
  with takes(1) buf show ?thesis by auto
next
  case (clients op c w h)
  have "delivered [op] = []" using clients(3) by auto
  then have "pipe json ch h0 (ls @ [HubOp op]) (y\<lparr>wy_hub := h\<rparr>) acc"
    using pipe_hub [OF assms(2), of op "hb_broadcast (wy_hub y)" h] clients(5) by simp
  with clients(1,2) show ?thesis by blast
next
  case stop
  have "pipe json ch h0 (ls @ [HubOp StopHub]) (y\<lparr>wy_hub := hub_Stop (wy_hub y)\<rparr>) acc"
    using pipe_hub [OF assms(2), of StopHub "hb_broadcast (wy_hub y)"] by simp
  with stop show ?thesis by blast
next
  case returns
  with pipe_returns [OF assms(2)] show ?thesis by blast
next
  case (changes e)
  with pipe_event [OF assms(2)] show ?thesis by blast
next
  case (elsewhere sm)
  have "pipe json ch h0 (ls @ [Internal]) y' acc"
    using assms(2) elsewhere by (simp add: pipe_def labels_append)
  with elsewhere(1) show ?thesis by blast
qed

lemma pipe_reach:
  assumes "ws_reach json y0 ch ls y" and "ch_buf (hb_broadcast (wy_hub y0)) = []" and "fst (Subscribe (wy_sm y0)) = ch"
  shows "\<exists>acc. pipe json ch (wy_hub y0) ls y acc"
  using assms(1) by (induction) (use pipe_start [OF assms(2,3)] pipe_step in blast)+

text \<open>
  C18: the changes of the cluster state reach a WebSocket client. In every run of the hub with its
  forwarder, what a registered connection was sent continues, without a gap and in order, the
  encodings of a subsequence of the changes; it is all the changes as long as no more than 64 have
  occurred, and when nothing waits in the channel, the forwarder or the hub, what the client was
  sent and what waits for it is the complete encoding of that subsequence.
\<close>

theorem ws_events_stream:
  assumes "ws_reach json y0 ch ls y" and "hub_inv (wy_hub y0)" and "ch_buf (hb_broadcast (wy_hub y0)) = []"
    and "fst (Subscribe (wy_sm y0)) = ch" and "ops_of ls = before @ Register c # after" and "hub_run before (wy_hub y0) = Inr h"
    and "c \<in> set (hb_registering h)"
  shows "\<exists>cl acc. mget (hb_heap (wy_hub y)) c = Some cl \<and> subseq acc (events_of ls) \<and>
    prefix (delivered before @ texts (wc_frames cl)) (List.map_filter json acc) \<and>
    (wy_run y = Running ch \<and> wy_fwd y \<noteq> FwdReturned \<and> length (events_of ls) \<le> 64 \<longrightarrow> acc = events_of ls) \<and>
    (wy_fwd y = FwdIdle \<and> map_option ch_buf (mget (sm_chans (wy_sm y)) ch) = Some [] \<and>
     ch_buf (hb_broadcast (wy_hub y)) = [] \<and> mget (hb_clients (wy_hub y)) c \<noteq> None \<and> wc_pumping cl \<longrightarrow>
       delivered before @ texts (wc_frames cl) @ ch_buf (wc_send cl) = List.map_filter json acc)"
proof -
  obtain acc where acc: "pipe json ch (wy_hub y0) ls y acc" using pipe_reach [OF assms(1,3,4)] by blast
  then obtain h' c' rest where p: "hub_run (ops_of ls) (wy_hub y0) = Inr h'"
    "wy_hub y = h'\<lparr>hb_broadcast := hb_broadcast (wy_hub y)\<rparr>" "subseq acc (events_of ls)"
    "mget (sm_chans (wy_sm y)) ch = Some c'"
    "List.map_filter json acc = delivered (ops_of ls) @ ch_buf (hb_broadcast (wy_hub y)) @ fwd_held (wy_fwd y) @ rest"
    "wy_fwd y \<noteq> FwdReturned \<longrightarrow> rest = List.map_filter json (ch_buf c')"
    "wy_run y = Running ch \<and> wy_fwd y \<noteq> FwdReturned \<and> length (events_of ls) \<le> 64 \<longrightarrow> acc = events_of ls"
    unfolding pipe_def by blast
  have same: "hb_heap (wy_hub y) = hb_heap h'" "hb_clients (wy_hub y) = hb_clients h'"
    by (subst p(2), simp)+
  have dl: "delivered (ops_of ls) = delivered before @ delivered after"
    using assms(5) delivered_Cons [of "Register c" after] by (simp add: delivered_append)
  have "hub_run (Register c # after) h = Inr h'" using p(1) assms(5,6) by (simp add: hub_run_append)
  from ws_client_stream [OF assms(2,6,7) this] obtain cl where cl: "mget (hb_heap h') c = Some cl"
    "prefix (texts (wc_frames cl)) (delivered after)"
    "mget (hb_clients h') c \<noteq> None \<and> wc_pumping cl \<longrightarrow> texts (wc_frames cl) @ ch_buf (wc_send cl) = delivered after"
    by blast
  have "prefix (delivered before @ texts (wc_frames cl)) (List.map_filter json acc)"
    using cl(2) by (simp add: p(5) dl)
  moreover have "delivered before @ texts (wc_frames cl) @ ch_buf (wc_send cl) = List.map_filter json acc"
    if "wy_fwd y = FwdIdle \<and> map_option ch_buf (mget (sm_chans (wy_sm y)) ch) = Some [] \<and>
      ch_buf (hb_broadcast (wy_hub y)) = [] \<and> mget (hb_clients (wy_hub y)) c \<noteq> None \<and> wc_pumping cl"
    using that cl(3) p(4,6) by (simp add: p(5) dl same fwd_held_def List.map_filter_simps)
  ultimately show ?thesis using cl(1) p(3,7) by (intro exI [of _ cl] exI [of _ acc]) (simp add: same)
qed

theorem ws_events_stream_witness:
  defines "y0 \<equiv> \<lparr>wy_hub = newWSHub [], wy_sm = NewStateManager 0 ''c'' ''a'', wy_run = NotRunning, wy_fwd = FwdNone\<rparr>"
  shows "\<exists>ls y cl. ws_reach (\<lambda>_. Some ''x'') y0 0 ls y \<and> mget (hb_heap (wy_hub y)) 0 = Some cl \<and>
    texts (wc_frames cl) @ ch_buf (wc_send cl) = [''x'']"
proof -
  let ?J = "\<lambda>_::NodeChangeEvent. Some ''x''"
  fix e :: NodeChangeEvent
  define y1 where "y1 = (Run_start y0)\<lparr>wy_hub := hub_register 0 (snd (ws_connect (newWSHub [])))\<rparr>"
  define y2 where "y2 = y1\<lparr>wy_sm := broadcast e (wy_sm y1)\<rparr>"
  note defs = y1_def y0_def Run_start_def Subscribe_def Let_def NewStateManager_def newWSHub_def ws_connect_def hub_register_def
  have g: "0 \<in> set (hb_registering (snd (ws_connect (newWSHub []))))" by (simp add: ws_connect_def newWSHub_def)
  have run0: "wy_run (Run_start y0) = Running 0" by (simp add: defs)
  have c: "mget (sm_chans (wy_sm y2)) 0 = Some ((make_chan 64)\<lparr>ch_buf := [e]\<rparr>)"
    by (simp add: y2_def mget_broadcast deliver_def defs)
  have run: "wy_run y2 = Running 0" "wy_hub y2 = wy_hub y1" by (simp_all add: y2_def defs)
  obtain y3 where y3: "forward_receive ?J 0 y2 = Some y3" "wy_fwd y3 = FwdHolds ''x''" "wy_run y3 = Running 0"
    "wy_hub y3 = wy_hub y1" "map_option ch_buf (mget (sm_chans (wy_sm y3)) 0) = Some []"
    using c run by (auto simp: forward_receive_def Receive_def recv_chan_def)
  define y4 where "y4 = y3\<lparr>wy_hub := (wy_hub y1)\<lparr>hb_broadcast := (make_chan 256)\<lparr>ch_buf := [''x'']\<rparr>\<rparr>, wy_fwd := FwdIdle\<rparr>"
  have y4: "forward_send ''x'' y3 = Some y4" using y3(4) by (simp add: y4_def forward_send_def send_chan_def defs)
  obtain y5 cl where y5: "Run_broadcast y4 = Some (Inr y5)" "wy_fwd y5 = FwdIdle" "wy_run y5 = Running 0"
    "wy_sm y5 = wy_sm y3" "ch_buf (hb_broadcast (wy_hub y5)) = []"
    "mget (hb_heap (wy_hub y5)) 0 = Some cl" "mget (hb_clients (wy_hub y5)) 0 \<noteq> None" "wc_pumping cl"
    using y3(3) by (fastforce simp: y4_def Run_broadcast_def recv_chan_def hub_message_def mentries_put send_chan_def defs)
  let ?ls = "[HubOp Connect, HubOp (Register 0), Event e, Internal, Internal, HubOp (Deliver ''x'')]"
  have "ws_reach ?J y0 0 (((((([] @ [HubOp Connect]) @ [HubOp (Register 0)]) @ [Event e]) @ [Internal]) @ [Internal]) @
      [HubOp (Deliver (hd (ch_buf (hb_broadcast (wy_hub y4)))))]) y5"
  proof (intro ws_reach.steps)
    show "ws_reach ?J y0 0 [] (Run_start y0)" by (rule ws_reach.started)
    show "ws_system_step ?J 0 (HubOp Connect) (Run_start y0) ((Run_start y0)\<lparr>wy_hub := snd (ws_connect (newWSHub []))\<rparr>)"
      by (rule ws_system_step.clients) (simp_all add: Run_start_def Subscribe_def Let_def y0_def)
    show "ws_system_step ?J 0 (HubOp (Register 0)) ((Run_start y0)\<lparr>wy_hub := snd (ws_connect (newWSHub []))\<rparr>) y1"
      using ws_system_step.clients [of "Register 0" 0 undefined "(Run_start y0)\<lparr>wy_hub := snd (ws_connect (newWSHub []))\<rparr>" 0] run0 g
      by (simp add: y1_def)
    show "ws_system_step ?J 0 (Event e) y1 y2" unfolding y2_def by (rule ws_system_step.changes)
    show "ws_system_step ?J 0 Internal y2 y3"
      by (rule ws_system_step.receives [OF _ y3(1)]) (simp add: y2_def y1_def Run_start_def Subscribe_def Let_def)
    show "ws_system_step ?J 0 Internal y3 y4" by (rule ws_system_step.sends [OF y3(2) y4])
    show "ws_system_step ?J 0 (HubOp (Deliver (hd (ch_buf (hb_broadcast (wy_hub y4)))))) y4 y5"
      by (rule ws_system_step.takes [OF _ y5(1)]) (simp add: y4_def y3(3))
  qed
  then have r: "ws_reach ?J y0 0 ?ls y5" by (simp add: y4_def)
  have a: "hub_inv (wy_hub y0)" "ch_buf (hb_broadcast (wy_hub y0)) = []" "fst (Subscribe (wy_sm y0)) = 0"
    by (simp_all add: y0_def hub_inv_new) (simp_all add: newWSHub_def Subscribe_def NewStateManager_def Let_def)
  have o: "ops_of ?ls = [Connect] @ Register 0 # [Deliver ''x'']" "hub_run [Connect] (wy_hub y0) = Inr (snd (ws_connect (newWSHub [])))"
    by (simp_all add: ws_connect_def newWSHub_def y0_def)
  from ws_events_stream [OF r a o g] r y5 y3(5) show ?thesis by (auto simp: List.map_filter_simps)
qed

text \<open>
  C22: the hub shuts down cleanly from every reachable state: once it is stopped, \<^verbatim>\<open>Run\<close> can
  return (its unsubscription does not panic, whatever it was doing), and then its forwarder ends
  too, also when it is blocked on the full buffer of the hub or has events left to read.
\<close>

theorem ws_shutdown:
  assumes "ws_reach json y0 ch ls y" and "hub_inv (wy_hub y0)" and "fst (Subscribe (wy_sm y0)) = ch"
    and "hb_stopped (wy_hub y)"
  shows "(wy_run y = Running ch \<longrightarrow> (\<exists>y'. Run_return ch y = Inr y')) \<and>
    (\<exists>y'. (ws_moves json ch)\<^sup>*\<^sup>* y y' \<and> wy_run y' = RunReturned \<and> wy_fwd y' = FwdReturned)"
proof -
  have inv: "ws_system_inv ch y" by (rule ws_reach_inv [OF assms(1-3)])
  then obtain c where c: "mget (sm_chans (wy_sm y)) ch = Some c"
    "wy_run y = Running ch \<and> \<not> ch_closed c \<or> wy_run y = RunReturned"
    by (auto simp: ws_system_inv_def)
  have ret: "\<exists>y'. Run_return ch y = Inr y' \<and> wy_run y' = RunReturned" if "wy_run y = Running ch"
    using that c by (auto simp: Run_return_def Unsubscribe_def Let_def close_chan_def)
  obtain y1 where y1: "(ws_moves json ch)\<^sup>*\<^sup>* y y1" "ws_system_inv ch y1" "wy_run y1 = RunReturned"
  proof (cases "wy_run y = Running ch")
    case True
    then obtain y' where y': "Run_return ch y = Inr y'" "wy_run y' = RunReturned" using ret by blast
    have "ws_system_step json ch Internal y y'" by (rule ws_system_step.returns [OF True assms(4) y'(1)])
    with that y'(2) sys_step [OF _ inv] show ?thesis by blast
  next
    case False
    with that inv c(2) show ?thesis by blast
  qed
  from forwarder_ends [OF y1(2,3)] y1(1) ret show ?thesis by (meson rtranclp_trans)
qed

theorem ws_shutdown_witness:
  defines "y0 \<equiv> \<lparr>wy_hub = newWSHub [], wy_sm = NewStateManager 0 ''c'' ''a'', wy_run = NotRunning, wy_fwd = FwdNone\<rparr>"
  shows "\<exists>y'. (ws_moves (\<lambda>_. None) 0)\<^sup>*\<^sup>* ((Run_start y0)\<lparr>wy_hub := hub_Stop (newWSHub [])\<rparr>) y' \<and>
    wy_run y' = RunReturned \<and> wy_fwd y' = FwdReturned"
proof -
  have hub: "wy_hub (Run_start y0) = newWSHub []" by (simp add: y0_def Run_start_def Subscribe_def Let_def)
  have "ws_reach (\<lambda>_. None) y0 0 ([] @ [HubOp StopHub]) ((Run_start y0)\<lparr>wy_hub := hub_Stop (wy_hub (Run_start y0))\<rparr>)"
    by (rule ws_reach.steps [OF ws_reach.started ws_system_step.stop])
  moreover have "hub_inv (wy_hub y0)" by (simp add: y0_def hub_inv_new)
  moreover have "fst (Subscribe (wy_sm y0)) = 0" by (simp add: y0_def Subscribe_def NewStateManager_def Let_def)
  moreover have "hb_stopped (wy_hub ((Run_start y0)\<lparr>wy_hub := hub_Stop (wy_hub (Run_start y0))\<rparr>))" by simp
  ultimately show ?thesis using ws_shutdown unfolding hub by blast
qed

text \<open>
  After \<open>Run\<close> has returned nobody receives from \<^verbatim>\<open>register\<close>: a handler that waits there waits for ever.
\<close>

lemma late_connection_blocks:
  assumes "(ws_moves json ch)\<^sup>*\<^sup>* y y'" and "wy_run y = RunReturned" and "c \<in> set (hb_registering (wy_hub y))"
  shows "wy_run y' = RunReturned \<and> c \<in> set (hb_registering (wy_hub y'))"
  using assms
proof (induction rule: rtranclp_induct)
  case base
  then show ?case by simp
next
  case (step y1 y2)
  then have y1: "wy_run y1 = RunReturned" "c \<in> set (hb_registering (wy_hub y1))" by simp_all
  obtain l where "ws_system_step json ch l y1 y2" using step.hyps(2) by blast
  then show ?case
  proof (cases rule: ws_system_step.cases)
    case receives
    with y1 show ?thesis by (auto simp: forward_receive_def split: option.splits if_splits)
  next
    case (clients op k w h)
    with y1 show ?thesis
      by (auto simp: ws_connect_def Let_def hub_pump_def readPump_exit_def split: option.splits if_splits)
  qed (use y1 in \<open>auto simp: forward_send_def forward_stop_def split: sum.splits if_splits\<close>)
qed

end
