(* ===== verification/Message.thy ===== *)
theory Message
  imports Models
begin

text \<open>
  \<^verbatim>\<open>pkg/gossip/message.go\<close>: the messages of the gossip protocol. The wire format is that of
  the third-party package msgpack, so its \<^verbatim>\<open>Marshal\<close> and \<^verbatim>\<open>Unmarshal\<close> are a
  parameter: a record \<open>msgpack\<close> over a type \<open>'b\<close> of encodings. \<open>Marshal\<close> takes any
  value the program encodes (a \<open>payload\<close>); there is one decoder per target type. What the
  program relies on is \<open>msgpack_ok\<close>: decoding an encoded value gives a value that reads the
  same. An element of a list of pointers may be nil, hence the options.
\<close>

type_synonym uint8 = "8 word"

abbreviation MsgNodeState :: uint8 where "MsgNodeState \<equiv> 0"
abbreviation MsgClusterSync :: uint8 where "MsgClusterSync \<equiv> 1"
abbreviation MsgHeartbeat :: uint8 where "MsgHeartbeat \<equiv> 2"
abbreviation MsgDiscovery :: uint8 where "MsgDiscovery \<equiv> 3"
abbreviation MsgHistoryPullRequest :: uint8 where "MsgHistoryPullRequest \<equiv> 4"
abbreviation MsgHistoryPullResponse :: uint8 where "MsgHistoryPullResponse \<equiv> 5"

record 'b GossipMessage =
  gm_Type :: uint8
  gm_FromNode :: string
  gm_Timestamp :: i64
  gm_Payload :: 'b

record NodeStatePayload =
  np_State :: "NodeState option"

record ClusterSyncPayload =
  cp_Nodes :: "NodeState option list"

record HistoryPullRequestPayload =
  rq_RequestID :: string
  rq_SinceUnixNano :: i64
  rq_Offset :: i64
  rq_Limit :: i64

record HistoryPullResponsePayload =
  rp_RequestID :: string
  rp_Records :: "HistoryRecord list"
  rp_HasMore :: bool
  rp_NextOffset :: i64
  rp_TotalCount :: i64

record DiscoveryMessage =
  dm_NodeID :: string
  dm_ClusterName :: string
  dm_GossipAddr :: string
  dm_Timestamp :: i64

datatype payload =
    PNodeState NodeStatePayload
  | PClusterSync ClusterSyncPayload
  | PHistoryPullRequest HistoryPullRequestPayload
  | PHistoryPullResponse HistoryPullResponsePayload
  | PDiscovery DiscoveryMessage

record 'b msgpack =
  mp_MarshalMessage :: "'b GossipMessage \<Rightarrow> string + 'b"
  mp_MarshalPayload :: "payload \<Rightarrow> string + 'b"
  mp_UnmarshalMessage :: "'b \<Rightarrow> string + 'b GossipMessage"
  mp_UnmarshalNodeState :: "'b \<Rightarrow> string + NodeStatePayload"
  mp_UnmarshalClusterSync :: "'b \<Rightarrow> string + ClusterSyncPayload"
  mp_UnmarshalHistoryPullRequest :: "'b \<Rightarrow> string + HistoryPullRequestPayload"
  mp_UnmarshalHistoryPullResponse :: "'b \<Rightarrow> string + HistoryPullResponsePayload"
  mp_UnmarshalDiscovery :: "'b \<Rightarrow> string + DiscoveryMessage"

definition EncodeMessage :: "'b msgpack \<Rightarrow> 'b GossipMessage \<Rightarrow> string + 'b" where
  "EncodeMessage M msg = mp_MarshalMessage M msg"

definition DecodeMessage :: "'b msgpack \<Rightarrow> 'b \<Rightarrow> string + 'b GossipMessage" where
  "DecodeMessage M data = (case mp_UnmarshalMessage M data of Inl err \<Rightarrow> Inl err | Inr msg \<Rightarrow> Inr msg)"

definition EncodePayload :: "'b msgpack \<Rightarrow> payload \<Rightarrow> string + 'b" where
  "EncodePayload M v = mp_MarshalPayload M v"

text \<open>The type of the target decides the decoder.\<close>

definition DecodePayload :: "('b \<Rightarrow> string + 'a) \<Rightarrow> 'b \<Rightarrow> string + 'a" where
  [simp]: "DecodePayload unmarshal data = unmarshal data"

definition NewGossipMessage :: "gotime \<Rightarrow> uint8 \<Rightarrow> string \<Rightarrow> 'b \<Rightarrow> 'b GossipMessage" where
  "NewGossipMessage now msgType fromNode payload =
     \<lparr>gm_Type = msgType, gm_FromNode = fromNode, gm_Timestamp = UnixNano now, gm_Payload = payload\<rparr>"

text \<open>The two encoding steps every sender makes.\<close>

definition encode_gossip :: "'b msgpack \<Rightarrow> gotime \<Rightarrow> uint8 \<Rightarrow> string \<Rightarrow> payload \<Rightarrow> string + 'b" where
  "encode_gossip M now msgType fromNode p =
     (case EncodePayload M p of
        Inl err \<Rightarrow> Inl err
      | Inr bytes \<Rightarrow> EncodeMessage M (NewGossipMessage now msgType fromNode bytes))"

section \<open>What the program relies on\<close>

text \<open>
  A decoded node state may list its clock in another order, so it is compared by its fields and
  its clock as a function; the other payloads hold no map.
\<close>

definition same_node :: "NodeState option \<Rightarrow> NodeState option \<Rightarrow> bool" where
  "same_node x y \<longleftrightarrow>
     map_option (\<lambda>ns. (ns\<lparr>ns_Clock := None\<rparr>, gget (ns_Clock ns))) x =
     map_option (\<lambda>ns. (ns\<lparr>ns_Clock := None\<rparr>, gget (ns_Clock ns))) y"

definition msgpack_ok :: "'b msgpack \<Rightarrow> bool" where
  "msgpack_ok M \<longleftrightarrow>
     (\<forall>m b. mp_MarshalMessage M m = Inr b \<longrightarrow> mp_UnmarshalMessage M b = Inr m) \<and>
     (\<forall>p b. mp_MarshalPayload M (PNodeState p) = Inr b \<longrightarrow>
        (\<exists>q. mp_UnmarshalNodeState M b = Inr q \<and> same_node (np_State q) (np_State p))) \<and>
     (\<forall>p b. mp_MarshalPayload M (PClusterSync p) = Inr b \<longrightarrow>
        (\<exists>q. mp_UnmarshalClusterSync M b = Inr q \<and> list_all2 same_node (cp_Nodes q) (cp_Nodes p))) \<and>
     (\<forall>p b. mp_MarshalPayload M (PHistoryPullRequest p) = Inr b \<longrightarrow>
        mp_UnmarshalHistoryPullRequest M b = Inr p) \<and>
     (\<forall>p b. mp_MarshalPayload M (PHistoryPullResponse p) = Inr b \<longrightarrow>
        mp_UnmarshalHistoryPullResponse M b = Inr p) \<and>
     (\<forall>p b. mp_MarshalPayload M (PDiscovery p) = Inr b \<longrightarrow> mp_UnmarshalDiscovery M b = Inr p)"

lemma msgpack_okD:
  assumes "msgpack_ok M"
  shows "mp_MarshalMessage M m = Inr b \<Longrightarrow> mp_UnmarshalMessage M b = Inr m"
    and "mp_MarshalPayload M (PNodeState p1) = Inr b \<Longrightarrow>
        \<exists>q. mp_UnmarshalNodeState M b = Inr q \<and> same_node (np_State q) (np_State p1)"
    and "mp_MarshalPayload M (PClusterSync p2) = Inr b \<Longrightarrow>
        \<exists>q. mp_UnmarshalClusterSync M b = Inr q \<and> list_all2 same_node (cp_Nodes q) (cp_Nodes p2)"
    and "mp_MarshalPayload M (PHistoryPullRequest p3) = Inr b \<Longrightarrow>
        mp_UnmarshalHistoryPullRequest M b = Inr p3"
    and "mp_MarshalPayload M (PHistoryPullResponse p4) = Inr b \<Longrightarrow>
        mp_UnmarshalHistoryPullResponse M b = Inr p4"
    and "mp_MarshalPayload M (PDiscovery p5) = Inr b \<Longrightarrow> mp_UnmarshalDiscovery M b = Inr p5"
  using assms by (simp_all add: msgpack_ok_def)

lemma encode_gossip_decode:
  assumes "msgpack_ok M" and "encode_gossip M now ty from p = Inr b"
  shows "\<exists>bytes. mp_MarshalPayload M p = Inr bytes \<and>
    DecodeMessage M b = Inr (NewGossipMessage now ty from bytes)"
  using assms(2) msgpack_okD(1) [OF assms(1)]
  by (auto simp: encode_gossip_def EncodePayload_def EncodeMessage_def DecodeMessage_def split: sum.splits)

lemma same_node_refl [simp]: "same_node x x"
  by (simp add: same_node_def)

section \<open>An encoding for the witnesses\<close>

text \<open>Encodings as the encoded values themselves, each tagged with its type.\<close>

datatype wire = WPayload payload | WMessage uint8 string i64 wire

definition wire_pack :: "wire msgpack" where
  "wire_pack = \<lparr>
     mp_MarshalMessage = (\<lambda>m. Inr (WMessage (gm_Type m) (gm_FromNode m) (gm_Timestamp m) (gm_Payload m))),
     mp_MarshalPayload = (\<lambda>p. Inr (WPayload p)),
     mp_UnmarshalMessage = (\<lambda>b. case b of
        WMessage ty fr ts p \<Rightarrow> Inr \<lparr>gm_Type = ty, gm_FromNode = fr, gm_Timestamp = ts, gm_Payload = p\<rparr>
      | _ \<Rightarrow> Inl ''msgpack: invalid code''),
     mp_UnmarshalNodeState = (\<lambda>b. case b of WPayload (PNodeState p) \<Rightarrow> Inr p | _ \<Rightarrow> Inl ''msgpack: invalid code''),
     mp_UnmarshalClusterSync =
       (\<lambda>b. case b of WPayload (PClusterSync p) \<Rightarrow> Inr p | _ \<Rightarrow> Inl ''msgpack: invalid code''),
     mp_UnmarshalHistoryPullRequest =
       (\<lambda>b. case b of WPayload (PHistoryPullRequest p) \<Rightarrow> Inr p | _ \<Rightarrow> Inl ''msgpack: invalid code''),
     mp_UnmarshalHistoryPullResponse =
       (\<lambda>b. case b of WPayload (PHistoryPullResponse p) \<Rightarrow> Inr p | _ \<Rightarrow> Inl ''msgpack: invalid code''),
     mp_UnmarshalDiscovery = (\<lambda>b. case b of WPayload (PDiscovery p) \<Rightarrow> Inr p | _ \<Rightarrow> Inl ''msgpack: invalid code'')\<rparr>"

lemma wire_pack_ok: "msgpack_ok wire_pack"
  by (auto simp: msgpack_ok_def wire_pack_def list_all2_refl)

end
