(* ===== verification/Gossip.thy ===== *)
theory Gossip
  imports Message Convergence
begin

text \<open>
  \<^verbatim>\<open>pkg/gossip/gossip.go\<close>: broadcasting the local state, the periodic exchange of cluster
  states, the handlers of received messages and the pulling of history pages from a peer when a
  node joins. The third-party package memberlist is a parameter: a record \<open>net\<close> of the
  calls the program makes, over a type \<open>'m\<close> of network states.

  \<^verbatim>\<open>pendingSyncs\<close> maps request identifiers to pointers, and a pointer outlives its entry
  (a goroutine may still hold it), so the \<^verbatim>\<open>pendingSync\<close> objects live in a heap
  \<open>gp_heap\<close> under their addresses. A \<^verbatim>\<open>go\<close> statement adds to \<open>gp_go\<close> what
  the new goroutine will do. A handler takes the readings it makes of the clock.
\<close>

section \<open>The network\<close>

record member =
  mb_Name :: string
  mb_Addr :: string

record 'b simpleBroadcast =
  sb_msg :: 'b
  sb_nodeID :: string

record ('m, 'b) net =
  ml_Members :: "'m \<Rightarrow> member list"
  ml_NumMembers :: "'m \<Rightarrow> int"
  ml_SendReliable :: "member \<Rightarrow> 'b \<Rightarrow> 'm \<Rightarrow> string option \<times> 'm"
  ml_QueueBroadcast :: "'b simpleBroadcast \<Rightarrow> 'm \<Rightarrow> 'm"
  ml_GetBroadcasts :: "int \<Rightarrow> int \<Rightarrow> 'm \<Rightarrow> 'b list \<times> 'm"

text \<open>
  The methods of \<^verbatim>\<open>simpleBroadcast\<close>; a broadcast of another type is \<open>None\<close>.
\<close>

definition Invalidates :: "'b simpleBroadcast \<Rightarrow> 'b simpleBroadcast option \<Rightarrow> bool" where
  "Invalidates b other = (case other of None \<Rightarrow> False | Some other' \<Rightarrow> sb_nodeID b = sb_nodeID other')"

definition Message :: "'b simpleBroadcast \<Rightarrow> 'b" where
  "Message b = sb_msg b"

section \<open>The manager\<close>

datatype sync_error =
    StoreError db_error
  | CodecError string
  | SendError string
  | TooManyPages
  | ContextError string
  | SyncTimeout

record pendingSync =
  ps_reqID :: string
  ps_peer :: member
  ps_offset :: i64
  ps_limit :: i64
  ps_total :: i64
  ps_done :: "sync_error option chan"

datatype goroutine = GoStart nat | GoSend nat

record ('m, 'db) gossip =
  gp_list :: 'm
  gp_sm :: StateManager
  gp_localNode :: string
  gp_store :: "'db option"
  gp_pendingSyncs :: "(string, nat) alist"
  gp_heap :: "(nat, pendingSync) alist"
  gp_go :: "goroutine list"

definition deref :: "nat \<Rightarrow> ('m, 'db) gossip \<Rightarrow> (pendingSync \<Rightarrow> 'a go) \<Rightarrow> 'a go" where
  "deref a g f = (case mget (gp_heap g) a of None \<Rightarrow> Inl NilDereference | Some ps \<Rightarrow> f ps)"

section \<open>Broadcasting and anti-entropy\<close>

definition NumMembers :: "('m, 'b) net \<Rightarrow> ('m, 'db) gossip \<Rightarrow> int" where
  "NumMembers N g = ml_NumMembers N (gp_list g)"

definition Members :: "('m, 'b) net \<Rightarrow> ('m, 'db) gossip \<Rightarrow> member list" where
  "Members N g = ml_Members N (gp_list g)"

definition BroadcastLocalState ::
    "'b msgpack \<Rightarrow> ('m, 'b) net \<Rightarrow> gotime \<Rightarrow> NodeState \<Rightarrow> ('m, 'db) gossip \<Rightarrow> string option \<times> ('m, 'db) gossip" where
  "BroadcastLocalState M N now ns g =
     (case EncodePayload M (PNodeState \<lparr>np_State = Some ns\<rparr>) of
        Inl err \<Rightarrow> (Some (''failed to encode state: '' @ err), g)
      | Inr payload \<Rightarrow>
          (case EncodeMessage M (NewGossipMessage now MsgNodeState (gp_localNode g) payload) of
             Inl err \<Rightarrow> (Some (''failed to encode message: '' @ err), g)
           | Inr data \<Rightarrow>
               (None, g\<lparr>gp_list := ml_QueueBroadcast N \<lparr>sb_msg = data, sb_nodeID = ns_NodeID ns\<rparr> (gp_list g)\<rparr>)))"

definition mapToSlice :: "(string, NodeState) alist \<Rightarrow> NodeState option list" where
  "mapToSlice nodes = List.map (\<lambda>(_, ns). Some ns) (mentries nodes)"

text \<open>\<open>None\<close> is the nil slice the function returns when the encoding fails.\<close>

definition getClusterStateJSON :: "'b msgpack \<Rightarrow> gotime \<Rightarrow> ('m, 'db) gossip \<Rightarrow> 'b option" where
  "getClusterStateJSON M now g =
     (let cs = GetClusterState (gp_sm g) in
      case EncodePayload M (PClusterSync \<lparr>cp_Nodes = mapToSlice (cs_Nodes cs)\<rparr>) of
        Inl _ \<Rightarrow> None
      | Inr payload \<Rightarrow>
          (case EncodeMessage M (NewGossipMessage now MsgClusterSync (gp_localNode g) payload) of
             Inl _ \<Rightarrow> None
           | Inr data \<Rightarrow> Some data))"

text \<open>One tick of \<^verbatim>\<open>antiEntropyLoop\<close>; \<open>idx\<close> is the random number it draws.\<close>

definition antiEntropy_tick ::
    "'b msgpack \<Rightarrow> ('m, 'b) net \<Rightarrow> gotime \<Rightarrow> nat \<Rightarrow> ('m, 'db) gossip \<Rightarrow> ('m, 'db) gossip" where
  "antiEntropy_tick M N now idx g =
     (let members = ml_Members N (gp_list g) in
      if length members \<le> 1 then g
      else
        let target = members ! (idx mod length members) in
        if mb_Name target = gp_localNode g then g
        else
          (case getClusterStateJSON M now g of
             None \<Rightarrow> g
           | Some state \<Rightarrow>
               (let (_, net') = ml_SendReliable N target state (gp_list g) in g\<lparr>gp_list := net'\<rparr>)))"

section \<open>Pulling history from a peer\<close>

definition failPendingSync ::
    "nat \<Rightarrow> sync_error option \<Rightarrow> ('m, 'db) gossip \<Rightarrow> ('m, 'db) gossip go" where
  "failPendingSync a err g = deref a g (\<lambda>ps.
     if mget (gp_pendingSyncs g) (ps_reqID ps) \<noteq> None then
       (let g1 = g\<lparr>gp_pendingSyncs := mdel (ps_reqID ps) (gp_pendingSyncs g)\<rparr> in
        go_bind (send_chan err (ps_done ps)) (\<lambda>ch.
        go_bind (close_chan ch) (\<lambda>ch'.
        Inr (g1\<lparr>gp_heap := mput a (ps\<lparr>ps_done := ch'\<rparr>) (gp_heap g1)\<rparr>))))
     else Inr g)"

definition history_request :: "StateManager \<Rightarrow> pendingSync \<Rightarrow> HistoryPullRequestPayload" where
  "history_request sm ps =
     (let syncTime = GetHistorySyncTime sm;
          sinceNano = (if IsZero syncTime then i64_of 0 else UnixNano syncTime)
      in \<lparr>rq_RequestID = ps_reqID ps, rq_SinceUnixNano = sinceNano,
          rq_Offset = ps_offset ps, rq_Limit = i64_of 500\<rparr>)"

definition sendHistoryPullRequest ::
    "'b msgpack \<Rightarrow> ('m, 'b) net \<Rightarrow> gotime \<Rightarrow> nat \<Rightarrow> ('m, 'db) gossip \<Rightarrow> ('m, 'db) gossip go" where
  "sendHistoryPullRequest M N now a g = deref a g (\<lambda>ps.
     case EncodePayload M (PHistoryPullRequest (history_request (gp_sm g) ps)) of
       Inl err \<Rightarrow> failPendingSync a (Some (CodecError err)) g
     | Inr reqPayload \<Rightarrow>
         (case EncodeMessage M (NewGossipMessage now MsgHistoryPullRequest (gp_localNode g) reqPayload) of
            Inl err \<Rightarrow> failPendingSync a (Some (CodecError err)) g
          | Inr data \<Rightarrow>
              (case ml_SendReliable N (ps_peer ps) data (gp_list g) of
                 (Some err, net') \<Rightarrow> failPendingSync a (Some (SendError err)) (g\<lparr>gp_list := net'\<rparr>)
               | (None, net') \<Rightarrow> Inr (g\<lparr>gp_list := net'\<rparr>))))"

text \<open>
  \<^verbatim>\<open>SyncHistoryOnJoin\<close> up to the wait: the address of the new pending sync, or \<open>None\<close>
  when there is no peer and the function returns nil at once.
\<close>

definition SyncHistoryOnJoin_start ::
    "('m, 'b) net \<Rightarrow> gotime \<Rightarrow> ('m, 'db) gossip \<Rightarrow> nat option \<times> ('m, 'db) gossip" where
  "SyncHistoryOnJoin_start N now g =
     (let members = ml_Members N (gp_list g) in
      if length members \<le> 1 then (None, g)
      else
        (case find (\<lambda>m. mb_Name m \<noteq> gp_localNode g) members of
           None \<Rightarrow> (None, g)
         | Some peer \<Rightarrow>
             (let reqID = gp_localNode g @ ''-'' @ show_int (i64_int (UnixNano now));
                  a = length (mentries (gp_heap g));
                  ps = \<lparr>ps_reqID = reqID, ps_peer = peer, ps_offset = i64_of 0, ps_limit = i64_of 500,
                        ps_total = i64_of 0, ps_done = make_chan 1\<rparr>
              in (Some a, g\<lparr>gp_heap := mput a ps (gp_heap g),
                            gp_pendingSyncs := mput reqID a (gp_pendingSyncs g),
                            gp_go := gp_go g @ [GoStart a]\<rparr>))))"

text \<open>
  The wait: the outcome of the \<^verbatim>\<open>select\<close> is the case that was ready. \<open>None\<close> means that
  the chosen case was not ready.
\<close>

datatype wake = WakeDone | WakeContext string | WakeTimer

definition SyncHistoryOnJoin_wait ::
    "nat \<Rightarrow> wake \<Rightarrow> ('m, 'db) gossip \<Rightarrow> (sync_error option \<times> ('m, 'db) gossip) option" where
  "SyncHistoryOnJoin_wait a w g =
     (case mget (gp_heap g) a of
        None \<Rightarrow> None
      | Some ps \<Rightarrow>
          (let forget = g\<lparr>gp_pendingSyncs := mdel (ps_reqID ps) (gp_pendingSyncs g)\<rparr> in
           case w of
             WakeDone \<Rightarrow>
               (case recv_chan (ps_done ps) of
                  None \<Rightarrow> None
                | Some (err, ch) \<Rightarrow> Some (err, g\<lparr>gp_heap := mput a (ps\<lparr>ps_done := ch\<rparr>) (gp_heap g)\<rparr>))
           | WakeContext e \<Rightarrow> Some (Some (ContextError e), forget)
           | WakeTimer \<Rightarrow> Some (Some SyncTimeout, forget)))"

text \<open>What a spawned goroutine does; \<open>ctx\<close> is the error of a context that is done.\<close>

fun run_goroutine ::
    "'b msgpack \<Rightarrow> ('m, 'b) net \<Rightarrow> gotime \<Rightarrow> string option \<Rightarrow> goroutine \<Rightarrow> ('m, 'db) gossip
       \<Rightarrow> ('m, 'db) gossip go" where
  "run_goroutine M N now ctx (GoStart a) g =
     (case ctx of
        Some e \<Rightarrow> failPendingSync a (Some (ContextError e)) g
      | None \<Rightarrow> sendHistoryPullRequest M N now a g)"
| "run_goroutine M N now ctx (GoSend a) g = sendHistoryPullRequest M N now a g"

subsection \<open>The peer's side\<close>

definition page_since :: "HistoryPullRequestPayload \<Rightarrow> gotime" where
  "page_since payload =
     (if 0 < i64_int (rq_SinceUnixNano payload) then time_Unix0 (rq_SinceUnixNano payload) else time_zero)"

definition request_limit :: "HistoryPullRequestPayload \<Rightarrow> int" where
  "request_limit payload =
     (let limit = i64_int (rq_Limit payload) in if limit \<le> 0 \<or> limit > 500 then 500 else limit)"

definition page_response ::
    "HistoryPullRequestPayload \<Rightarrow> HistoryRecord list \<Rightarrow> HistoryPullResponsePayload" where
  "page_response payload records =
     \<lparr>rp_RequestID = rq_RequestID payload, rp_Records = records,
      rp_HasMore = (int (length records) = request_limit payload),
      rp_NextOffset = i64_add (rq_Offset payload) (i64_of (int (length records))),
      rp_TotalCount = i64_of (-1)\<rparr>"

definition handleHistoryPullRequest ::
    "'db gorm \<Rightarrow> 'b msgpack \<Rightarrow> ('m, 'b) net \<Rightarrow> gotime \<Rightarrow> HistoryPullRequestPayload \<Rightarrow> string
       \<Rightarrow> ('m, 'db) gossip \<Rightarrow> ('m, 'db) gossip go" where
  "handleHistoryPullRequest D M N now payload fromNode g =
     (case gp_store g of
        None \<Rightarrow> Inl NilDereference
      | Some d \<Rightarrow>
          (case GetAllHistorySince D (page_since payload) (i64_int (rq_Offset payload)) (request_limit payload) d of
             Inl _ \<Rightarrow> Inr g
           | Inr records \<Rightarrow>
               (case EncodePayload M (PHistoryPullResponse (page_response payload records)) of
                  Inl _ \<Rightarrow> Inr g
                | Inr respPayload \<Rightarrow>
                    (case EncodeMessage M
                            (NewGossipMessage now MsgHistoryPullResponse (gp_localNode g) respPayload) of
                       Inl _ \<Rightarrow> Inr g
                     | Inr data \<Rightarrow>
                         (case find (\<lambda>m. mb_Name m = fromNode) (ml_Members N (gp_list g)) of
                            None \<Rightarrow> Inr g
                          | Some member \<Rightarrow>
                              (let (_, net') = ml_SendReliable N member data (gp_list g)
                               in Inr (g\<lparr>gp_list := net'\<rparr>)))))))"

subsection \<open>The requester's side\<close>

text \<open>A nil store panics as soon as the database is touched; an empty import touches nothing.\<close>

definition import_page ::
    "'db gorm \<Rightarrow> HistoryRecord list \<Rightarrow> 'db option \<Rightarrow> ((i64 \<times> db_error option) \<times> 'db option) go" where
  "import_page D records store =
     (case store of
        None \<Rightarrow> if records = [] then Inr ((i64_of 0, None), None) else Inl NilDereference
      | Some d \<Rightarrow> (let (res, d') = ImportHistoryRecords D records d in Inr (res, Some d')))"

definition resp_advance ::
    "nat \<Rightarrow> HistoryPullResponsePayload \<Rightarrow> i64 \<Rightarrow> ('m, 'db) gossip \<Rightarrow> ('m, 'db) gossip go" where
  "resp_advance a payload inserted g = deref a g (\<lambda>ps.
     Inr (g\<lparr>gp_heap := mput a
       (ps\<lparr>ps_total := i64_add (ps_total ps) inserted,
           ps_offset := (if rp_HasMore payload then rp_NextOffset payload else ps_offset ps)\<rparr>) (gp_heap g)\<rparr>))"

definition resp_more :: "nat \<Rightarrow> ('m, 'db) gossip \<Rightarrow> ('m, 'db) gossip go" where
  "resp_more a g = deref a g (\<lambda>ps.
     go_bind (i64_quot (ps_offset ps) (ps_limit ps)) (\<lambda>pages.
       if 100 \<le> i64_int pages then failPendingSync a (Some TooManyPages) g
       else if mget (gp_pendingSyncs g) (ps_reqID ps) = None then Inr g
       else Inr (g\<lparr>gp_go := gp_go g @ [GoSend a]\<rparr>)))"

definition resp_last :: "'db gorm \<Rightarrow> nat \<Rightarrow> ('m, 'db) gossip \<Rightarrow> ('m, 'db) gossip go" where
  "resp_last D a g =
     (case gp_store g of
        None \<Rightarrow> Inl NilDereference
      | Some d \<Rightarrow>
          failPendingSync a None
            (case GetLatestHistoryTime D d of
               Inl _ \<Rightarrow> g
             | Inr latestTime \<Rightarrow>
                 if IsZero latestTime then g
                 else g\<lparr>gp_sm := SetHistorySyncTime latestTime (gp_sm g)\<rparr>))"

definition handleHistoryPullResponse ::
    "'db gorm \<Rightarrow> HistoryPullResponsePayload \<Rightarrow> ('m, 'db) gossip \<Rightarrow> ('m, 'db) gossip go" where
  "handleHistoryPullResponse D payload g =
     (case mget (gp_pendingSyncs g) (rp_RequestID payload) of
        None \<Rightarrow> Inr g
      | Some a \<Rightarrow>
          go_bind (import_page D (rp_Records payload) (gp_store g)) (\<lambda>((inserted, err), st).
            case err of
              Some e \<Rightarrow> failPendingSync a (Some (StoreError e)) (g\<lparr>gp_store := st\<rparr>)
            | None \<Rightarrow>
                go_bind (resp_advance a payload inserted (g\<lparr>gp_store := st\<rparr>)) (\<lambda>g1.
                  if rp_HasMore payload then resp_more a g1 else resp_last D a g1)))"

section \<open>Received messages\<close>

definition merge_all ::
    "'db gorm \<Rightarrow> (nat \<Rightarrow> gotime) \<Rightarrow> NodeState option list \<Rightarrow> ('m, 'db) gossip \<Rightarrow> ('m, 'db) gossip go" where
  "merge_all D clk nodes g =
     go_bind (merge_nodes D (zip (List.map clk [0..<length nodes]) nodes) (gp_sm g, gp_store g)) (\<lambda>(sm, st).
       Inr (g\<lparr>gp_sm := sm, gp_store := st\<rparr>))"

definition handleMessage ::
    "'db gorm \<Rightarrow> 'b msgpack \<Rightarrow> ('m, 'b) net \<Rightarrow> (nat \<Rightarrow> gotime) \<Rightarrow> 'b \<Rightarrow> ('m, 'db) gossip
       \<Rightarrow> ('m, 'db) gossip go" where
  "handleMessage D M N clk data g =
     (case DecodeMessage M data of
        Inl _ \<Rightarrow> Inr g
      | Inr msg \<Rightarrow>
          if gm_Type msg = MsgNodeState then
            (case DecodePayload (mp_UnmarshalNodeState M) (gm_Payload msg) of
               Inl _ \<Rightarrow> Inr g
             | Inr payload \<Rightarrow>
                 (case np_State payload of None \<Rightarrow> Inr g | Some ns \<Rightarrow> merge_all D clk [Some ns] g))
          else if gm_Type msg = MsgClusterSync then
            (case DecodePayload (mp_UnmarshalClusterSync M) (gm_Payload msg) of
               Inl _ \<Rightarrow> Inr g
             | Inr payload \<Rightarrow> merge_all D clk (cp_Nodes payload) g)
          else if gm_Type msg = MsgHeartbeat then Inr g
          else if gm_Type msg = MsgHistoryPullRequest then
            (case DecodePayload (mp_UnmarshalHistoryPullRequest M) (gm_Payload msg) of
               Inl _ \<Rightarrow> Inr g
             | Inr payload \<Rightarrow> handleHistoryPullRequest D M N (clk 0) payload (gm_FromNode msg) g)
          else if gm_Type msg = MsgHistoryPullResponse then
            (case DecodePayload (mp_UnmarshalHistoryPullResponse M) (gm_Payload msg) of
               Inl _ \<Rightarrow> Inr g
             | Inr payload \<Rightarrow> handleHistoryPullResponse D payload g)
          else Inr g)"

definition handleMergeRemoteState ::
    "'db gorm \<Rightarrow> 'b msgpack \<Rightarrow> (nat \<Rightarrow> gotime) \<Rightarrow> 'b \<Rightarrow> ('m, 'db) gossip \<Rightarrow> ('m, 'db) gossip go" where
  "handleMergeRemoteState D M clk buf g =
     (case DecodeMessage M buf of
        Inl _ \<Rightarrow> Inr g
      | Inr msg \<Rightarrow>
          if gm_Type msg = MsgClusterSync then
            (case DecodePayload (mp_UnmarshalClusterSync M) (gm_Payload msg) of
               Inl _ \<Rightarrow> Inr g
             | Inr payload \<Rightarrow> merge_all D clk (cp_Nodes payload) g)
          else Inr g)"

section \<open>The delegates called by memberlist\<close>

definition NotifyMsg ::
    "'db gorm \<Rightarrow> 'b msgpack \<Rightarrow> ('m, 'b) net \<Rightarrow> (nat \<Rightarrow> gotime) \<Rightarrow> 'b \<Rightarrow> ('m, 'db) gossip
       \<Rightarrow> ('m, 'db) gossip go" where
  "NotifyMsg D M N clk msg g = handleMessage D M N clk msg g"

definition GetBroadcasts ::
    "('m, 'b) net \<Rightarrow> int \<Rightarrow> int \<Rightarrow> ('m, 'db) gossip \<Rightarrow> 'b list \<times> ('m, 'db) gossip" where
  "GetBroadcasts N overhead limit g =
     (let (bs, net') = ml_GetBroadcasts N overhead limit (gp_list g) in (bs, g\<lparr>gp_list := net'\<rparr>))"

definition LocalState :: "'b msgpack \<Rightarrow> gotime \<Rightarrow> bool \<Rightarrow> ('m, 'db) gossip \<Rightarrow> 'b option" where
  "LocalState M now join g = getClusterStateJSON M now g"

definition MergeRemoteState ::
    "'db gorm \<Rightarrow> 'b msgpack \<Rightarrow> (nat \<Rightarrow> gotime) \<Rightarrow> 'b \<Rightarrow> bool \<Rightarrow> ('m, 'db) gossip \<Rightarrow> ('m, 'db) gossip go" where
  "MergeRemoteState D M clk buf join g = handleMergeRemoteState D M clk buf g"

definition NotifyLeave :: "'db gorm \<Rightarrow> gotime \<Rightarrow> member \<Rightarrow> ('m, 'db) gossip \<Rightarrow> ('m, 'db) gossip" where
  "NotifyLeave D now node g =
     (let (sm, st) = MarkNodeInactive D now (mb_Name node) (gp_sm g, gp_store g) in g\<lparr>gp_sm := sm, gp_store := st\<rparr>)"

end
