(* ===== verification/Config.thy ===== *)
theory Config
  imports GoStd
begin

text \<open>
  \<^verbatim>\<open>pkg/config/config.go\<close>: the configuration, its defaults and the three sources that
  override them: the YAML file, the environment and the command-line flags. A \<^verbatim>\<open>*bool\<close> that
  may be nil is a \<open>bool option\<close>. The YAML decoder is third-party code and a parameter: a
  function that decodes a file onto a configuration. Files and environment variables are
  functions of their names; warnings that are only logged are not modelled.
\<close>

record ClusterConfig =
  cc_Name :: string
  cc_BindAddr :: string
  cc_BindPort :: int
  cc_Seeds :: "string list"

record MonitorConfig =
  mc_Interval :: duration

record StorageConfig =
  sc_DBPath :: string
  sc_Retention :: duration

record WSConfig =
  ws_Enabled :: "bool option"
  ws_AllowedOrigins :: "string list"

record APIConfig =
  ac_Enabled :: "bool option"
  ac_BindAddr :: string
  ac_Port :: int
  ac_Token :: string
  ac_WS :: WSConfig

record GossipConfig =
  gc_SyncInterval :: duration
  gc_ProbeInterval :: duration

record DiscoveryConfig =
  dc_Enabled :: "bool option"
  dc_Type :: string
  dc_Port :: int
  dc_Interval :: duration

record Config =
  cfg_Cluster :: ClusterConfig
  cfg_Monitor :: MonitorConfig
  cfg_Storage :: StorageConfig
  cfg_API :: APIConfig
  cfg_Gossip :: GossipConfig
  cfg_Discovery :: DiscoveryConfig

definition DefaultConfig :: Config where
  "DefaultConfig = \<lparr>
     cfg_Cluster = \<lparr>cc_Name = ''MyCluster'', cc_BindAddr = ''0.0.0.0'', cc_BindPort = 7946, cc_Seeds = []\<rparr>,
     cfg_Monitor = \<lparr>mc_Interval = 5 * second\<rparr>,
     cfg_Storage = \<lparr>sc_DBPath = ''./goggrid.db'', sc_Retention = 168 * (3600 * second)\<rparr>,
     cfg_API = \<lparr>ac_Enabled = Some True, ac_BindAddr = ''0.0.0.0'', ac_Port = 8080, ac_Token = [],
        ac_WS = \<lparr>ws_Enabled = Some False, ws_AllowedOrigins = []\<rparr>\<rparr>,
     cfg_Gossip = \<lparr>gc_SyncInterval = 30 * second, gc_ProbeInterval = 5 * second\<rparr>,
     cfg_Discovery = \<lparr>dc_Enabled = Some True, dc_Type = ''udp'', dc_Port = 7947, dc_Interval = 3 * second\<rparr>\<rparr>"

definition splitSeeds :: "string \<Rightarrow> string list" where
  "splitSeeds s = filter (\<lambda>p. p \<noteq> []) (List.map TrimSpace (split_on (CHR '','') s))"

section \<open>Single settings\<close>

text \<open>
  The settings that the flags and the environment have in common: each takes the text of its
  source, where the empty text is no setting. A port that is no positive number, a boolean or a
  duration that does not parse and an unknown discovery type leave the configuration alone.
\<close>

definition set_cluster_name :: "string \<Rightarrow> Config \<Rightarrow> Config" where
  "set_cluster_name v cfg =
     (if v = [] then cfg else cfg\<lparr>cfg_Cluster := (cfg_Cluster cfg)\<lparr>cc_Name := v\<rparr>\<rparr>)"

definition set_seeds :: "string \<Rightarrow> Config \<Rightarrow> Config" where
  "set_seeds v cfg =
     (if v = [] then cfg else cfg\<lparr>cfg_Cluster := (cfg_Cluster cfg)\<lparr>cc_Seeds := splitSeeds v\<rparr>\<rparr>)"

definition valid_port :: "string \<Rightarrow> int \<Rightarrow> int" where
  "valid_port v current = (case Atoi v of None \<Rightarrow> current | Some p \<Rightarrow> if p \<le> 0 then current else p)"

definition set_bind :: "string \<Rightarrow> Config \<Rightarrow> Config" where
  "set_bind v cfg =
     (if v = [] then cfg
      else case SplitHostPort v of
             None \<Rightarrow> cfg
           | Some (host, port) \<Rightarrow>
               cfg\<lparr>cfg_Cluster := (cfg_Cluster cfg)
                 \<lparr>cc_BindAddr := host, cc_BindPort := valid_port port (cc_BindPort (cfg_Cluster cfg))\<rparr>\<rparr>)"

definition set_api_bind :: "string \<Rightarrow> Config \<Rightarrow> Config" where
  "set_api_bind v cfg =
     (if v = [] then cfg
      else case SplitHostPort v of
             None \<Rightarrow> cfg
           | Some (host, port) \<Rightarrow>
               cfg\<lparr>cfg_API := (cfg_API cfg)
                 \<lparr>ac_BindAddr := host, ac_Port := valid_port port (ac_Port (cfg_API cfg))\<rparr>\<rparr>)"

definition set_api_port :: "string \<Rightarrow> Config \<Rightarrow> Config" where
  "set_api_port v cfg =
     (if v = [] then cfg
      else cfg\<lparr>cfg_API := (cfg_API cfg)\<lparr>ac_Port := valid_port v (ac_Port (cfg_API cfg))\<rparr>\<rparr>)"

definition set_api_token :: "string \<Rightarrow> Config \<Rightarrow> Config" where
  "set_api_token v cfg = (if v = [] then cfg else cfg\<lparr>cfg_API := (cfg_API cfg)\<lparr>ac_Token := v\<rparr>\<rparr>)"

definition set_discovery_enabled :: "string \<Rightarrow> Config \<Rightarrow> Config" where
  "set_discovery_enabled v cfg =
     (if v = [] then cfg
      else case ParseBool v of
             None \<Rightarrow> cfg
           | Some b \<Rightarrow> cfg\<lparr>cfg_Discovery := (cfg_Discovery cfg)\<lparr>dc_Enabled := Some b\<rparr>\<rparr>)"

definition set_discovery_type :: "string \<Rightarrow> Config \<Rightarrow> Config" where
  "set_discovery_type v cfg =
     (if v = ''udp'' \<or> v = ''mdns'' then cfg\<lparr>cfg_Discovery := (cfg_Discovery cfg)\<lparr>dc_Type := v\<rparr>\<rparr> else cfg)"

definition set_discovery_port :: "string \<Rightarrow> Config \<Rightarrow> Config" where
  "set_discovery_port v cfg =
     (if v = [] then cfg
      else cfg\<lparr>cfg_Discovery := (cfg_Discovery cfg)
                 \<lparr>dc_Port := valid_port v (dc_Port (cfg_Discovery cfg))\<rparr>\<rparr>)"

definition set_discovery_interval :: "float_product \<Rightarrow> string \<Rightarrow> Config \<Rightarrow> Config" where
  "set_discovery_interval frac v cfg =
     (if v = [] then cfg
      else case ParseDuration frac v of
             None \<Rightarrow> cfg
           | Some d \<Rightarrow> cfg\<lparr>cfg_Discovery := (cfg_Discovery cfg)\<lparr>dc_Interval := d\<rparr>\<rparr>)"

text \<open>This one writes through a pointer without testing it for nil.\<close>

definition write_ws_enabled :: "bool \<Rightarrow> Config \<Rightarrow> Config go" where
  "write_ws_enabled b cfg =
     (case ws_Enabled (ac_WS (cfg_API cfg)) of
        None \<Rightarrow> Inl NilDereference
      | Some _ \<Rightarrow> Inr (cfg\<lparr>cfg_API := (cfg_API cfg)\<lparr>ac_WS := (ac_WS (cfg_API cfg))\<lparr>ws_Enabled := Some b\<rparr>\<rparr>\<rparr>))"

definition set_ws_enabled :: "string \<Rightarrow> Config \<Rightarrow> Config go" where
  "set_ws_enabled v cfg =
     (if v = [] then Inr cfg
      else case ParseBool v of None \<Rightarrow> Inr cfg | Some b \<Rightarrow> write_ws_enabled b cfg)"

definition set_ws_origins :: "string \<Rightarrow> Config \<Rightarrow> Config" where
  "set_ws_origins v cfg =
     (if v = [] then cfg
      else cfg\<lparr>cfg_API := (cfg_API cfg)\<lparr>ac_WS := (ac_WS (cfg_API cfg))\<lparr>ws_AllowedOrigins := splitSeeds v\<rparr>\<rparr>\<rparr>)"

section \<open>The sources\<close>

record flags =
  fl_clusterName :: string
  fl_bindAddr :: string
  fl_apiBind :: string
  fl_apiToken :: string
  fl_seeds :: string
  fl_discoveryEnabled :: string
  fl_discoveryType :: string
  fl_discoveryPort :: string
  fl_discoveryInterval :: string
  fl_wsEnabled :: string
  fl_wsAllowedOrigins :: string

definition ParseFlags :: "float_product \<Rightarrow> flags \<Rightarrow> Config \<Rightarrow> Config go" where
  "ParseFlags frac fl cfg =
     go_bind
       (set_ws_enabled (fl_wsEnabled fl)
         (set_discovery_interval frac (fl_discoveryInterval fl)
         (set_discovery_port (fl_discoveryPort fl)
         (set_discovery_type (fl_discoveryType fl)
         (set_discovery_enabled (fl_discoveryEnabled fl)
         (set_seeds (fl_seeds fl)
         (set_api_token (fl_apiToken fl)
         (set_api_bind (fl_apiBind fl)
         (set_bind (fl_bindAddr fl)
         (set_cluster_name (fl_clusterName fl) cfg))))))))))
       (\<lambda>cfg'. Inr (set_ws_origins (fl_wsAllowedOrigins fl) cfg'))"

definition ApplyEnv :: "float_product \<Rightarrow> (string \<Rightarrow> string) \<Rightarrow> Config \<Rightarrow> Config go" where
  "ApplyEnv frac env cfg =
     go_bind
       (set_ws_enabled (env ''GOGGRID_WS_ENABLED'')
         (set_discovery_interval frac (env ''GOGGRID_DISCOVERY_INTERVAL'')
         (set_discovery_port (env ''GOGGRID_DISCOVERY_PORT'')
         (set_discovery_type (env ''GOGGRID_DISCOVERY_TYPE'')
         (set_discovery_enabled (env ''GOGGRID_DISCOVERY_ENABLED'')
         (set_seeds (env ''GOGGRID_SEEDS'')
         (set_api_token (env ''GOGGRID_API_TOKEN'')
         (set_api_port (env ''GOGGRID_API_PORT'')
         (set_cluster_name (env ''GOGGRID_CLUSTER_NAME'') cfg)))))))))
       (\<lambda>cfg'. Inr (set_ws_origins (env ''GOGGRID_WS_ALLOWED_ORIGINS'') cfg'))"

text \<open>The parts of \<^verbatim>\<open>mergeConfig\<close>, one per section of the configuration, in its order.\<close>

definition merge_cluster :: "ClusterConfig \<Rightarrow> ClusterConfig \<Rightarrow> ClusterConfig" where
  "merge_cluster src dst =
     \<lparr>cc_Name = (if cc_Name src \<noteq> [] then cc_Name src else cc_Name dst),
      cc_BindAddr = (if cc_BindAddr src \<noteq> [] then cc_BindAddr src else cc_BindAddr dst),
      cc_BindPort = (if cc_BindPort src > 0 then cc_BindPort src else cc_BindPort dst),
      cc_Seeds = (if length (cc_Seeds src) > 0 then cc_Seeds src else cc_Seeds dst)\<rparr>"

text \<open>\<^verbatim>\<open>if src != nil { *dst = *src }\<close>.\<close>

definition merge_bool :: "bool option \<Rightarrow> bool option \<Rightarrow> bool option go" where
  "merge_bool src dst =
     (case src of None \<Rightarrow> Inr dst | Some b \<Rightarrow> (case dst of None \<Rightarrow> Inl NilDereference | Some _ \<Rightarrow> Inr (Some b)))"

definition merge_api :: "APIConfig \<Rightarrow> APIConfig \<Rightarrow> APIConfig go" where
  "merge_api src dst =
     go_bind (merge_bool (ac_Enabled src) (ac_Enabled dst)) (\<lambda>enabled.
     go_bind (merge_bool (ws_Enabled (ac_WS src)) (ws_Enabled (ac_WS dst))) (\<lambda>ws.
     Inr \<lparr>ac_Enabled = enabled,
          ac_BindAddr = (if ac_BindAddr src \<noteq> [] then ac_BindAddr src else ac_BindAddr dst),
          ac_Port = (if ac_Port src > 0 then ac_Port src else ac_Port dst),
          ac_Token = (if ac_Token src \<noteq> [] then ac_Token src else ac_Token dst),
          ac_WS = \<lparr>ws_Enabled = ws,
             ws_AllowedOrigins = (if length (ws_AllowedOrigins (ac_WS src)) > 0
                then ws_AllowedOrigins (ac_WS src) else ws_AllowedOrigins (ac_WS dst))\<rparr>\<rparr>))"

definition merge_discovery :: "DiscoveryConfig \<Rightarrow> DiscoveryConfig \<Rightarrow> DiscoveryConfig go" where
  "merge_discovery src dst =
     go_bind (merge_bool (dc_Enabled src) (dc_Enabled dst)) (\<lambda>enabled.
     Inr \<lparr>dc_Enabled = enabled,
          dc_Type = (if dc_Type src = ''udp'' \<or> dc_Type src = ''mdns'' then dc_Type src else dc_Type dst),
          dc_Port = (if dc_Port src > 0 then dc_Port src else dc_Port dst),
          dc_Interval = (if dc_Interval src \<noteq> 0 then dc_Interval src else dc_Interval dst)\<rparr>)"

definition mergeConfig :: "Config \<Rightarrow> Config \<Rightarrow> Config go" where
  "mergeConfig dst src =
     go_bind (merge_api (cfg_API src) (cfg_API dst)) (\<lambda>api.
     go_bind (merge_discovery (cfg_Discovery src) (cfg_Discovery dst)) (\<lambda>disc.
     Inr \<lparr>cfg_Cluster = merge_cluster (cfg_Cluster src) (cfg_Cluster dst),
          cfg_Monitor = \<lparr>mc_Interval =
            (if mc_Interval (cfg_Monitor src) \<noteq> 0 then mc_Interval (cfg_Monitor src) else mc_Interval (cfg_Monitor dst))\<rparr>,
          cfg_Storage = \<lparr>sc_DBPath =
            (if sc_DBPath (cfg_Storage src) \<noteq> [] then sc_DBPath (cfg_Storage src) else sc_DBPath (cfg_Storage dst)),
            sc_Retention =
            (if sc_Retention (cfg_Storage src) \<noteq> 0 then sc_Retention (cfg_Storage src) else sc_Retention (cfg_Storage dst))\<rparr>,
          cfg_API = api,
          cfg_Gossip = \<lparr>gc_SyncInterval =
            (if gc_SyncInterval (cfg_Gossip src) \<noteq> 0 then gc_SyncInterval (cfg_Gossip src) else gc_SyncInterval (cfg_Gossip dst)),
            gc_ProbeInterval =
            (if gc_ProbeInterval (cfg_Gossip src) \<noteq> 0 then gc_ProbeInterval (cfg_Gossip src) else gc_ProbeInterval (cfg_Gossip dst))\<rparr>,
          cfg_Discovery = disc\<rparr>))"

section \<open>The file\<close>

datatype file_error = NotExist | FileError string
datatype config_error = ReadFailed file_error | ParseFailed string

type_synonym files = "string \<Rightarrow> file_error + string"
type_synonym yaml_decoder = "string \<Rightarrow> Config \<Rightarrow> string + Config"

definition Load :: "files \<Rightarrow> yaml_decoder \<Rightarrow> string \<Rightarrow> config_error + Config" where
  "Load fs yaml path =
     (case fs path of
        Inl err \<Rightarrow> Inl (ReadFailed err)
      | Inr data \<Rightarrow>
          (case yaml data DefaultConfig of Inl err \<Rightarrow> Inl (ParseFailed err) | Inr cfg \<Rightarrow> Inr cfg))"

definition LoadConfigFile :: "files \<Rightarrow> yaml_decoder \<Rightarrow> string \<Rightarrow> Config \<Rightarrow> (config_error option \<times> Config) go" where
  "LoadConfigFile fs yaml configPath cfg =
     (if configPath = [] then Inr (None, cfg)
      else case Load fs yaml configPath of
             Inl err \<Rightarrow> Inr (if err = ReadFailed NotExist then None else Some err, cfg)
           | Inr loaded \<Rightarrow> go_bind (mergeConfig cfg loaded) (\<lambda>cfg'. Inr (None, cfg')))"

text \<open>
  What \<^verbatim>\<open>main\<close> does with the three sources: \<open>Inl\<close> the error it exits with. Without a
  \<^verbatim>\<open>--config\<close> flag the file is \<^verbatim>\<open>goggrid.yaml\<close>, when \<^verbatim>\<open>os.Stat\<close> finds it.
\<close>

definition startup_config ::
    "(string \<Rightarrow> bool) \<Rightarrow> files \<Rightarrow> yaml_decoder \<Rightarrow> float_product \<Rightarrow> (string \<Rightarrow> string) \<Rightarrow> string \<Rightarrow> flags
       \<Rightarrow> (config_error + Config) go" where
  "startup_config stat fs yaml frac env configPath fl =
     go_bind
       (if configPath = [] then
          (if stat ''goggrid.yaml'' then LoadConfigFile fs yaml ''goggrid.yaml'' DefaultConfig
           else Inr (None, DefaultConfig))
        else LoadConfigFile fs yaml configPath DefaultConfig)
       (\<lambda>(err, cfg).
          case err of
            Some e \<Rightarrow> Inr (Inl e)
          | None \<Rightarrow>
              go_bind (ApplyEnv frac env cfg) (\<lambda>cfg1.
              go_bind (ParseFlags frac fl cfg1) (\<lambda>cfg2. Inr (Inr cfg2))))"

section \<open>Validation\<close>

datatype invalid =
    BadBindPort int
  | BadAPIPort int
  | BadDiscoveryPort int
  | EmptyClusterName
  | BadDiscoveryType string

definition Validate :: "Config \<Rightarrow> invalid option" where
  "Validate c =
     (if cc_BindPort (cfg_Cluster c) \<le> 0 then Some (BadBindPort (cc_BindPort (cfg_Cluster c)))
      else if ac_Port (cfg_API c) \<le> 0 then Some (BadAPIPort (ac_Port (cfg_API c)))
      else if dc_Port (cfg_Discovery c) \<le> 0 then Some (BadDiscoveryPort (dc_Port (cfg_Discovery c)))
      else if cc_Name (cfg_Cluster c) = [] then Some EmptyClusterName
      else if dc_Type (cfg_Discovery c) = ''udp'' \<or> dc_Type (cfg_Discovery c) = ''mdns'' then None
      else Some (BadDiscoveryType (dc_Type (cfg_Discovery c))))"

end
