(* ===== verification/Discovery.thy ===== *)
theory Discovery
  imports Message Config
begin

text \<open>
  \<^verbatim>\<open>pkg/gossip/discovery.go\<close>, \<^verbatim>\<open>discovery_udp.go\<close> and \<^verbatim>\<open>discovery_mdns.go\<close>: suppressing
  repeated sightings of an address, joining the peers of the own cluster, and the two ways to
  find peers. Joining (memberlist), the sockets and the mDNS library are parameters: a join
  function over the network state, and the outcomes of opening and writing.
\<close>

section \<open>Repeated sightings\<close>

record discoveryBase =
  db_seenAddrs :: "(string, gotime) alist"
  db_cooldown :: duration
  db_clusterName :: string

definition newDiscoveryBase :: "string \<Rightarrow> discoveryBase" where
  "newDiscoveryBase clusterName =
     \<lparr>db_seenAddrs = mempty, db_cooldown = 30 * second, db_clusterName = clusterName\<rparr>"

definition isNew :: "gotime \<Rightarrow> string \<Rightarrow> discoveryBase \<Rightarrow> bool \<times> discoveryBase" where
  "isNew now addr db =
     (let seen = DAList.filter (\<lambda>(a, t). \<not> Sub now t > 5 * db_cooldown db) (db_seenAddrs db);
          fresh = (case mget seen addr of None \<Rightarrow> True | Some lastSeen \<Rightarrow> Sub now lastSeen > db_cooldown db)
      in if fresh then (True, db\<lparr>db_seenAddrs := mput addr now seen\<rparr>)
         else (False, db\<lparr>db_seenAddrs := seen\<rparr>))"

type_synonym 'm join = "string list \<Rightarrow> 'm \<Rightarrow> (int \<times> string option) \<times> 'm"

definition tryJoin ::
    "'m join \<Rightarrow> gotime \<Rightarrow> string \<Rightarrow> string \<Rightarrow> discoveryBase \<times> 'm \<Rightarrow> discoveryBase \<times> 'm" where
  "tryJoin join now addr remoteCluster s =
     (let (db, net) = s in
      if remoteCluster \<noteq> db_clusterName db then s
      else
        let (new, db') = isNew now addr db in
        if \<not> new then (db', net)
        else (let (_, net') = join [addr] net in (db', net')))"

section \<open>UDP broadcast\<close>

record udpDiscovery =
  ud_base :: discoveryBase
  ud_cfg :: DiscoveryConfig
  ud_listening :: bool
  ud_localAddr :: string

definition newUDPDiscovery :: "DiscoveryConfig \<Rightarrow> string \<Rightarrow> udpDiscovery" where
  "newUDPDiscovery cfg clusterName =
     \<lparr>ud_base = newDiscoveryBase clusterName, ud_cfg = cfg, ud_listening = False, ud_localAddr = []\<rparr>"

definition JoinHostPort :: "string \<Rightarrow> string \<Rightarrow> string" where
  "JoinHostPort host port =
     (if CHR '':'' \<in> set host then CHR ''['' # host @ CHR '']'' # CHR '':'' # port
      else host @ CHR '':'' # port)"

text \<open>
  \<^verbatim>\<open>Start\<close> with the address of the local member; \<open>listen\<close> is the error of opening the
  socket. The result is the error and the new state; the two loops run once it succeeded.
\<close>

datatype udp_error = InvalidLocalAddress string | ListenFailed int string

definition udp_Start ::
    "string \<Rightarrow> int \<Rightarrow> (int \<Rightarrow> string option) \<Rightarrow> udpDiscovery \<Rightarrow> udp_error option \<times> udpDiscovery" where
  "udp_Start host port listen d =
     (let addr = JoinHostPort host (show_int port); d1 = d\<lparr>ud_localAddr := addr\<rparr> in
      if has_prefix ''0.0.0.0:'' addr \<or> has_prefix ''[::]:'' addr \<or> has_prefix '':'' addr
      then (Some (InvalidLocalAddress addr), d1)
      else
        case listen (dc_Port (ud_cfg d)) of
          Some err \<Rightarrow> (Some (ListenFailed (dc_Port (ud_cfg d)) err), d1)
        | None \<Rightarrow> (None, d1\<lparr>ud_listening := True\<rparr>))"

definition udp_Stop :: "udpDiscovery \<Rightarrow> udpDiscovery" where
  "udp_Stop d = d\<lparr>ud_listening := False\<rparr>"

text \<open>What one tick of \<^verbatim>\<open>broadcastLoop\<close> sends.\<close>

definition udp_announcement :: "'b msgpack \<Rightarrow> i64 \<Rightarrow> string \<Rightarrow> udpDiscovery \<Rightarrow> 'b option" where
  "udp_announcement M unix cluster d =
     (case mp_MarshalPayload M (PDiscovery
             \<lparr>dm_NodeID = cluster @ ''-'' @ ud_localAddr d, dm_ClusterName = cluster,
              dm_GossipAddr = ud_localAddr d, dm_Timestamp = unix\<rparr>) of
        Inl _ \<Rightarrow> None
      | Inr data \<Rightarrow> Some data)"

text \<open>One datagram received by \<^verbatim>\<open>listenLoop\<close>.\<close>

definition udp_receive ::
    "'b msgpack \<Rightarrow> 'm join \<Rightarrow> gotime \<Rightarrow> 'b \<Rightarrow> udpDiscovery \<times> 'm \<Rightarrow> udpDiscovery \<times> 'm" where
  "udp_receive M join now data s =
     (let (d, net) = s in
      case mp_UnmarshalDiscovery M data of
        Inl _ \<Rightarrow> s
      | Inr msg \<Rightarrow>
          if dm_GossipAddr msg = ud_localAddr d then s
          else (let (db, net') = tryJoin join now (dm_GossipAddr msg) (dm_ClusterName msg) (ud_base d, net)
                in (d\<lparr>ud_base := db\<rparr>, net')))"

section \<open>mDNS\<close>

record mdnsDiscovery =
  md_base :: discoveryBase
  md_cfg :: DiscoveryConfig
  md_localAddr :: string
  md_hasManager :: bool
  md_serving :: bool

definition newMDNSDiscovery :: "DiscoveryConfig \<Rightarrow> string \<Rightarrow> mdnsDiscovery" where
  "newMDNSDiscovery cfg clusterName =
     \<lparr>md_base = newDiscoveryBase clusterName, md_cfg = cfg, md_localAddr = [], md_hasManager = False,
      md_serving = False\<rparr>"

text \<open>
  \<^verbatim>\<open>Start\<close> up to the outcome of the mDNS library, and the TXT records it announces.
\<close>

definition mdns_info :: "mdnsDiscovery \<Rightarrow> string list" where
  "mdns_info d = [''cluster_name='' @ db_clusterName (md_base d), ''gossip_addr='' @ md_localAddr d]"

definition mdns_Start :: "string \<Rightarrow> (int \<Rightarrow> string list \<Rightarrow> string option) \<Rightarrow> mdnsDiscovery \<Rightarrow> string option \<times> mdnsDiscovery" where
  "mdns_Start addr serve d =
     (let d1 = d\<lparr>md_hasManager := True, md_localAddr := addr\<rparr> in
      case serve (dc_Port (md_cfg d)) (mdns_info d1) of
        Some err \<Rightarrow> (Some err, d1)
      | None \<Rightarrow> (None, d1\<lparr>md_serving := True\<rparr>))"

definition mdns_Stop :: "mdnsDiscovery \<Rightarrow> mdnsDiscovery" where
  "mdns_Stop d = d\<lparr>md_serving := False\<rparr>"

fun cut_field :: "string \<Rightarrow> (string \<times> string) option" where
  "cut_field [] = None"
| "cut_field (c # cs) =
     (if c = CHR ''='' then Some ([], cs)
      else case cut_field cs of None \<Rightarrow> None | Some (k, v) \<Rightarrow> Some (c # k, v))"

fun entry_fields :: "string list \<Rightarrow> string \<times> string \<Rightarrow> string \<times> string" where
  "entry_fields [] acc = acc"
| "entry_fields (field # fs) (clusterName, gossipAddr) =
     entry_fields fs
       (case cut_field field of
          None \<Rightarrow> (clusterName, gossipAddr)
        | Some (key, val) \<Rightarrow>
            if key = ''cluster_name'' then (val, gossipAddr)
            else if key = ''gossip_addr'' then (clusterName, val)
            else (clusterName, gossipAddr))"

definition handleEntry ::
    "'m join \<Rightarrow> gotime \<Rightarrow> string list \<Rightarrow> mdnsDiscovery \<times> 'm \<Rightarrow> mdnsDiscovery \<times> 'm" where
  "handleEntry join now infoFields s =
     (let (d, net) = s; (clusterName, gossipAddr) = entry_fields infoFields ([], []) in
      if gossipAddr = [] then s
      else if gossipAddr = md_localAddr d then s
      else if \<not> md_hasManager d then s
      else (let (db, net') = tryJoin join now gossipAddr clusterName (md_base d, net)
            in (d\<lparr>md_base := db\<rparr>, net')))"

section \<open>Which one runs\<close>

datatype discovery = UseUDP udpDiscovery | UseMDNS mdnsDiscovery

text \<open>The choice \<^verbatim>\<open>GossipManager.Start\<close> makes; \<open>None\<close> when discovery is disabled.\<close>

definition choose_discovery :: "Config \<Rightarrow> discovery option" where
  "choose_discovery cfg =
     (if dc_Enabled (cfg_Discovery cfg) = Some True then
        Some (if dc_Type (cfg_Discovery cfg) = ''udp''
              then UseUDP (newUDPDiscovery (cfg_Discovery cfg) (cc_Name (cfg_Cluster cfg)))
              else if dc_Type (cfg_Discovery cfg) = ''mdns''
              then UseMDNS (newMDNSDiscovery (cfg_Discovery cfg) (cc_Name (cfg_Cluster cfg)))
              else UseUDP (newUDPDiscovery (cfg_Discovery cfg) (cc_Name (cfg_Cluster cfg))))
      else None)"

end
