(* ===== verification/Monitor.thy ===== *)
theory Monitor
  imports Models
begin

text \<open>
  \<^verbatim>\<open>pkg/monitor/monitor.go\<close>: collecting the measurements of the host and turning them into a
  node state. What the operating system and the gopsutil package report is the input: a record
  \<open>host_probe\<close> of the outcomes of the calls (the static facts that are read once, the
  sampler's cache, and one outcome per call, an error or its value).
\<close>

section \<open>Network interfaces\<close>

text \<open>An address of an interface: an IPv4 address in text form, loopback or not, or another one.\<close>

datatype if_addr = IPv4 string bool | OtherAddr

record iface =
  if_Name :: string
  if_Up :: bool
  if_Loopback :: bool
  if_Addrs :: "string + if_addr list"

fun first_ipv4 :: "if_addr list \<Rightarrow> string option" where
  "first_ipv4 [] = None"
| "first_ipv4 (IPv4 ip loopback # as) = (if loopback then first_ipv4 as else Some ip)"
| "first_ipv4 (OtherAddr # as) = first_ipv4 as"

fun first_address :: "iface list \<Rightarrow> string option" where
  "first_address [] = None"
| "first_address (i # is) =
     (if \<not> if_Up i \<or> if_Loopback i then first_address is
      else case if_Addrs i of
             Inl _ \<Rightarrow> first_address is
           | Inr as \<Rightarrow> (case first_ipv4 as of Some ip \<Rightarrow> Some ip | None \<Rightarrow> first_address is))"

text \<open>\<open>dial\<close>: the local address of a UDP connection to a public address.\<close>

definition GetLocalIP :: "string + iface list \<Rightarrow> string + string \<Rightarrow> string + string" where
  "GetLocalIP ifaces dial =
     (case ifaces of
        Inr is \<Rightarrow> (case first_address is of Some ip \<Rightarrow> Inr ip | None \<Rightarrow> dial)
      | Inl _ \<Rightarrow> dial)"

definition getNonLoopbackInterface :: "string + iface list \<Rightarrow> string" where
  "getNonLoopbackInterface ifaces =
     (case ifaces of
        Inl _ \<Rightarrow> []
      | Inr is \<Rightarrow> (case find (\<lambda>i. \<not> if_Loopback i \<and> if_Up i) is of None \<Rightarrow> [] | Some i \<Rightarrow> if_Name i))"

section \<open>Measurements\<close>

record HostMonitor =
  hm_Arch :: string
  hm_OSInfo :: string
  hm_Hostname :: string
  hm_KernelVer :: string
  hm_Version :: string
  hm_Platform :: string
  hm_Family :: string
  hm_CPULoad :: "float64 list"
  hm_MemUsage :: float64
  hm_MemUsed :: "64 word"
  hm_MemTotal :: "64 word"
  hm_BytesRecv :: "64 word"
  hm_BytesSent :: "64 word"
  hm_LocalIP :: string
  hm_DiskUsage :: float64
  hm_LoadAvg1min :: float64
  hm_LoadAvg5min :: float64
  hm_LoadAvg15min :: float64
  hm_NetInterfaceName :: string

record host_probe =
  hp_static :: "string \<times> string \<times> string \<times> string \<times> string \<times> string \<times> string"
  hp_cpu_cache :: "float64 list"
  hp_memory :: "string + float64 \<times> 64 word \<times> 64 word"
  hp_counters :: "string + (64 word \<times> 64 word) list"
  hp_interfaces :: "string + iface list"
  hp_dial :: "string + string"
  hp_disk :: "string + float64"
  hp_load :: "string + float64 \<times> float64 \<times> float64"

fun sum_counters :: "(64 word \<times> 64 word) list \<Rightarrow> 64 word \<times> 64 word \<Rightarrow> 64 word \<times> 64 word" where
  "sum_counters [] acc = acc"
| "sum_counters ((recv, sent) # cs) (r, s) = sum_counters cs (r + recv, s + sent)"

definition GetHostMonitor :: "host_probe \<Rightarrow> string + HostMonitor" where
  "GetHostMonitor hp =
     (let (arch, os, hostname, kernel, version, platform, family) = hp_static hp in
      case hp_memory hp of
        Inl e \<Rightarrow> Inl (''unable to get memory load per sec: '' @ e)
      | Inr (memUsage, memUsed, memTotal) \<Rightarrow>
      case hp_counters hp of
        Inl e \<Rightarrow> Inl (''unable to get network counters: '' @ e)
      | Inr counters \<Rightarrow>
      case GetLocalIP (hp_interfaces hp) (hp_dial hp) of
        Inl e \<Rightarrow> Inl (''unable to get local IP: '' @ e)
      | Inr ip \<Rightarrow>
      case hp_disk hp of
        Inl e \<Rightarrow> Inl (''unable to get disk usage: '' @ e)
      | Inr diskUsage \<Rightarrow>
      case hp_load hp of
        Inl e \<Rightarrow> Inl (''unable to get load average: '' @ e)
      | Inr (l1, l5, l15) \<Rightarrow>
          (let (recv, sent) = sum_counters counters (0, 0) in
           Inr \<lparr>hm_Arch = arch, hm_OSInfo = os, hm_Hostname = hostname, hm_KernelVer = kernel,
                hm_Version = version, hm_Platform = platform, hm_Family = family,
                hm_CPULoad = hp_cpu_cache hp, hm_MemUsage = memUsage, hm_MemUsed = memUsed,
                hm_MemTotal = memTotal, hm_BytesRecv = recv, hm_BytesSent = sent, hm_LocalIP = ip,
                hm_DiskUsage = diskUsage, hm_LoadAvg1min = l1, hm_LoadAvg5min = l5, hm_LoadAvg15min = l15,
                hm_NetInterfaceName = getNonLoopbackInterface (hp_interfaces hp)\<rparr>))"

definition ToNodeState :: "gotime \<Rightarrow> string \<Rightarrow> HostMonitor \<Rightarrow> NodeState" where
  "ToNodeState now nodeID h =
     \<lparr>ns_NodeID = nodeID, ns_IPAddress = hm_LocalIP h, ns_Status = ''active'', ns_SystemType = hm_OSInfo h,
      ns_CPUUsage = (case hm_CPULoad h of [] \<Rightarrow> 0 | c # _ \<Rightarrow> c),
      ns_MemoryUsage = hm_MemUsage h, ns_DiskUsage = hm_DiskUsage h,
      ns_NetInterface = \<lparr>ni_InterfaceName = hm_NetInterfaceName h, ni_Speed = i64_of 0,
         ni_RxBytes = hm_BytesRecv h, ni_TxBytes = hm_BytesSent h\<rparr>,
      ns_SystemLoad = \<lparr>sl_LoadAvg1min = hm_LoadAvg1min h, sl_LoadAvg5min = hm_LoadAvg5min h,
         sl_LoadAvg15min = hm_LoadAvg15min h\<rparr>,
      ns_LastSeen = now, ns_LastUpdated = now, ns_Clock = None\<rparr>"

text \<open>One tick of the background CPU sampler: a failed sample keeps the old cache.\<close>

definition sampler_tick :: "string + float64 list \<Rightarrow> float64 list \<Rightarrow> float64 list" where
  "sampler_tick sample cache = (case sample of Inl _ \<Rightarrow> cache | Inr samples \<Rightarrow> samples)"

text \<open>
  \<^verbatim>\<open>StartCPUSampler\<close>: the goroutine makes its ticker, samples at once and then at every tick
  until its context is done.
\<close>

definition StartCPUSampler ::
    "duration \<Rightarrow> string + float64 list \<Rightarrow> (string + float64 list) list \<Rightarrow> float64 list \<Rightarrow> float64 list go" where
  "StartCPUSampler interval first ticks cache =
     go_bind (new_ticker interval) (\<lambda>_. Inr (fold sampler_tick (first # ticks) cache))"

section \<open>The variables of the package\<close>

text \<open>
  The facts that are read once for the life of the process, and the cache that the sampler fills.
  An error of these calls is only logged: what they return beside it is kept.
\<close>

record static_facts =
  sf_Hostname :: string
  sf_KernelVer :: string
  sf_Platform :: string
  sf_Family :: string
  sf_Version :: string

record monitor_state =
  mn_static :: "static_facts option"
  mn_cpuCache :: "float64 list"

record static_probe =
  sp_hostname :: "string \<times> string option"
  sp_kernel :: "string \<times> string option"
  sp_platform :: "(string \<times> string \<times> string) \<times> string option"

definition read_static :: "static_probe \<Rightarrow> static_facts" where
  "read_static sp =
     (let (platform, family, version) = fst (sp_platform sp) in
      \<lparr>sf_Hostname = fst (sp_hostname sp), sf_KernelVer = fst (sp_kernel sp), sf_Platform = platform,
       sf_Family = family, sf_Version = version\<rparr>)"

text \<open>\<^verbatim>\<open>staticOnce.Do\<close>.\<close>

definition static_once :: "static_probe \<Rightarrow> monitor_state \<Rightarrow> static_facts \<times> monitor_state" where
  "static_once sp m =
     (case mn_static m of
        Some sf \<Rightarrow> (sf, m)
      | None \<Rightarrow> (let sf = read_static sp in (sf, m\<lparr>mn_static := Some sf\<rparr>)))"

text \<open>
  A whole call of \<^verbatim>\<open>GetHostMonitor\<close>, on the variables of the package: the static facts and the
  cache complete the outcomes of the other calls. (Architecture and system are constants of the
  build.)
\<close>

definition host_reading ::
    "string \<Rightarrow> string \<Rightarrow> static_probe \<Rightarrow> host_probe \<Rightarrow> monitor_state \<Rightarrow> (string + HostMonitor) \<times> monitor_state" where
  "host_reading arch os sp hp m =
     (let (sf, m') = static_once sp m in
      (GetHostMonitor (hp\<lparr>hp_static := (arch, os, sf_Hostname sf, sf_KernelVer sf, sf_Version sf, sf_Platform sf, sf_Family sf),
                         hp_cpu_cache := mn_cpuCache m'\<rparr>), m'))"

datatype monitor_event = Sampled "string + float64 list" | Collected static_probe host_probe

fun monitor_step :: "string \<Rightarrow> string \<Rightarrow> monitor_event \<Rightarrow> monitor_state \<Rightarrow> monitor_state" where
  "monitor_step arch os (Sampled sample) m = m\<lparr>mn_cpuCache := sampler_tick sample (mn_cpuCache m)\<rparr>"
| "monitor_step arch os (Collected sp hp) m = snd (host_reading arch os sp hp m)"

section \<open>Facts\<close>

lemma sum_counters_wrap:
  "sum_counters cs (r, s) = (r + sum_list (List.map fst cs), s + sum_list (List.map snd cs))"
  by (induction cs arbitrary: r s) (auto simp: add.assoc)

lemma first_ipv4_sound: "first_ipv4 as = Some ip \<Longrightarrow> IPv4 ip False \<in> set as"
  by (induction as rule: first_ipv4.induct) (auto split: if_splits)

lemma first_address_sound:
  "first_address is = Some ip \<Longrightarrow>
     \<exists>i \<in> set is. if_Up i \<and> \<not> if_Loopback i \<and> (\<exists>as. if_Addrs i = Inr as \<and> IPv4 ip False \<in> set as)"
  by (induction "is") (auto split: if_splits sum.splits option.splits dest: first_ipv4_sound)

lemma GetHostMonitor_simps:
  assumes "GetHostMonitor hp = Inr h"
  shows "hm_CPULoad h = hp_cpu_cache hp" and "GetLocalIP (hp_interfaces hp) (hp_dial hp) = Inr (hm_LocalIP h)"
    and "\<exists>cs. hp_counters hp = Inr cs \<and> hm_BytesRecv h = sum_list (List.map fst cs) \<and>
          hm_BytesSent h = sum_list (List.map snd cs)"
  using assms
  by (auto simp: GetHostMonitor_def sum_counters_wrap Let_def split: sum.splits prod.splits)

lemma GetLocalIP_source:
  "GetLocalIP ifaces dial = Inr ip \<Longrightarrow> dial = Inr ip \<or>
     (\<exists>is. ifaces = Inr is \<and> (\<exists>i \<in> set is. if_Up i \<and> \<not> if_Loopback i \<and>
        (\<exists>as. if_Addrs i = Inr as \<and> IPv4 ip False \<in> set as)))"
  using first_address_sound by (auto simp: GetLocalIP_def split: sum.splits option.splits)

lemma GetHostMonitor_static:
  "GetHostMonitor hp = Inr h \<Longrightarrow>
     hp_static hp = (hm_Arch h, hm_OSInfo h, hm_Hostname h, hm_KernelVer h, hm_Version h, hm_Platform h, hm_Family h)"
  by (auto simp: GetHostMonitor_def Let_def split: sum.splits prod.splits)

section \<open>What a reading reports\<close>

text \<open>In a process that has just started nothing was read or sampled.\<close>

definition monitor_start :: monitor_state where
  "monitor_start = \<lparr>mn_static = None, mn_cpuCache = []\<rparr>"

fun first_probe :: "monitor_event list \<Rightarrow> static_probe option" where
  "first_probe [] = None"
| "first_probe (Sampled _ # es) = first_probe es"
| "first_probe (Collected sp _ # es) = Some sp"

fun last_sample :: "monitor_event list \<Rightarrow> float64 list \<Rightarrow> float64 list" where
  "last_sample [] cache = cache"
| "last_sample (Sampled (Inr samples) # es) cache = last_sample es samples"
| "last_sample (_ # es) cache = last_sample es cache"

lemma monitor_fold:
  "fold (monitor_step arch os) es m =
     m\<lparr>mn_static := (case mn_static m of Some sf \<Rightarrow> Some sf | None \<Rightarrow> map_option read_static (first_probe es)),
       mn_cpuCache := last_sample es (mn_cpuCache m)\<rparr>"
proof (induction es arbitrary: m)
  case (Cons e es)
  then show ?case
    by (cases e) (auto simp: sampler_tick_def host_reading_def static_once_def Let_def split: option.split sum.split)
qed (simp split: option.split)

text \<open>
  C27: a successful reading of the host reports the static facts as the first reading of the process
  found them, the CPU load of the latest sample that succeeded (none before the first), the sums of
  the counters of all interfaces modulo 2^64, and as its address a non-loopback IPv4 address of an
  interface that is up, or else the local end of a connection.
\<close>

theorem host_reading_reports:
  assumes "host_reading arch os sp hp (fold (monitor_step arch os) es monitor_start) = (Inr h, m)"
  defines "sf \<equiv> read_static (case first_probe es of None \<Rightarrow> sp | Some sp0 \<Rightarrow> sp0)"
  shows "hm_Hostname h = sf_Hostname sf \<and> hm_KernelVer h = sf_KernelVer sf \<and> hm_Platform h = sf_Platform sf \<and>
    hm_Family h = sf_Family sf \<and> hm_Version h = sf_Version sf \<and> mn_static m = Some sf \<and>
    hm_CPULoad h = last_sample es [] \<and>
    (\<exists>cs. hp_counters hp = Inr cs \<and> hm_BytesRecv h = sum_list (List.map fst cs) \<and>
       hm_BytesSent h = sum_list (List.map snd cs)) \<and>
    (hp_dial hp = Inr (hm_LocalIP h) \<or>
     (\<exists>is. hp_interfaces hp = Inr is \<and> (\<exists>i \<in> set is. if_Up i \<and> \<not> if_Loopback i \<and>
        (\<exists>as. if_Addrs i = Inr as \<and> IPv4 (hm_LocalIP h) False \<in> set as))))"
proof -
  let ?m = "fold (monitor_step arch os) es monitor_start"
  have once: "static_once sp ?m = (sf, ?m\<lparr>mn_static := Some sf\<rparr>)" and cpu: "mn_cpuCache ?m = last_sample es []"
    by (auto simp: monitor_fold monitor_start_def static_once_def sf_def Let_def split: option.split)
  define hp' where "hp' = hp\<lparr>hp_static := (arch, os, sf_Hostname sf, sf_KernelVer sf, sf_Version sf, sf_Platform sf, sf_Family sf),
     hp_cpu_cache := last_sample es []\<rparr>"
  have h: "GetHostMonitor hp' = Inr h" and m: "mn_static m = Some sf"
    using assms(1) once cpu by (auto simp: host_reading_def hp'_def)
  have fields: "hp_counters hp' = hp_counters hp" "hp_interfaces hp' = hp_interfaces hp" "hp_dial hp' = hp_dial hp"
    "hp_cpu_cache hp' = last_sample es []" by (simp_all add: hp'_def)
  note facts = GetHostMonitor_simps [OF h, unfolded fields]
  from GetHostMonitor_static [OF h] have "hm_Hostname h = sf_Hostname sf" "hm_KernelVer h = sf_KernelVer sf"
    "hm_Platform h = sf_Platform sf" "hm_Family h = sf_Family sf" "hm_Version h = sf_Version sf"
    by (simp_all add: hp'_def)
  with m facts(1,3) GetLocalIP_source [OF facts(2)] show ?thesis by blast
qed

theorem host_reading_reports_witness:
  defines "hp \<equiv> \<lparr>hp_static = ([], [], [], [], [], [], []), hp_cpu_cache = [], hp_memory = Inr (0, 1, 2),
     hp_counters = Inr [(2 ^ 63, 2), (2 ^ 63, 4)], hp_interfaces = Inr [], hp_dial = Inr ''10.0.0.1'', hp_disk = Inr 0,
     hp_load = Inr (0, 0, 0)\<rparr>"
    and "sp \<equiv> \<lambda>host. \<lparr>sp_hostname = (host, None), sp_kernel = (''6.1'', None),
     sp_platform = ((''debian'', ''debian'', ''12''), None)\<rparr>"
  shows "\<exists>h m. host_reading ''amd64'' ''linux'' (sp ''new'') hp
       (fold (monitor_step ''amd64'' ''linux'') [Sampled (Inr [7]), Collected (sp ''old'') hp, Sampled (Inl ''busy'')] monitor_start) =
       (Inr h, m) \<and> hm_Hostname h = ''old'' \<and> hm_CPULoad h = [7] \<and> hm_BytesRecv h = 0"
proof -
  let ?es = "[Sampled (Inr [7]), Collected (sp ''old'') hp, Sampled (Inl ''busy'')]"
  obtain h m where r: "host_reading ''amd64'' ''linux'' (sp ''new'') hp
      (fold (monitor_step ''amd64'' ''linux'') ?es monitor_start) = (Inr h, m)"
    by (simp add: monitor_fold host_reading_def static_once_def monitor_start_def GetHostMonitor_def GetLocalIP_def
        hp_def Let_def)
  from host_reading_reports [OF this] r show ?thesis
    by (intro exI [where x = h], intro exI [where x = m]) (auto simp: hp_def sp_def read_static_def)
qed

end
