(* ===== verification/Node.thy ===== *)
theory Node
  imports Gossip Discovery Monitor
begin

text \<open>
  \<^verbatim>\<open>cmd/GogGrid/main.go\<close>: the loops of the process. The state of a node is that of its gossip
  manager, which holds the state manager and the store that all packages share. A collection
  takes the host's probe and the readings of the clock it makes.
\<close>

section \<open>Collecting and publishing\<close>

text \<open>\<^verbatim>\<open>store.GetNodeState\<close> on the shared store pointer, which panics when it is nil.\<close>

definition store_node :: "'db gorm \<Rightarrow> string \<Rightarrow> 'db option \<Rightarrow> (db_error + NodeState) go" where
  "store_node D nodeID store = (case store of None \<Rightarrow> Inl NilDereference | Some d \<Rightarrow> Inr (GetNodeState D nodeID d))"

definition recovered_clock :: "'db gorm \<Rightarrow> string \<Rightarrow> VectorClock \<Rightarrow> ('m, 'db) gossip \<Rightarrow> VectorClock go" where
  "recovered_clock D nodeID clock g =
     (case GetNode nodeID (gp_sm g) of
        Some existing \<Rightarrow> Merge clock (ns_Clock existing)
      | None \<Rightarrow>
          go_bind (store_node D nodeID (gp_store g)) (\<lambda>res.
            case res of Inl _ \<Rightarrow> Inr clock | Inr persisted \<Rightarrow> Merge clock (ns_Clock persisted)))"

definition local_record :: "gotime \<Rightarrow> string \<Rightarrow> NodeState \<Rightarrow> HistoryRecord" where
  "local_record now nodeID ns =
     \<lparr>hr_ID = 0, hr_NodeID = nodeID, hr_Timestamp = now, hr_CPUUsage = ns_CPUUsage ns,
      hr_MemoryUsage = ns_MemoryUsage ns, hr_DiskUsage = ns_DiskUsage ns,
      hr_NetInterface = ns_NetInterface ns, hr_SystemLoad = ns_SystemLoad ns,
      hr_EventType = ''metric_update'', hr_Status = [], hr_Source = ''local''\<rparr>"

text \<open>Both writes to the store; their errors are only logged.\<close>

definition persist :: "'db gorm \<Rightarrow> NodeState \<Rightarrow> HistoryRecord \<Rightarrow> 'db option \<Rightarrow> 'db option go" where
  "persist D ns hr store =
     (case store of
        None \<Rightarrow> Inl NilDereference
      | Some d \<Rightarrow> Inr (Some (snd (SaveHistoryRecord D hr (snd (SaveNodeState D ns d))))))"

text \<open>
  The state that a collection will publish, when the host can be measured: its clock is read from
  the state manager, or else from the store, and incremented.
\<close>

definition collect_prepare ::
    "'db gorm \<Rightarrow> (nat \<Rightarrow> gotime) \<Rightarrow> string \<Rightarrow> host_probe \<Rightarrow> ('m, 'db) gossip \<Rightarrow> NodeState option go" where
  "collect_prepare D clk nodeID probe g =
     (case GetHostMonitor probe of
        Inl _ \<Rightarrow> Inr None
      | Inr hm \<Rightarrow>
          let ns0 = ToNodeState (clk 0) nodeID hm;
              clock0 = (if ns_Clock ns0 = None then Some mempty else ns_Clock ns0) in
          go_bind (recovered_clock D nodeID clock0 g) (\<lambda>clock1.
          go_bind (Increment clock1 nodeID) (\<lambda>clock2.
            Inr (Some (ns0\<lparr>ns_Clock := clock2, ns_LastUpdated := clk 1, ns_LastSeen := clk 2,
                            ns_Status := ''active''\<rparr>)))))"

text \<open>
  Its publication. The lock of the state manager is taken again, so other goroutines may have
  changed the node's own entry since its clock was read.
\<close>

definition collect_publish ::
    "'db gorm \<Rightarrow> 'b msgpack \<Rightarrow> ('m, 'b) net \<Rightarrow> (nat \<Rightarrow> gotime) \<Rightarrow> string \<Rightarrow> NodeState
       \<Rightarrow> ('m, 'db) gossip \<Rightarrow> ('m, 'db) gossip go" where
  "collect_publish D M N clk nodeID ns g =
     (let g1 = g\<lparr>gp_sm := UpdateLocalNode (clk 3) ns (gp_sm g)\<rparr>;
          (_, g2) = BroadcastLocalState M N (clk 4) ns g1
      in go_bind (persist D ns (local_record (clk 5) nodeID ns) (gp_store g2)) (\<lambda>st.
         Inr (g2\<lparr>gp_store := st\<rparr>)))"

definition collectAndPublish ::
    "'db gorm \<Rightarrow> 'b msgpack \<Rightarrow> ('m, 'b) net \<Rightarrow> (nat \<Rightarrow> gotime) \<Rightarrow> string \<Rightarrow> host_probe
       \<Rightarrow> ('m, 'db) gossip \<Rightarrow> ('m, 'db) gossip go" where
  "collectAndPublish D M N clk nodeID probe g =
     go_bind (collect_prepare D clk nodeID probe g) (\<lambda>prepared.
       case prepared of None \<Rightarrow> Inr g | Some ns \<Rightarrow> collect_publish D M N clk nodeID ns g)"

text \<open>
  \<^verbatim>\<open>monitorLoop\<close>: it makes its ticker, collects at once and then at every tick until its
  context is done.
\<close>

fun collect_ticks ::
    "'db gorm \<Rightarrow> 'b msgpack \<Rightarrow> ('m, 'b) net \<Rightarrow> string \<Rightarrow> ((nat \<Rightarrow> gotime) \<times> host_probe) list
       \<Rightarrow> ('m, 'db) gossip \<Rightarrow> ('m, 'db) gossip go" where
  "collect_ticks D M N nodeID [] g = Inr g"
| "collect_ticks D M N nodeID ((clk, probe) # ts) g =
     go_bind (collectAndPublish D M N clk nodeID probe g) (collect_ticks D M N nodeID ts)"

definition monitorLoop ::
    "'db gorm \<Rightarrow> 'b msgpack \<Rightarrow> ('m, 'b) net \<Rightarrow> Config \<Rightarrow> string \<Rightarrow> (nat \<Rightarrow> gotime) \<times> host_probe
       \<Rightarrow> ((nat \<Rightarrow> gotime) \<times> host_probe) list \<Rightarrow> ('m, 'db) gossip \<Rightarrow> ('m, 'db) gossip go" where
  "monitorLoop D M N cfg nodeID first ticks g =
     go_bind (new_ticker (mc_Interval (cfg_Monitor cfg))) (\<lambda>_. collect_ticks D M N nodeID (first # ticks) g)"

text \<open>One tick of \<^verbatim>\<open>cleanupLoop\<close>, whose ticker has the fixed interval of one hour.\<close>

definition cleanup_tick :: "'db gorm \<Rightarrow> gotime \<Rightarrow> Config \<Rightarrow> ('m, 'db) gossip \<Rightarrow> ('m, 'db) gossip go" where
  "cleanup_tick D now cfg g =
     (case gp_store g of
        None \<Rightarrow> Inl NilDereference
      | Some d \<Rightarrow> Inr (g\<lparr>gp_store := Some (snd (CleanOldRecords D now (sc_Retention (cfg_Storage cfg)) d))\<rparr>))"

section \<open>A collection that succeeds\<close>

lemma recovered_clock_ok:
  "gp_store g \<noteq> None \<Longrightarrow> \<exists>m. recovered_clock D n (Some c) g = Inr (Some m)"
  using Merge_Some by (fastforce simp: recovered_clock_def store_node_def split: option.splits sum.splits)

lemma Increment_Some: "\<exists>m'. Increment (Some m) n = Inr (Some m')"
  by (simp add: Increment_def)

lemma BroadcastLocalState_frame:
  "BroadcastLocalState M N now ns g = (e, g') \<Longrightarrow> \<exists>l. g' = g\<lparr>gp_list := l\<rparr>"
  by (rule exI [of _ "gp_list g'"]) (auto simp: BroadcastLocalState_def split: sum.splits)

text \<open>What a collection prepares when the host can be measured, and what its publication does.\<close>

lemma prepare_ok:
  assumes hm: "GetHostMonitor probe = Inr hm" and st: "gp_store g \<noteq> None"
  obtains ns c1 m where "collect_prepare D clk n probe g = Inr (Some ns)"
    "recovered_clock D n (Some mempty) g = Inr (Some c1)" "Increment (Some c1) n = Inr (Some m)"
    "ns = (ToNodeState (clk 0) n hm)\<lparr>ns_Clock := Some m, ns_LastUpdated := clk 1, ns_LastSeen := clk 2\<rparr>"
proof -
  obtain c1 where c1: "recovered_clock D n (Some mempty) g = Inr (Some c1)"
    using recovered_clock_ok [OF st] by blast
  obtain m where m: "Increment (Some c1) n = Inr (Some m)" using Increment_Some by blast
  have none: "ns_Clock (ToNodeState (clk 0) n hm) = None" by (simp add: ToNodeState_def)
  have eq: "(ToNodeState (clk 0) n hm)\<lparr>ns_Clock := Some m, ns_LastUpdated := clk 1, ns_LastSeen := clk 2,
      ns_Status := ''active''\<rparr> =
      (ToNodeState (clk 0) n hm)\<lparr>ns_Clock := Some m, ns_LastUpdated := clk 1, ns_LastSeen := clk 2\<rparr>"
    by (simp add: ToNodeState_def)
  have "collect_prepare D clk n probe g =
      Inr (Some ((ToNodeState (clk 0) n hm)\<lparr>ns_Clock := Some m, ns_LastUpdated := clk 1, ns_LastSeen := clk 2\<rparr>))"
    by (simp add: collect_prepare_def hm none c1 m Let_def eq [unfolded One_nat_def])
  from that [OF this c1 m refl] show thesis .
qed

lemma publish_ok:
  assumes "gp_store g \<noteq> None"
  shows "\<exists>g'. collect_publish D M N clk n ns g = Inr g' \<and> gp_sm g' = UpdateLocalNode (clk 3) ns (gp_sm g) \<and>
    gp_store g' \<noteq> None \<and> gp_localNode g' = gp_localNode g \<and> gp_pendingSyncs g' = gp_pendingSyncs g \<and>
    gp_heap g' = gp_heap g \<and> gp_go g' = gp_go g"
proof -
  obtain d where d: "gp_store g = Some d" using assms by blast
  obtain e l where "BroadcastLocalState M N (clk 4) ns (g\<lparr>gp_sm := UpdateLocalNode (clk 3) ns (gp_sm g)\<rparr>) =
      (e, g\<lparr>gp_sm := UpdateLocalNode (clk 3) ns (gp_sm g), gp_list := l\<rparr>)"
    using BroadcastLocalState_frame [of M N "clk 4" ns "g\<lparr>gp_sm := UpdateLocalNode (clk 3) ns (gp_sm g)\<rparr>"]
    by (metis prod.exhaust)
  then show ?thesis by (simp add: collect_publish_def persist_def d)
qed

lemma prepare_total: "gp_store g \<noteq> None \<Longrightarrow> \<exists>r. collect_prepare D clk n probe g = Inr r"
proof (cases "GetHostMonitor probe")
  case (Inr hm)
  assume "gp_store g \<noteq> None"
  from prepare_ok [OF Inr this, where D = D and clk = clk and n = n] show ?thesis by blast
qed (simp add: collect_prepare_def)

end
