(* ===== verification/GossipSync.thy ===== *)
theory GossipSync
  imports Gossip
begin

text \<open>
  The history synchronisation under concurrency. \<^verbatim>\<open>handleHistoryPullResponse\<close> releases its
  mutex between its sections and memberlist calls it from one goroutine per connection, so a
  response being handled is a thread that runs one section at a time, between which starts,
  waits, goroutines and other responses may run. The step relation has one rule per section; the
  handler of \<open>Gossip\<close> is the run of one thread without interruption.
\<close>

section \<open>The sections of the response handler\<close>

datatype resp_thread =
    RImport nat HistoryPullResponsePayload
  | RAdvance nat HistoryPullResponsePayload i64
  | RMore nat
  | RLast nat
  | RFail nat sync_error

fun resp_step ::
    "'db gorm \<Rightarrow> resp_thread \<Rightarrow> ('m, 'db) gossip \<Rightarrow> (resp_thread option \<times> ('m, 'db) gossip) go" where
  "resp_step D (RImport a payload) g =
     go_bind (import_page D (rp_Records payload) (gp_store g)) (\<lambda>((inserted, err), st).
       Inr (case err of
              Some e \<Rightarrow> (Some (RFail a (StoreError e)), g\<lparr>gp_store := st\<rparr>)
            | None \<Rightarrow> (Some (RAdvance a payload inserted), g\<lparr>gp_store := st\<rparr>)))"
| "resp_step D (RAdvance a payload inserted) g =
     go_bind (resp_advance a payload inserted g) (\<lambda>g1.
       Inr (Some (if rp_HasMore payload then RMore a else RLast a), g1))"
| "resp_step D (RMore a) g = go_bind (resp_more a g) (\<lambda>g1. Inr (None, g1))"
| "resp_step D (RLast a) g = go_bind (resp_last D a g) (\<lambda>g1. Inr (None, g1))"
| "resp_step D (RFail a e) g = go_bind (failPendingSync a (Some e) g) (\<lambda>g1. Inr (None, g1))"

fun resp_run :: "nat \<Rightarrow> 'db gorm \<Rightarrow> resp_thread option \<Rightarrow> ('m, 'db) gossip \<Rightarrow> ('m, 'db) gossip go" where
  "resp_run n D None g = Inr g"
| "resp_run 0 D (Some t) g = Inr g"
| "resp_run (Suc n) D (Some t) g = go_bind (resp_step D t g) (\<lambda>(t', g'). resp_run n D t' g')"

lemma go_bind_assoc [simp]: "go_bind (go_bind m f) h = go_bind m (\<lambda>x. go_bind (f x) h)"
  by (cases m) simp_all

lemma go_bind_Inr [simp]: "go_bind m Inr = m"
  by (cases m) simp_all

lemma resp_run_None [simp]: "resp_run n D None g = Inr g"
  by (cases n) simp_all

lemma handle_is_resp_run:
  "handleHistoryPullResponse D payload g =
     resp_run 3 D (map_option (\<lambda>a. RImport a payload) (mget (gp_pendingSyncs g) (rp_RequestID payload))) g"
proof (cases "mget (gp_pendingSyncs g) (rp_RequestID payload)")
  case None
  then show ?thesis by (simp add: handleHistoryPullResponse_def)
next
  case (Some a)
  show ?thesis
  proof (cases "import_page D (rp_Records payload) (gp_store g)")
    case (Inl p)
    with Some show ?thesis by (simp add: handleHistoryPullResponse_def numeral_3_eq_3)
  next
    case (Inr r)
    obtain inserted err st where r: "r = ((inserted, err), st)" by (metis prod.exhaust)
    show ?thesis
    proof (cases err)
      case None
      with Some Inr r show ?thesis
        by (cases "resp_advance a payload inserted (g\<lparr>gp_store := st\<rparr>)")
           (simp_all add: handleHistoryPullResponse_def numeral_3_eq_3)
    qed (use Some Inr r in \<open>simp add: handleHistoryPullResponse_def numeral_3_eq_3\<close>)
  qed
qed

section \<open>The invariant of the pending syncs\<close>

text \<open>
  An entry of \<^verbatim>\<open>pendingSyncs\<close> is the only object with its identifier and its result channel
  is open and empty: whoever removes the entry may send the one result and close the channel.
\<close>

definition req_id :: "('m, 'db) gossip \<Rightarrow> i64 \<Rightarrow> string" where
  "req_id g u = gp_localNode g @ ''-'' @ show_int (i64_int u)"

definition sync_obj_ok :: "pendingSync \<Rightarrow> bool" where
  "sync_obj_ok ps \<longleftrightarrow> ps_limit ps = i64_of 500 \<and> ch_cap (ps_done ps) = 1 \<and> chan_ok (ps_done ps)"

definition pending_ok :: "('m, 'db) gossip \<Rightarrow> bool" where
  "pending_ok g \<longleftrightarrow>
     (\<forall>i a. mget (gp_pendingSyncs g) i = Some a \<longrightarrow>
        (\<exists>ps. mget (gp_heap g) a = Some ps \<and> ps_reqID ps = i \<and> ch_buf (ps_done ps) = [] \<and>
              \<not> ch_closed (ps_done ps))) \<and>
     (\<forall>a ps b. mget (gp_heap g) a = Some ps \<longrightarrow> mget (gp_pendingSyncs g) (ps_reqID ps) = Some b \<longrightarrow> a = b)"

definition heap_ok :: "i64 list \<Rightarrow> ('m, 'db) gossip \<Rightarrow> bool" where
  "heap_ok used g \<longleftrightarrow>
     dom (mget (gp_heap g)) = {..<length (mentries (gp_heap g))} \<and>
     (\<forall>a ps. mget (gp_heap g) a = Some ps \<longrightarrow> sync_obj_ok ps \<and> (\<exists>u \<in> set used. ps_reqID ps = req_id g u))"

lemma pending_okD:
  assumes "pending_ok g"
  shows "mget (gp_pendingSyncs g) i = Some a \<Longrightarrow>
      \<exists>ps. mget (gp_heap g) a = Some ps \<and> ps_reqID ps = i \<and> ch_buf (ps_done ps) = [] \<and> \<not> ch_closed (ps_done ps)"
    and "mget (gp_heap g) a = Some ps \<Longrightarrow> mget (gp_pendingSyncs g) (ps_reqID ps) = Some b \<Longrightarrow> a = b"
  using assms unfolding pending_ok_def by blast+

lemma heap_okD:
  "heap_ok used g \<Longrightarrow> mget (gp_heap g) a = Some ps \<Longrightarrow>
     sync_obj_ok ps \<and> (\<exists>u \<in> set used. ps_reqID ps = req_id g u)"
  unfolding heap_ok_def by blast

fun go_addr :: "goroutine \<Rightarrow> nat" where
  "go_addr (GoStart a) = a"
| "go_addr (GoSend a) = a"

fun thread_addr :: "resp_thread \<Rightarrow> nat" where
  "thread_addr (RImport a _) = a"
| "thread_addr (RAdvance a _ _) = a"
| "thread_addr (RMore a) = a"
| "thread_addr (RLast a) = a"
| "thread_addr (RFail a _) = a"

definition refs_ok :: "resp_thread list \<Rightarrow> ('m, 'db) gossip \<Rightarrow> bool" where
  "refs_ok ts g \<longleftrightarrow>
     (\<forall>gr \<in> set (gp_go g). mget (gp_heap g) (go_addr gr) \<noteq> None) \<and>
     (\<forall>t \<in> set ts. mget (gp_heap g) (thread_addr t) \<noteq> None)"

definition sync_inv :: "resp_thread list \<Rightarrow> i64 list \<Rightarrow> ('m, 'db) gossip \<Rightarrow> bool" where
  "sync_inv ts used g \<longleftrightarrow> gp_store g \<noteq> None \<and> pending_ok g \<and> heap_ok used g \<and> refs_ok ts g"

lemma sync_inv_cong:
  "gp_store g' \<noteq> None \<Longrightarrow> gp_pendingSyncs g' = gp_pendingSyncs g \<Longrightarrow> gp_heap g' = gp_heap g \<Longrightarrow>
   gp_localNode g' = gp_localNode g \<Longrightarrow> set (gp_go g') \<subseteq> set (gp_go g) \<Longrightarrow>
   sync_inv ts used g \<Longrightarrow> sync_inv ts used g'"
  by (auto simp: sync_inv_def pending_ok_def heap_ok_def refs_ok_def req_id_def)

lemma length_heap_put:
  "mget m a \<noteq> None \<Longrightarrow> length (mentries (mput a v m)) = length (mentries m)"
proof -
  assume "mget m a \<noteq> None"
  then have "dom (mget (mput a v m)) = dom (mget m)"
    by (auto simp: DAList.lookup_update split: if_splits)
  then show ?thesis by (simp only: length_mentries)
qed

text \<open>Replacing an object by one with the same identity.\<close>

lemma heap_ok_replace:
  assumes ok: "heap_ok used g" and at: "mget (gp_heap g) a = Some ps"
    and new: "sync_obj_ok ps'" "ps_reqID ps' = ps_reqID ps"
    and g': "gp_heap g' = mput a ps' (gp_heap g)" "gp_localNode g' = gp_localNode g"
  shows "heap_ok used g'"
proof -
  have "dom (mget (gp_heap g')) = dom (mget (gp_heap g))"
    using at by (auto simp: g' DAList.lookup_update dom_def)
  moreover have "length (mentries (gp_heap g')) = length (mentries (gp_heap g))"
    using at by (simp add: g' length_heap_put)
  moreover have "sync_obj_ok q \<and> (\<exists>u \<in> set used. ps_reqID q = req_id g' u)"
    if "mget (gp_heap g') b = Some q" for b q
    using that ok at new by (auto simp: heap_ok_def req_id_def g' DAList.lookup_update split: if_splits)
  ultimately show ?thesis
    using ok unfolding heap_ok_def by metis
qed

lemma refs_ok_heap:
  assumes "refs_ok ts g" and "\<And>b. mget (gp_heap g) b \<noteq> None \<Longrightarrow> mget (gp_heap g') b \<noteq> None"
    and "\<And>gr. gr \<in> set (gp_go g') \<Longrightarrow> gr \<in> set (gp_go g) \<or> mget (gp_heap g') (go_addr gr) \<noteq> None"
  shows "refs_ok ts g'"
  using assms unfolding refs_ok_def by blast

section \<open>No section can panic\<close>

lemma fail_step:
  assumes inv: "sync_inv ts used g" and a: "mget (gp_heap g) a = Some ps"
  shows "\<exists>g'. failPendingSync a err g = Inr g' \<and> sync_inv ts used g' \<and>
    mget (gp_pendingSyncs g') (ps_reqID ps) = None \<and> gp_sm g' = gp_sm g \<and> gp_store g' = gp_store g \<and>
    gp_go g' = gp_go g \<and>
    mget (gp_heap g') a = Some (if mget (gp_pendingSyncs g) (ps_reqID ps) = None then ps
       else ps\<lparr>ps_done := (ps_done ps)\<lparr>ch_buf := [err], ch_closed := True\<rparr>\<rparr>)"
proof (cases "mget (gp_pendingSyncs g) (ps_reqID ps)")
  case None
  with inv a show ?thesis by (simp add: failPendingSync_def deref_def)
next
  case (Some b)
  have pend: "pending_ok g" and heap: "heap_ok used g" and refs: "refs_ok ts g" and store: "gp_store g \<noteq> None"
    using inv by (simp_all add: sync_inv_def)
  have "b = a" using pending_okD(2) [OF pend a Some] by simp
  with pending_okD(1) [OF pend Some] a have d: "ch_buf (ps_done ps) = []" "\<not> ch_closed (ps_done ps)"
    by auto
  have ok: "sync_obj_ok ps" using heap_okD [OF heap a] by simp
  let ?ps = "ps\<lparr>ps_done := (ps_done ps)\<lparr>ch_buf := [err], ch_closed := True\<rparr>\<rparr>"
  let ?g = "g\<lparr>gp_pendingSyncs := mdel (ps_reqID ps) (gp_pendingSyncs g), gp_heap := mput a ?ps (gp_heap g)\<rparr>"
  have run: "failPendingSync a err g = Inr ?g"
    using a Some d ok
    by (simp add: failPendingSync_def deref_def send_chan_def close_chan_def Let_def sync_obj_ok_def)
  have "sync_obj_ok ?ps" using ok by (simp add: sync_obj_ok_def chan_ok_def)
  then have "heap_ok used ?g"
    using heap_ok_replace [OF heap a, of ?ps ?g] by simp
  moreover have "refs_ok ts ?g"
    by (rule refs_ok_heap [OF refs]) (simp_all add: DAList.lookup_update)
  moreover have "pending_ok ?g"
    unfolding pending_ok_def
  proof (intro conjI allI impI)
    fix i b
    assume "mget (gp_pendingSyncs ?g) i = Some b"
    then have ib: "mget (gp_pendingSyncs g) i = Some b" "i \<noteq> ps_reqID ps" by (simp_all split: if_splits)
    from pending_okD(1) [OF pend ib(1)] obtain q where q: "mget (gp_heap g) b = Some q" "ps_reqID q = i"
      "ch_buf (ps_done q) = []" "\<not> ch_closed (ps_done q)" by blast
    with ib(2) a have "b \<noteq> a" by auto
    with q show "\<exists>q. mget (gp_heap ?g) b = Some q \<and> ps_reqID q = i \<and> ch_buf (ps_done q) = [] \<and>
        \<not> ch_closed (ps_done q)"
      by (simp add: DAList.lookup_update)
  next
    fix b q c
    assume q: "mget (gp_heap ?g) b = Some q" "mget (gp_pendingSyncs ?g) (ps_reqID q) = Some c"
    then have ne: "ps_reqID q \<noteq> ps_reqID ps" "mget (gp_pendingSyncs g) (ps_reqID q) = Some c"
      by (simp_all split: if_splits)
    with q(1) have "mget (gp_heap g) b = Some q" by (auto simp: DAList.lookup_update split: if_splits)
    from pending_okD(2) [OF pend this ne(2)] show "b = c" .
  qed
  ultimately show ?thesis
    using run store by (simp add: sync_inv_def DAList.lookup_update Some)
qed

lemma sync_inv_heap:
  "sync_inv ts used g \<Longrightarrow> mget (gp_heap g) a \<noteq> None \<Longrightarrow> \<exists>ps. mget (gp_heap g) a = Some ps \<and> sync_obj_ok ps"
  using heap_okD by (fastforce simp: sync_inv_def)

lemma fail_step_ok:
  assumes "sync_inv ts used g" and "mget (gp_heap g) a \<noteq> None"
  shows "\<exists>g'. failPendingSync a err g = Inr g' \<and> sync_inv ts used g'"
proof -
  obtain ps where "mget (gp_heap g) a = Some ps" using assms(2) by blast
  from fail_step [OF assms(1) this, of err] show ?thesis by blast
qed

lemma send_step:
  assumes inv: "sync_inv ts used g" and a: "mget (gp_heap g) a \<noteq> None"
  shows "\<exists>g'. sendHistoryPullRequest M N now a g = Inr g' \<and> sync_inv ts used g'"
proof -
  obtain ps where ps: "mget (gp_heap g) a = Some ps" using a by blast
  have inv': "sync_inv ts used (g\<lparr>gp_list := l\<rparr>)" for l
    using sync_inv_cong [of "g\<lparr>gp_list := l\<rparr>" g ts used] inv by (simp add: sync_inv_def)
  then have "\<exists>g'. failPendingSync a err (g\<lparr>gp_list := l\<rparr>) = Inr g' \<and> sync_inv ts used g'" for err l
    using fail_step_ok [OF inv'] a by simp
  moreover have "\<exists>g'. failPendingSync a err g = Inr g' \<and> sync_inv ts used g'" for err
    using fail_step_ok [OF inv a] .
  ultimately show ?thesis
    using ps inv'
    by (auto simp: sendHistoryPullRequest_def deref_def Let_def split: sum.splits prod.splits option.splits)
qed

lemma goroutine_step:
  assumes "sync_inv ts used g" and "mget (gp_heap g) (go_addr gr) \<noteq> None"
  shows "\<exists>g'. run_goroutine M N now ctx gr g = Inr g' \<and> sync_inv ts used g'"
  using send_step [OF assms] fail_step_ok [OF assms] by (cases gr) (auto split: option.splits)

lemma sync_inv_threads: "sync_inv ts used g \<Longrightarrow> set ts' \<subseteq> set ts \<Longrightarrow> sync_inv ts' used g"
  by (auto simp: sync_inv_def refs_ok_def)

lemma sync_inv_add_thread:
  "sync_inv ts used g \<Longrightarrow> mget (gp_heap g) (thread_addr t) \<noteq> None \<Longrightarrow> sync_inv (t # ts) used g"
  by (auto simp: sync_inv_def refs_ok_def)

lemma sync_inv_go:
  "sync_inv ts used g \<Longrightarrow> mget (gp_heap g) (go_addr gr) \<noteq> None \<Longrightarrow> sync_inv ts used (g\<lparr>gp_go := gp_go g @ [gr]\<rparr>)"
  by (auto simp: sync_inv_def refs_ok_def pending_ok_def heap_ok_def req_id_def)

text \<open>Replacing an object by one with the same identifier and the same channel.\<close>

lemma sync_inv_replace:
  assumes inv: "sync_inv ts used g" and at: "mget (gp_heap g) a = Some ps"
    and new: "sync_obj_ok ps'" "ps_reqID ps' = ps_reqID ps" "ps_done ps' = ps_done ps"
  shows "sync_inv ts used (g\<lparr>gp_heap := mput a ps' (gp_heap g)\<rparr>)"
proof -
  let ?g = "g\<lparr>gp_heap := mput a ps' (gp_heap g)\<rparr>"
  have pend: "pending_ok g" and heap: "heap_ok used g" and refs: "refs_ok ts g" and store: "gp_store g \<noteq> None"
    using inv by (simp_all add: sync_inv_def)
  have "heap_ok used ?g"
    using heap_ok_replace [OF heap at new(1,2), of ?g] by simp
  moreover have "refs_ok ts ?g"
    by (rule refs_ok_heap [OF refs]) (simp_all add: DAList.lookup_update)
  moreover have "pending_ok ?g"
    unfolding pending_ok_def
  proof (intro conjI allI impI)
    fix i b
    assume "mget (gp_pendingSyncs ?g) i = Some b"
    with pending_okD(1) [OF pend, of i b] at new
    show "\<exists>q. mget (gp_heap ?g) b = Some q \<and> ps_reqID q = i \<and> ch_buf (ps_done q) = [] \<and> \<not> ch_closed (ps_done q)"
      by (auto simp: DAList.lookup_update)
  next
    fix b q c
    assume q: "mget (gp_heap ?g) b = Some q" "mget (gp_pendingSyncs ?g) (ps_reqID q) = Some c"
    then show "b = c"
      using pending_okD(2) [OF pend, of b _ c] at new by (auto simp: DAList.lookup_update split: if_splits)
  qed
  ultimately show ?thesis using store by (simp add: sync_inv_def)
qed

lemma advance_step:
  assumes inv: "sync_inv ts used g" and a: "mget (gp_heap g) a \<noteq> None"
  shows "\<exists>g'. resp_advance a payload n g = Inr g' \<and> sync_inv ts used g' \<and> mget (gp_heap g') a \<noteq> None"
proof -
  obtain ps where ps: "mget (gp_heap g) a = Some ps" "sync_obj_ok ps"
    using sync_inv_heap [OF inv a] by blast
  let ?ps = "ps\<lparr>ps_total := i64_add (ps_total ps) n,
                ps_offset := (if rp_HasMore payload then rp_NextOffset payload else ps_offset ps)\<rparr>"
  have "sync_obj_ok ?ps" using ps(2) by (simp add: sync_obj_ok_def)
  from sync_inv_replace [OF inv ps(1) this] ps(1) show ?thesis
    by (simp add: resp_advance_def deref_def DAList.lookup_update)
qed

lemma more_step:
  assumes inv: "sync_inv ts used g" and a: "mget (gp_heap g) a \<noteq> None"
  shows "\<exists>g'. resp_more a g = Inr g' \<and> sync_inv ts used g'"
proof -
  obtain ps where ps: "mget (gp_heap g) a = Some ps" "sync_obj_ok ps"
    using sync_inv_heap [OF inv a] by blast
  have "i64_int (ps_limit ps) = 500" using ps(2) by (simp add: sync_obj_ok_def i64_int_of)
  then obtain pages where "i64_quot (ps_offset ps) (ps_limit ps) = Inr pages"
    by (simp add: i64_quot_def)
  with ps(1) fail_step_ok [OF inv a] sync_inv_go [OF inv, of "GoSend a"] a inv show ?thesis
    by (auto simp: resp_more_def deref_def)
qed

lemma last_step:
  assumes inv: "sync_inv ts used g" and a: "mget (gp_heap g) a \<noteq> None"
  shows "\<exists>g'. resp_last D a g = Inr g' \<and> sync_inv ts used g'"
proof -
  obtain d where d: "gp_store g = Some d" using inv by (auto simp: sync_inv_def)
  have "sync_inv ts used (g\<lparr>gp_sm := sm\<rparr>)" for sm
    using sync_inv_cong [of "g\<lparr>gp_sm := sm\<rparr>" g ts used] inv by (simp add: sync_inv_def)
  then have "\<exists>g'. failPendingSync a None (g\<lparr>gp_sm := sm\<rparr>) = Inr g' \<and> sync_inv ts used g'" for sm
    using fail_step_ok [of ts used "g\<lparr>gp_sm := sm\<rparr>" a None] a by simp
  with fail_step_ok [OF inv a, of None] d show ?thesis
    by (auto simp: resp_last_def split: sum.splits)
qed

lemma resp_step_ok:
  assumes inv: "sync_inv ts used g" and t: "t \<in> set ts"
  shows "\<exists>t' g'. resp_step D t g = Inr (t', g') \<and>
    sync_inv (case t' of None \<Rightarrow> ts | Some u \<Rightarrow> u # ts) used g'"
proof -
  have a: "mget (gp_heap g) (thread_addr t) \<noteq> None"
    using inv t by (simp add: sync_inv_def refs_ok_def)
  show ?thesis
  proof (cases t)
    case (RImport b payload)
    obtain d where d: "gp_store g = Some d" using inv by (auto simp: sync_inv_def)
    obtain n err d' where imp: "ImportHistoryRecords D (rp_Records payload) d = ((n, err), d')"
      by (metis prod.exhaust)
    have "sync_inv ts used (g\<lparr>gp_store := Some d'\<rparr>)"
      using sync_inv_cong [of "g\<lparr>gp_store := Some d'\<rparr>" g ts used] inv by simp
    then have "sync_inv (u # ts) used (g\<lparr>gp_store := Some d'\<rparr>)" if "thread_addr u = b" for u
      using sync_inv_add_thread [of ts used "g\<lparr>gp_store := Some d'\<rparr>" u] a that RImport by simp
    with imp d RImport show ?thesis
      by (auto simp: import_page_def split: option.splits)
  next
    case (RAdvance b payload n)
    with advance_step [OF inv, of b payload n] a obtain g' where g': "resp_advance b payload n g = Inr g'"
      "sync_inv ts used g'" "mget (gp_heap g') b \<noteq> None" by auto
    with sync_inv_add_thread [OF g'(2), of "if rp_HasMore payload then RMore b else RLast b"] RAdvance
    show ?thesis by auto
  next
    case (RMore b)
    with more_step [OF inv, of b] a show ?thesis by auto
  next
    case (RLast b)
    with last_step [OF inv, of b] a show ?thesis by auto
  next
    case (RFail b e)
    with fail_step_ok [OF inv, of b "Some e"] a show ?thesis by auto
  qed
qed

lemma resp_run_ok:
  assumes "sync_inv ts used g" and "\<And>t. ot = Some t \<Longrightarrow> mget (gp_heap g) (thread_addr t) \<noteq> None"
  shows "\<exists>g'. resp_run n D ot g = Inr g' \<and> sync_inv ts used g'"
  using assms
proof (induction n D ot g arbitrary: ts rule: resp_run.induct)
  case (3 n D t g)
  from sync_inv_add_thread [OF 3(2)] 3(3) have inv: "sync_inv (t # ts) used g" by simp
  then obtain t' g' where st: "resp_step D t g = Inr (t', g')"
    "sync_inv (case t' of None \<Rightarrow> t # ts | Some u \<Rightarrow> u # t # ts) used g'"
    using resp_step_ok [OF inv, of t D] by auto
  have "sync_inv ts used g'"
    by (rule sync_inv_threads [OF st(2)]) (auto split: option.splits)
  moreover have "mget (gp_heap g') (thread_addr u) \<noteq> None" if "t' = Some u" for u
    using st(2) that by (simp add: sync_inv_def refs_ok_def)
  ultimately have "\<exists>g2. resp_run n D t' g' = Inr g2 \<and> sync_inv ts used g2"
    using "3.IH" [of ts g' t'] by blast
  with st(1) show ?case by simp
qed auto

lemma handle_response_ok:
  assumes inv: "sync_inv ts used g"
  shows "\<exists>g'. handleHistoryPullResponse D p g = Inr g' \<and> sync_inv ts used g'"
proof -
  have "pending_ok g" using inv by (simp add: sync_inv_def)
  from pending_okD(1) [OF this, of "rp_RequestID p"]
  have "mget (gp_heap g) (thread_addr t) \<noteq> None"
    if "map_option (\<lambda>a. RImport a p) (mget (gp_pendingSyncs g) (rp_RequestID p)) = Some t" for t
    using that by auto
  from resp_run_ok [OF inv this] show ?thesis
    unfolding handle_is_resp_run by blast
qed

section \<open>Starting and waiting\<close>

lemma req_id_inject [simp]: "req_id g u = req_id g v \<longleftrightarrow> u = v"
  by (simp add: req_id_def)

lemma sync_inv_used: "sync_inv ts used g \<Longrightarrow> set used \<subseteq> set used' \<Longrightarrow> sync_inv ts used' g"
  unfolding sync_inv_def heap_ok_def by blast

lemma dom_heap_fresh:
  assumes "dom (mget m) = {..<length (mentries m)}"
  shows "mget m (length (mentries m)) = None"
    and "dom (mget (mput (length (mentries m)) v m)) = {..<length (mentries (mput (length (mentries m)) v m))}"
proof -
  have "length (mentries m) \<notin> dom (mget m)" unfolding assms by simp
  then show "mget m (length (mentries m)) = None" by (simp add: domIff)
  have d: "dom (mget (mput (length (mentries m)) v m)) = {..<Suc (length (mentries m))}"
  proof -
    have "dom (mget (mput (length (mentries m)) v m)) = insert (length (mentries m)) (dom (mget m))"
      by (auto simp: DAList.lookup_update split: if_splits)
    also have "\<dots> = {..<Suc (length (mentries m))}" unfolding assms by (rule lessThan_Suc [symmetric])
    finally show ?thesis .
  qed
  show "dom (mget (mput (length (mentries m)) v m)) = {..<length (mentries (mput (length (mentries m)) v m))}"
    using length_mentries [of "mput (length (mentries m)) v m"] unfolding d by simp
qed

lemma start_step:
  assumes inv: "sync_inv ts used g" and new: "UnixNano now \<notin> set used"
    and start: "SyncHistoryOnJoin_start N now g = (r, g')"
  shows "sync_inv ts (UnixNano now # used) g'"
proof (cases r)
  case None
  then have "g' = g"
    using start by (auto simp: SyncHistoryOnJoin_start_def Let_def split: if_splits option.splits)
  with sync_inv_used [OF inv, of "UnixNano now # used"] show ?thesis by auto
next
  case (Some a)
  have pend: "pending_ok g" and heap: "heap_ok used g" and refs: "refs_ok ts g" and store: "gp_store g \<noteq> None"
    using inv by (simp_all add: sync_inv_def)
  note fresh = dom_heap_fresh [of "gp_heap g"]
  have dom: "dom (mget (gp_heap g)) = {..<length (mentries (gp_heap g))}"
    using heap by (simp only: heap_ok_def)
  let ?id = "req_id g (UnixNano now)"
  obtain peer ps where ps: "ps = \<lparr>ps_reqID = ?id, ps_peer = peer, ps_offset = i64_of 0, ps_limit = i64_of 500,
      ps_total = i64_of 0, ps_done = make_chan 1\<rparr>"
    and a: "a = length (mentries (gp_heap g))"
    and g': "g' = g\<lparr>gp_heap := mput a ps (gp_heap g), gp_pendingSyncs := mput ?id a (gp_pendingSyncs g),
                   gp_go := gp_go g @ [GoStart a]\<rparr>"
    using start Some
    by (auto simp: SyncHistoryOnJoin_start_def Let_def req_id_def split: if_splits option.splits)
  have none: "mget (gp_heap g) a = None" using fresh(1) [OF dom] by (simp add: a)
  have hp: "gp_heap g' = mput a ps (gp_heap g)" by (simp add: g')
  have get: "mget (gp_heap g') b = (if b = a then Some ps else mget (gp_heap g) b)" for b
    by (simp add: g' DAList.lookup_update)
  have getp: "mget (gp_pendingSyncs g') i = (if i = ?id then Some a else mget (gp_pendingSyncs g) i)" for i
    by (simp add: g' DAList.lookup_update)
  have old: "ps_reqID q \<noteq> ?id" if "mget (gp_heap g) b = Some q" for b q
    using heap_okD [OF heap that] new by auto
  have "heap_ok (UnixNano now # used) g'"
    unfolding heap_ok_def
  proof (intro conjI allI impI)
    show "dom (mget (gp_heap g')) = {..<length (mentries (gp_heap g'))}"
      using fresh(2) [OF dom, of ps] unfolding hp a .
  next
    fix b q
    assume b: "mget (gp_heap g') b = Some q"
    have id: "req_id g' = req_id g" by (simp add: req_id_def fun_eq_iff g')
    show "sync_obj_ok q" "\<exists>u \<in> set (UnixNano now # used). ps_reqID q = req_id g' u"
      using b heap_okD [OF heap, of b q] unfolding get id
      by (auto simp: ps sync_obj_ok_def split: if_splits)
  qed
  moreover have "refs_ok ts g'"
    by (rule refs_ok_heap [OF refs]) (auto simp: g' DAList.lookup_update)
  moreover have "pending_ok g'"
    unfolding pending_ok_def
  proof (intro conjI allI impI)
    fix i b
    assume ib: "mget (gp_pendingSyncs g') i = Some b"
    show "\<exists>q. mget (gp_heap g') b = Some q \<and> ps_reqID q = i \<and> ch_buf (ps_done q) = [] \<and> \<not> ch_closed (ps_done q)"
    proof (cases "i = ?id")
      case True
      with ib show ?thesis by (simp add: get getp ps)
    next
      case False
      with ib pending_okD(1) [OF pend, of i b] none show ?thesis by (auto simp: get getp)
    qed
  next
    fix b q c
    assume q: "mget (gp_heap g') b = Some q" "mget (gp_pendingSyncs g') (ps_reqID q) = Some c"
    show "b = c"
    proof (cases "b = a")
      case True
      with q have "q = ps" by (simp add: get)
      moreover have "ps_reqID ps = ?id" by (simp add: ps)
      ultimately show ?thesis using q True by (simp add: getp)
    next
      case False
      with q old pending_okD(2) [OF pend, of b q c] show ?thesis by (simp add: get getp)
    qed
  qed
  ultimately show ?thesis using store by (simp add: sync_inv_def g')
qed

lemma wait_step:
  assumes inv: "sync_inv ts used g" and wait: "SyncHistoryOnJoin_wait a w g = Some (e, g')"
  shows "sync_inv ts used g'"
proof -
  obtain ps where ps: "mget (gp_heap g) a = Some ps"
    using wait by (auto simp: SyncHistoryOnJoin_wait_def split: option.splits)
  have pend: "pending_ok g" and heap: "heap_ok used g" and refs: "refs_ok ts g" and store: "gp_store g \<noteq> None"
    using inv by (simp_all add: sync_inv_def)
  have ok: "sync_obj_ok ps" using heap_okD [OF heap ps] by simp
  have forget: "sync_inv ts used (g\<lparr>gp_pendingSyncs := mdel i (gp_pendingSyncs g)\<rparr>)" for i
    using inv by (auto simp: sync_inv_def pending_ok_def heap_ok_def refs_ok_def req_id_def)
  show ?thesis
  proof (cases w)
    case WakeDone
    obtain ch where ch: "recv_chan (ps_done ps) = Some (e, ch)"
      and g': "g' = g\<lparr>gp_heap := mput a (ps\<lparr>ps_done := ch\<rparr>) (gp_heap g)\<rparr>"
      using wait ps WakeDone by (auto simp: SyncHistoryOnJoin_wait_def Let_def split: option.splits)
    have "sync_obj_ok (ps\<lparr>ps_done := ch\<rparr>)"
      using ok recv_chan_ok [OF ch] by (simp add: sync_obj_ok_def)
    then have "heap_ok used g'"
      using heap_ok_replace [OF heap ps, of "ps\<lparr>ps_done := ch\<rparr>" g'] by (simp add: g')
    moreover have "refs_ok ts g'"
      by (rule refs_ok_heap [OF refs]) (auto simp: g' DAList.lookup_update)
    moreover have "pending_ok g'"
      unfolding pending_ok_def
    proof (intro conjI allI impI)
      fix i b
      assume "mget (gp_pendingSyncs g') i = Some b"
      with pending_okD(1) [OF pend, of i b] obtain q where q: "mget (gp_heap g) b = Some q" "ps_reqID q = i"
        "ch_buf (ps_done q) = []" "\<not> ch_closed (ps_done q)" by (auto simp: g')
      have "b \<noteq> a" using q ps ch by (auto simp: recv_chan_def)
      with q show "\<exists>q. mget (gp_heap g') b = Some q \<and> ps_reqID q = i \<and> ch_buf (ps_done q) = [] \<and>
          \<not> ch_closed (ps_done q)"
        by (simp add: g' DAList.lookup_update)
    next
      fix b q c
      assume "mget (gp_heap g') b = Some q" "mget (gp_pendingSyncs g') (ps_reqID q) = Some c"
      then show "b = c"
        using pending_okD(2) [OF pend, of b _ c] ps by (auto simp: g' DAList.lookup_update split: if_splits)
    qed
    ultimately show ?thesis using store by (simp add: sync_inv_def g')
  qed (use wait ps forget in \<open>auto simp: SyncHistoryOnJoin_wait_def Let_def\<close>)
qed

section \<open>The step relation\<close>

text \<open>
  A state is the manager, the responses being handled and the clock readings that earlier
  starts took (the request identifiers contain them). The rules are a start at a new reading, a
  wait that returns, a spawned goroutine, the arrival of a response to a pending request, one
  section of a response, a peer's request and the receipt of node states.
\<close>

type_synonym ('m, 'db) sync_conf = "('m, 'db) gossip \<times> resp_thread list \<times> i64 list"

inductive sync_step ::
    "'db gorm \<Rightarrow> 'b msgpack \<Rightarrow> ('m, 'b) net \<Rightarrow> ('m, 'db) sync_conf \<Rightarrow> ('m, 'db) sync_conf \<Rightarrow> bool"
  for D :: "'db gorm" and M :: "'b msgpack" and N :: "('m, 'b) net" where
  start: "UnixNano now \<notin> set used \<Longrightarrow> SyncHistoryOnJoin_start N now g = (r, g') \<Longrightarrow>
     sync_step D M N (g, ts, used) (g', ts, UnixNano now # used)"
| wait: "SyncHistoryOnJoin_wait a w g = Some (e, g') \<Longrightarrow> sync_step D M N (g, ts, used) (g', ts, used)"
| spawned: "gp_go g = xs @ gr # ys \<Longrightarrow> run_goroutine M N now ctx gr (g\<lparr>gp_go := xs @ ys\<rparr>) = Inr g' \<Longrightarrow>
     sync_step D M N (g, ts, used) (g', ts, used)"
| arrive: "mget (gp_pendingSyncs g) (rp_RequestID p) = Some a \<Longrightarrow>
     sync_step D M N (g, ts, used) (g, RImport a p # ts, used)"
| running: "ts = xs @ t # ys \<Longrightarrow> resp_step D t g = Inr (t', g') \<Longrightarrow>
     sync_step D M N (g, ts, used) (g', (case t' of None \<Rightarrow> xs @ ys | Some u \<Rightarrow> u # xs @ ys), used)"
| request: "handleHistoryPullRequest D M N now rq sender g = Inr g' \<Longrightarrow>
     sync_step D M N (g, ts, used) (g', ts, used)"
| states: "merge_all D clk nodes g = Inr g' \<Longrightarrow> sync_step D M N (g, ts, used) (g', ts, used)"

lemma recordEvent_store: "(recordEvent D ns et src st = None) = (st = None)"
  by (cases st) (simp_all add: recordEvent_def)

lemma MergeNodeState_store: "MergeNodeState D t r (sm, st) = Inr (c, sm', st') \<Longrightarrow> (st' = None) = (st = None)"
  by (auto simp: MergeNodeState_def record_pending_def recordEvent_store split: option.splits)

lemma merge_nodes_store: "merge_nodes D xs (sm, st) = Inr (sm', st') \<Longrightarrow> (st' = None) = (st = None)"
proof (induction xs arbitrary: sm st)
  case (Cons x xs)
  obtain t r where "x = (t, r)" by (cases x)
  with Cons show ?case by (auto dest!: MergeNodeState_store)
qed simp

lemma handleHistoryPullRequest_frame:
  "handleHistoryPullRequest D M N now rq sender g = Inr g' \<Longrightarrow> \<exists>l. g' = g\<lparr>gp_list := l\<rparr>"
  by (rule exI [of _ "gp_list g'"])
     (auto simp: handleHistoryPullRequest_def split: option.splits sum.splits prod.splits)

lemma sync_step_inv:
  assumes "sync_step D M N c c'" and "case c of (g, ts, used) \<Rightarrow> sync_inv ts used g"
  shows "case c' of (g, ts, used) \<Rightarrow> sync_inv ts used g"
  using assms
proof (induction rule: sync_step.induct)
  case (start now used g r g' ts)
  then show ?case using start_step by fastforce
next
  case (wait a w g e g' ts used)
  then show ?case using wait_step by fastforce
next
  case (spawned g xs gr ys now ctx g' ts used)
  let ?g = "g\<lparr>gp_go := xs @ ys\<rparr>"
  have inv: "sync_inv ts used g" using spawned.prems by simp
  have "sync_inv ts used ?g"
    by (rule sync_inv_cong [OF _ _ _ _ _ inv]) (use inv spawned.hyps(1) in \<open>auto simp: sync_inv_def\<close>)
  moreover have "mget (gp_heap ?g) (go_addr gr) \<noteq> None"
    using inv spawned.hyps(1) by (simp add: sync_inv_def refs_ok_def)
  ultimately show ?case
    using goroutine_step [of ts used ?g gr M N now ctx] spawned.hyps(2) by auto
next
  case (arrive g p a ts used)
  then have "sync_inv ts used g" by simp
  moreover from this have "mget (gp_heap g) a \<noteq> None"
    using pending_okD(1) [OF _ arrive.hyps] by (fastforce simp: sync_inv_def)
  ultimately show ?case using sync_inv_add_thread [of ts used g "RImport a p"] by simp
next
  case (running ts xs t ys g t' g' used)
  have inv: "sync_inv ts used g" using running.prems by simp
  have "t \<in> set ts" using running.hyps(1) by simp
  from resp_step_ok [OF inv this, of D] running.hyps(2)
  have "sync_inv (case t' of None \<Rightarrow> ts | Some u \<Rightarrow> u # ts) used g'" by simp
  then have "sync_inv (case t' of None \<Rightarrow> xs @ ys | Some u \<Rightarrow> u # xs @ ys) used g'"
    by (rule sync_inv_threads) (use running.hyps(1) in \<open>auto split: option.splits\<close>)
  then show ?case by simp
next
  case (request now rq sender g g' ts used)
  then obtain l where "g' = g\<lparr>gp_list := l\<rparr>" using handleHistoryPullRequest_frame by blast
  with request.prems sync_inv_cong [of g' g ts used] show ?case by (simp add: sync_inv_def)
next
  case (states clk nodes g g' ts used)
  then obtain sm st where g': "g' = g\<lparr>gp_sm := sm, gp_store := st\<rparr>" and
    "merge_nodes D (zip (List.map clk [0..<length nodes]) nodes) (gp_sm g, gp_store g) = Inr (sm, st)"
    by (auto simp: merge_all_def)
  then have "(st = None) = (gp_store g = None)" using merge_nodes_store by blast
  moreover have "sync_inv ts used g" using states.prems by simp
  ultimately have "sync_inv ts used g'"
    by (intro sync_inv_cong [of g' g]) (auto simp: g' sync_inv_def)
  then show ?case by simp
qed

inductive sync_reach ::
    "'db gorm \<Rightarrow> 'b msgpack \<Rightarrow> ('m, 'b) net \<Rightarrow> ('m, 'db) sync_conf \<Rightarrow> ('m, 'db) sync_conf \<Rightarrow> bool"
  for D :: "'db gorm" and M :: "'b msgpack" and N :: "('m, 'b) net" where
  here: "sync_reach D M N c c"
| there: "sync_step D M N c c1 \<Longrightarrow> sync_reach D M N c1 c' \<Longrightarrow> sync_reach D M N c c'"

definition idle :: "('m, 'db) gossip \<Rightarrow> bool" where
  "idle g \<longleftrightarrow> gp_store g \<noteq> None \<and> gp_pendingSyncs g = mempty \<and> gp_heap g = mempty \<and> gp_go g = []"

lemma idle_inv: "idle g \<Longrightarrow> sync_inv [] [] g"
  by (auto simp: idle_def sync_inv_def pending_ok_def heap_ok_def refs_ok_def)

lemma sync_reach_inv:
  "sync_reach D M N c c' \<Longrightarrow> (case c of (g, ts, used) \<Rightarrow> sync_inv ts used g) \<Longrightarrow>
     (case c' of (g, ts, used) \<Rightarrow> sync_inv ts used g)"
  by (induction rule: sync_reach.induct) (auto dest: sync_step_inv)

lemma sync_reach_idle: "sync_reach D M N (g0, [], []) (g, ts, used) \<Longrightarrow> idle g0 \<Longrightarrow> sync_inv ts used g"
  using sync_reach_inv idle_inv by fastforce

end
