(* ===== verification/GossipPull.thy ===== *)
theory GossipPull
  imports GossipSync StorageSpec
begin

text \<open>
  A whole pull of history from an honest peer whose table does not change meanwhile: the rounds
  of request, page and response put together, as payloads (the encodings on the way are those of
  \<open>Message\<close>).
\<close>

section \<open>Rounds\<close>

text \<open>What the peer answers to a request: the payload \<open>handleHistoryPullRequest\<close> encodes.\<close>

definition answer :: "'db gorm \<Rightarrow> 'db \<Rightarrow> HistoryPullRequestPayload \<Rightarrow> HistoryPullResponsePayload option" where
  "answer D peer rq =
     (case GetAllHistorySince D (page_since rq) (i64_int (rq_Offset rq)) (request_limit rq) peer of
        Inl _ \<Rightarrow> None
      | Inr records \<Rightarrow> Some (page_response rq records))"

definition pull_round :: "'db gorm \<Rightarrow> 'db \<Rightarrow> nat \<Rightarrow> ('m, 'db) gossip \<Rightarrow> ('m, 'db) gossip go" where
  "pull_round D peer a g = deref a g (\<lambda>ps.
     case answer D peer (history_request (gp_sm g) ps) of
       None \<Rightarrow> Inr g
     | Some rp \<Rightarrow> handleHistoryPullResponse D rp g)"

fun pull_rounds :: "nat \<Rightarrow> 'db gorm \<Rightarrow> 'db \<Rightarrow> nat \<Rightarrow> ('m, 'db) gossip \<Rightarrow> ('m, 'db) gossip go" where
  "pull_rounds 0 D peer a g = Inr g"
| "pull_rounds (Suc n) D peer a g = go_bind (pull_rounds n D peer a g) (pull_round D peer a)"

text \<open>A store on which the calls of the requester succeed.\<close>

definition healthy :: "'db gorm \<Rightarrow> ('db \<Rightarrow> bool) \<Rightarrow> bool" where
  "healthy D H \<longleftrightarrow>
     (\<forall>d rs. H d \<longrightarrow> (\<exists>n d'. ImportHistoryRecords D rs d = ((n, None), d') \<and> H d') \<and>
                   (\<exists>t. GetLatestHistoryTime D d = Inr t))"

definition readable :: "'db gorm \<Rightarrow> gotime \<Rightarrow> 'db \<Rightarrow> bool" where
  "readable D since d \<longleftrightarrow> (\<forall>offset limit. \<exists>rs. GetAllHistorySince D since offset limit d = Inr rs)"

lemma request_limit_500 [simp]: "request_limit (history_request sm ps) = 500"
  by (simp add: request_limit_def history_request_def Let_def i64_int_of)

lemma history_request_simps [simp]:
  "rq_RequestID (history_request sm ps) = ps_reqID ps"
  "rq_Offset (history_request sm ps) = ps_offset ps"
  by (simp_all add: history_request_def Let_def)

lemma page_since_cong:
  "GetHistorySyncTime sm = GetHistorySyncTime sm' \<Longrightarrow>
     page_since (history_request sm ps) = page_since (history_request sm' ps')"
  by (simp add: page_since_def history_request_def Let_def)

section \<open>The state between two rounds\<close>

text \<open>
  After i pages: the request is still pending at offset 500 i, and each of the first 500 i rows of
  the peer has been stored or has been shadowed by a row with its identifier.
\<close>

definition taken :: "HistoryRecord set \<Rightarrow> HistoryRecord \<Rightarrow> bool" where
  "taken tab r \<longleftrightarrow> hr_key (stored_history r) \<in> hr_key ` tab \<or> (\<exists>x \<in> tab. hr_ID x = hr_ID r)"

lemma taken_mono: "taken tab r \<Longrightarrow> tab \<subseteq> tab' \<Longrightarrow> taken tab' r"
  unfolding taken_def by blast

definition mid_pull ::
    "('db \<Rightarrow> bool) \<Rightarrow> ('db \<Rightarrow> HistoryRecord set) \<Rightarrow> HistoryRecord list \<Rightarrow> gotime \<Rightarrow> nat \<Rightarrow> nat
       \<Rightarrow> resp_thread list \<Rightarrow> i64 list \<Rightarrow> ('m, 'db) gossip \<Rightarrow> bool" where
  "mid_pull H ht L since i a ts used g \<longleftrightarrow>
     sync_inv ts used g \<and>
     (\<exists>ps d. mget (gp_heap g) a = Some ps \<and> mget (gp_pendingSyncs g) (ps_reqID ps) = Some a \<and>
        ps_offset ps = i64_of (int (500 * i)) \<and> gp_store g = Some d \<and> H d \<and>
        page_since (history_request (gp_sm g) ps) = since \<and>
        (\<forall>r \<in> set (take (500 * i) L). taken (ht d) r))"

lemma mid_pullE:
  assumes "mid_pull H ht L since i a ts used g"
  obtains ps d where "sync_inv ts used g" "mget (gp_heap g) a = Some ps"
    "mget (gp_pendingSyncs g) (ps_reqID ps) = Some a" "ps_offset ps = i64_of (int (500 * i))"
    "gp_store g = Some d" "H d" "page_since (history_request (gp_sm g) ps) = since"
    "\<forall>r \<in> set (take (500 * i) L). taken (ht d) r"
  using assms unfolding mid_pull_def by blast

lemma take_page: "set (take (500 * Suc i) L) = set (take (500 * i) L) \<union> set (take 500 (drop (500 * i) L))"
proof -
  have "take (500 * Suc i) L = take (500 * i) L @ take 500 (drop (500 * i) L)"
    by (simp add: take_add [symmetric] add.commute)
  then show ?thesis by simp
qed

lemma page_length: "length (take 500 (drop (500 * i) L)) = 500 \<longleftrightarrow> 500 * Suc i \<le> length L"
  by auto

lemma page_response_simps [simp]:
  "rp_RequestID (page_response rq rs) = rq_RequestID rq" "rp_Records (page_response rq rs) = rs"
  "rp_HasMore (page_response rq rs) \<longleftrightarrow> int (length rs) = request_limit rq"
  "rp_NextOffset (page_response rq rs) = i64_add (rq_Offset rq) (i64_of (int (length rs)))"
  by (simp_all add: page_response_def)

definition concluded :: "nat \<Rightarrow> sync_error option \<Rightarrow> ('m, 'db) gossip \<Rightarrow> bool" where
  "concluded a err g \<longleftrightarrow>
     (\<exists>ps. mget (gp_heap g) a = Some ps \<and> mget (gp_pendingSyncs g) (ps_reqID ps) = None \<and>
           ch_buf (ps_done ps) = [err] \<and> ch_closed (ps_done ps))"

context gorm_sqlite begin

definition since_scan :: "gotime \<Rightarrow> 'db \<Rightarrow> HistoryRecord list" where
  "since_scan since d = scan (since_conds since) TimestampAsc d"

lemma answer_page:
  assumes "ready peer" and "readable D since peer" and "page_since rq = since" and "request_limit rq = 500"
    and "rq_Offset rq = i64_of (int (500 * i))" and "500 * i < 2 ^ 63"
  shows "answer D peer rq = Some (page_response rq (take 500 (drop (500 * i) (since_scan since peer))))"
proof -
  have off: "i64_int (rq_Offset rq) = int (500 * i)"
    using assms(6) unfolding assms(5) by (intro i64_int_of) auto
  obtain rs where rs: "GetAllHistorySince D since (int (500 * i)) 500 peer = Inr rs"
    using assms(2) by (auto simp: readable_def)
  from history_page [OF assms(1) rs] have "rs = take 500 (drop (500 * i) (since_scan since peer))"
    by (simp add: page_limit_def since_scan_def nat_mult_distrib)
  with rs show ?thesis
    by (simp add: answer_def assms(3,4) off)
qed

text \<open>A page that is imported without an error takes its records.\<close>

lemma import_taken:
  assumes "ready d" and "ImportHistoryRecords D rs d = ((n, None), d')"
  shows "ready d' \<and> hist_tab d \<subseteq> hist_tab d' \<and> (\<forall>r \<in> set rs. taken (hist_tab d') r)"
  using import_count [OF assms] import_present [OF assms] by (auto simp: taken_def hist_keys_def)

text \<open>What one round does to the requester, up to the decision to go on.\<close>

lemma round_advance:
  assumes mid: "mid_pull H hist_tab L since i a ts used g" and L: "L = since_scan since peer"
    and H: "healthy D H" "\<And>d. H d \<Longrightarrow> ready d"
    and peer: "ready peer" "readable D since peer" and i: "i < 100"
  obtains ps d' where
    "mget (gp_heap g) a = Some ps"
    "sync_inv ts used (g\<lparr>gp_store := Some d'\<rparr>)"
    "mget (gp_pendingSyncs g) (ps_reqID ps) = Some a"
    "ps_offset ps = i64_of (int (500 * i))"
    "page_since (history_request (gp_sm g) ps) = since"
    "H d'" "\<forall>r \<in> set (take (500 * Suc i) L). taken (hist_tab d') r"
    "\<exists>t. pull_round D peer a g =
      (let more = 500 * Suc i \<le> length L;
           g2 = g\<lparr>gp_store := Some d', gp_heap := mput a
             (ps\<lparr>ps_total := t, ps_offset := i64_of (int (500 * (if more then Suc i else i)))\<rparr>) (gp_heap g)\<rparr>
       in if more then resp_more a g2 else resp_last D a g2)"
proof -
  from mid_pullE [OF mid] obtain ps d where inv: "sync_inv ts used g" and ps: "mget (gp_heap g) a = Some ps"
    and pend: "mget (gp_pendingSyncs g) (ps_reqID ps) = Some a" and off: "ps_offset ps = i64_of (int (500 * i))"
    and d: "gp_store g = Some d" "H d" and since: "page_since (history_request (gp_sm g) ps) = since"
    and got: "\<forall>r \<in> set (take (500 * i) L). taken (hist_tab d) r" .
  let ?page = "take 500 (drop (500 * i) L)" and ?rq = "history_request (gp_sm g) ps"
  have ans: "answer D peer ?rq = Some (page_response ?rq ?page)"
    unfolding L by (rule answer_page [OF peer since]) (use off i in simp_all)
  obtain n d' where imp: "ImportHistoryRecords D ?page d = ((n, None), d')" "H d'"
    using H(1) d(2) unfolding healthy_def by metis
  note new = import_taken [OF H(2) [OF d(2)] imp(1)]
  have more: "int (length ?page) = 500 \<longleftrightarrow> 500 * Suc i \<le> length L"
    using page_length [of i L] by linarith
  have off': "(if 500 * Suc i \<le> length L then i64_add (ps_offset ps) (i64_of (int (length ?page))) else ps_offset ps) =
      i64_of (int (500 * (if 500 * Suc i \<le> length L then Suc i else i)))"
    using more by (simp add: off i64_add_of algebra_simps)
  have inv': "sync_inv ts used (g\<lparr>gp_store := Some d'\<rparr>)"
    by (rule sync_inv_cong [OF _ _ _ _ _ inv]) simp_all
  have taken': "\<forall>r \<in> set (take (500 * Suc i) L). taken (hist_tab d') r"
    unfolding take_page using new got taken_mono by blast
  have run: "pull_round D peer a g =
      (let more = 500 * Suc i \<le> length L;
           g2 = g\<lparr>gp_store := Some d', gp_heap := mput a
             (ps\<lparr>ps_total := i64_add (ps_total ps) n,
                 ps_offset := i64_of (int (500 * (if more then Suc i else i)))\<rparr>) (gp_heap g)\<rparr>
       in if more then resp_more a g2 else resp_last D a g2)"
    unfolding Let_def off' [symmetric]
    using ans ps pend imp d more
    by (simp add: pull_round_def deref_def handleHistoryPullResponse_def import_page_def resp_advance_def)
  from that [OF ps inv' pend off since imp(2) taken'] run show thesis by blast
qed

lemma round_outcome:
  assumes mid: "mid_pull H hist_tab L since i a ts used g" and L: "L = since_scan since peer"
    and H: "healthy D H" "\<And>d. H d \<Longrightarrow> ready d"
    and peer: "ready peer" "readable D since peer" and i: "i < 100"
  shows "\<exists>g'. pull_round D peer a g = Inr g' \<and>
    (if 500 * Suc i \<le> length L
     then if Suc i < 100 then mid_pull H hist_tab L since (Suc i) a ts used g' else concluded a (Some TooManyPages) g'
     else concluded a None g' \<and>
       (\<exists>d. gp_store g' = Some d \<and> H d \<and> (\<forall>r \<in> set L. taken (hist_tab d) r) \<and>
          (\<exists>t. GetLatestHistoryTime D d = Inr t \<and>
             (IsZero t \<or> GetHistorySyncTime (gp_sm g') = t))))"
proof -
  from round_advance [OF mid L H peer i] obtain ps d' t where ps: "mget (gp_heap g) a = Some ps"
    and inv: "sync_inv ts used (g\<lparr>gp_store := Some d'\<rparr>)"
    and pend: "mget (gp_pendingSyncs g) (ps_reqID ps) = Some a"
    and off: "ps_offset ps = i64_of (int (500 * i))"
    and since: "page_since (history_request (gp_sm g) ps) = since"
    and d': "H d'" "\<forall>r \<in> set (take (500 * Suc i) L). taken (hist_tab d') r"
    and run: "pull_round D peer a g =
      (let more = 500 * Suc i \<le> length L;
           g2 = g\<lparr>gp_store := Some d', gp_heap := mput a
             (ps\<lparr>ps_total := t, ps_offset := i64_of (int (500 * (if more then Suc i else i)))\<rparr>) (gp_heap g)\<rparr>
       in if more then resp_more a g2 else resp_last D a g2)"
    by metis
  define ps2 where "ps2 = ps\<lparr>ps_total := t,
    ps_offset := i64_of (int (500 * (if 500 * Suc i \<le> length L then Suc i else i)))\<rparr>"
  define g2 where "g2 = g\<lparr>gp_store := Some d', gp_heap := mput a ps2 (gp_heap g)\<rparr>"
  have ok: "sync_obj_ok ps"
    using sync_inv_heap [OF inv, of a] ps by simp
  have ps2: "ps_reqID ps2 = ps_reqID ps" "ps_done ps2 = ps_done ps" "ps_limit ps2 = i64_of 500" "sync_obj_ok ps2"
    using ok by (simp_all add: ps2_def sync_obj_ok_def)
  have inv2: "sync_inv ts used g2"
    using sync_inv_replace [OF inv, of a ps ps2] ps ps2 by (simp add: g2_def)
  have at2: "mget (gp_heap g2) a = Some ps2" and pend2: "mget (gp_pendingSyncs g2) (ps_reqID ps2) = Some a"
    using pend ps2 by (simp_all add: g2_def DAList.lookup_update)
  have conclude: "\<exists>g'. failPendingSync a err (g2\<lparr>gp_sm := sm\<rparr>) = Inr g' \<and> concluded a err g' \<and>
      gp_store g' = Some d' \<and> gp_sm g' = sm" for err sm
  proof -
    have "sync_inv ts used (g2\<lparr>gp_sm := sm\<rparr>)"
      by (rule sync_inv_cong [OF _ _ _ _ _ inv2]) (simp_all add: g2_def)
    from fail_step [OF this, of a ps2 err] at2 pend2 show ?thesis
      by (auto simp: concluded_def g2_def)
  qed
  show ?thesis
  proof (cases "500 * Suc i \<le> length L")
    case True
    have "i64_int (ps_offset ps2) = int (500 * Suc i)" "i64_int (ps_limit ps2) = 500"
      using True i ps2(3) by (simp_all add: ps2_def i64_int_of)
    moreover have "sgn (int (500 * Suc i)) = 1" "\<bar>int (500 * Suc i)\<bar> div 500 = int (Suc i)"
      by (simp_all add: zdiv_int [symmetric])
    ultimately have pages: "i64_quot (ps_offset ps2) (ps_limit ps2) = Inr (i64_of (int (Suc i)))"
      by (simp add: i64_quot_def del: of_nat_mult of_nat_Suc mult_Suc_right)
    have n: "i64_int (i64_of (int (Suc i))) = int (Suc i)"
      using i by (intro i64_int_of) auto
    have go: "pull_round D peer a g =
        (if 100 \<le> Suc i then failPendingSync a (Some TooManyPages) g2 else Inr (g2\<lparr>gp_go := gp_go g2 @ [GoSend a]\<rparr>))"
      using run True at2 pend2 pages n
      by (simp add: resp_more_def deref_def g2_def ps2_def Let_def split: if_splits)
    show ?thesis
    proof (cases "Suc i < 100")
      case True
      let ?g = "g2\<lparr>gp_go := gp_go g2 @ [GoSend a]\<rparr>"
      have inv3: "sync_inv ts used ?g"
        using sync_inv_go [OF inv2, of "GoSend a"] at2 by simp
      have since3: "page_since (history_request (gp_sm ?g) ps2) = since"
        using since page_since_cong [of "gp_sm ?g" "gp_sm g" ps2 ps] by (simp add: g2_def)
      have "mid_pull H hist_tab L since (Suc i) a ts used ?g"
        unfolding mid_pull_def
      proof (intro conjI exI [of _ ps2] exI [of _ d'])
        show "ps_offset ps2 = i64_of (int (500 * Suc i))"
          using \<open>500 * Suc i \<le> length L\<close> by (simp add: ps2_def)
      qed (use inv3 since3 at2 pend2 d' in \<open>simp_all add: g2_def\<close>)
      with go True \<open>500 * Suc i \<le> length L\<close> show ?thesis by simp
    next
      case False
      with go conclude [of "Some TooManyPages" "gp_sm g2"] \<open>500 * Suc i \<le> length L\<close> show ?thesis by auto
    qed
  next
    case False
    have st2: "gp_store g2 = Some d'" by (simp add: g2_def)
    obtain tm where tm: "GetLatestHistoryTime D d' = Inr tm"
      using H(1) d'(1) unfolding healthy_def by blast
    have last: "pull_round D peer a g = failPendingSync a None
        (g2\<lparr>gp_sm := (if IsZero tm then gp_sm g2 else SetHistorySyncTime tm (gp_sm g2))\<rparr>)"
      using run False tm by (simp add: resp_last_def g2_def ps2_def Let_def)
    have "set L = set (take (500 * Suc i) L)" using False by simp
    with last conclude [of None "if IsZero tm then gp_sm g2 else SetHistorySyncTime tm (gp_sm g2)"] d' tm False
    show ?thesis
      by (auto simp: GetHistorySyncTime_def SetHistorySyncTime_def)
  qed
qed

section \<open>The whole pull\<close>

lemma rounds_mid:
  assumes mid: "mid_pull H hist_tab L since 0 a ts used g" and L: "L = since_scan since peer"
    and H: "healthy D H" "\<And>d. H d \<Longrightarrow> ready d"
    and peer: "ready peer" "readable D since peer" and i: "i < 100" "500 * i \<le> length L"
  shows "\<exists>g'. pull_rounds i D peer a g = Inr g' \<and> mid_pull H hist_tab L since i a ts used g'"
  using i
proof (induction i)
  case 0
  with mid show ?case by simp
next
  case (Suc i)
  then obtain g1 where g1: "pull_rounds i D peer a g = Inr g1" "mid_pull H hist_tab L since i a ts used g1"
    by fastforce
  with round_outcome [OF g1(2) L H peer] Suc.prems show ?case by auto
qed

lemma since_scan_set: "ready peer \<Longrightarrow> set (since_scan since peer) =
    {r \<in> hist_tab peer. IsZero since \<or> since \<le> hr_Timestamp r}"
  by (simp add: since_scan_def since_scan_rows)

lemma since_scan_length: "ready peer \<Longrightarrow> length (since_scan since peer) =
    card {r \<in> hist_tab peer. IsZero since \<or> since \<le> hr_Timestamp r}"
  using since_scan_set distinct_card [of "since_scan since peer"] scan_distinct
  by (simp add: since_scan_def)

lemma pull_start:
  assumes "sync_inv ts used g" and "mget (gp_heap g) a = Some ps"
    and "mget (gp_pendingSyncs g) (ps_reqID ps) = Some a" and "ps_offset ps = i64_of 0"
    and "gp_store g = Some d" and "H d"
  shows "mid_pull H hist_tab L (page_since (history_request (gp_sm g) ps)) 0 a ts used g"
  using assms by (auto simp: mid_pull_def)

lemma pull_complete:
  assumes H: "healthy D H" "\<And>d. H d \<Longrightarrow> ready d" and peer: "ready peer" "readable D since peer"
    and g: "sync_inv ts used g" "mget (gp_heap g) a = Some ps" "mget (gp_pendingSyncs g) (ps_reqID ps) = Some a"
      "ps_offset ps = i64_of 0" "gp_store g = Some d" "H d"
    and since: "since = page_since (history_request (gp_sm g) ps)"
    and rows: "rows = {r \<in> hist_tab peer. IsZero since \<or> since \<le> hr_Timestamp r}" and few: "card rows < 50000"
  shows "\<exists>g' d' t. pull_rounds (card rows div 500 + 1) D peer a g = Inr g' \<and> concluded a None g' \<and>
    gp_store g' = Some d' \<and> (\<forall>r \<in> rows. taken (hist_tab d') r) \<and>
    GetLatestHistoryTime D d' = Inr t \<and> (IsZero t \<or> GetHistorySyncTime (gp_sm g') = t)"
proof -
  let ?L = "since_scan since peer" and ?n = "card rows div 500"
  have L: "length ?L = card rows" "set ?L = rows"
    using since_scan_length [OF peer(1)] since_scan_set [OF peer(1)] rows by simp_all
  have n: "?n < 100" "500 * ?n \<le> length ?L" "\<not> 500 * Suc ?n \<le> length ?L"
    using few dividend_less_div_times [of 500 "card rows"] less_mult_imp_div_less [of "card rows" 100 500]
    unfolding L(1) by simp_all
  obtain g1 where g1: "pull_rounds ?n D peer a g = Inr g1" "mid_pull H hist_tab ?L since ?n a ts used g1"
    using rounds_mid [OF pull_start [of ts used g a ps d H ?L, OF g, folded since] refl H peer n(1,2)] by blast
  from round_outcome [OF g1(2) refl H peer n(1)] g1(1) n(3) L show ?thesis by auto
qed

lemma pull_too_long:
  assumes H: "healthy D H" "\<And>d. H d \<Longrightarrow> ready d" and peer: "ready peer" "readable D since peer"
    and g: "sync_inv ts used g" "mget (gp_heap g) a = Some ps" "mget (gp_pendingSyncs g) (ps_reqID ps) = Some a"
      "ps_offset ps = i64_of 0" "gp_store g = Some d" "H d"
    and since: "since = page_since (history_request (gp_sm g) ps)"
    and many: "50000 \<le> card {r \<in> hist_tab peer. IsZero since \<or> since \<le> hr_Timestamp r}"
  shows "\<exists>g'. pull_rounds 100 D peer a g = Inr g' \<and> concluded a (Some TooManyPages) g'"
proof -
  let ?L = "since_scan since peer"
  have L: "50000 \<le> length ?L"
    using since_scan_length [OF peer(1)] many by simp
  obtain g1 where g1: "pull_rounds 99 D peer a g = Inr g1" "mid_pull H hist_tab ?L since 99 a ts used g1"
    using rounds_mid [OF pull_start [of ts used g a ps d H ?L, OF g, folded since] refl H peer, of 99] L by auto
  have "pull_rounds 100 D peer a g = go_bind (pull_rounds 99 D peer a g) (pull_round D peer a)"
    using pull_rounds.simps(2) [of 99] by simp
  with round_outcome [OF g1(2) refl H peer] g1(1) L show ?thesis by auto
qed

end

end
