(* ===== verification/StateProps.thy ===== *)
theory StateProps
  imports StateSteps MemDB
begin

text \<open>
  Properties of the vector clock and of the state manager: causality, merging, convergence of
  replicas, the subscribers' queues and the history the manager writes.
\<close>

section \<open>Vector clocks\<close>

text \<open>
  C32: \<^verbatim>\<open>Compare\<close> decides the causal order of clocks, where an absent entry lies below every
  present one: 1 when the first clock is strictly above, -1 when strictly below, 0 when they
  are equal or concurrent; swapping the arguments negates it.
\<close>

theorem Compare_decides_causality:
  "(Compare a b = 1 \<longleftrightarrow> gget b < gget a) \<and>
   (Compare a b = -1 \<longleftrightarrow> gget a < gget b) \<and>
   (Compare a b = 0 \<longleftrightarrow> gget a = gget b \<or> (\<not> gget a \<le> gget b \<and> \<not> gget b \<le> gget a)) \<and>
   Compare b a = - Compare a b"
  using Compare_eq_1 [of a b] Compare_eq_m1 [of a b] Compare_eq_0 [of a b] Compare_swap [of b a] by blast

text \<open>
  \<^verbatim>\<open>Merge\<close> leaves in the receiver the least upper bound of the two clocks, and so never
  lowers an entry of either.
\<close>

theorem Merge_least_upper_bound:
  assumes "Merge a b = Inr c"
  shows "gget a \<le> gget c \<and> gget b \<le> gget c \<and>
    (\<forall>d. gget a \<le> gget d \<and> gget b \<le> gget d \<longrightarrow> gget c \<le> gget d) \<and>
    Compare c a \<noteq> -1 \<and> Compare c b \<noteq> -1"
  using Merge_ge [OF assms] gget_Merge [OF assms] by (auto simp: Compare_eq_m1 less_le_not_le)

theorem Merge_least_upper_bound_witness:
  "\<exists>c. Merge (Some (mput ''a'' (i64_of 2) mempty)) (Some (mput ''a'' (i64_of 1) (mput ''b'' (i64_of 3) mempty))) = Inr c \<and>
     Compare c (Some (mput ''a'' (i64_of 2) mempty)) \<noteq> -1"
proof -
  obtain m where h: "Merge (Some (mput ''a'' (i64_of 2) mempty))
      (Some (mput ''a'' (i64_of 1) (mput ''b'' (i64_of 3) mempty))) = Inr (Some m)"
    using Merge_Some by blast
  from Merge_least_upper_bound [OF h] h show ?thesis by blast
qed

text \<open>
  \<^verbatim>\<open>Increment\<close> on a clock that is not nil adds one to the node's entry (from zero when it
  is absent), keeps the others and, unless the entry is the greatest 64-bit integer, yields a
  clock strictly above the old one; on a nil clock it panics.
\<close>

theorem Increment_moves_up:
  assumes "\<forall>v. gget vc n = Some v \<longrightarrow> i64_int v < 2 ^ 63 - 1"
  shows "case Increment vc n of
      Inl e \<Rightarrow> vc = None \<and> e = NilMapWrite
    | Inr vc' \<Rightarrow> Compare vc' vc = 1 \<and> (\<forall>k. k \<noteq> n \<longrightarrow> gget vc' k = gget vc k) \<and>
        gget vc' n = Some (i64_of (1 + (case gget vc n of None \<Rightarrow> 0 | Some v \<Rightarrow> i64_int v)))"
proof (cases vc)
  case None
  then show ?thesis by (simp add: Increment_def)
next
  case (Some m)
  obtain vc' where inc: "Increment (Some m) n = Inr vc'"
    by (simp add: Increment_def)
  have "gget vc < gget vc'"
    using Increment_less [OF inc] assms Some by (simp add: gget_Some)
  moreover have "i64_inc (case mget m n of None \<Rightarrow> i64_of 0 | Some v \<Rightarrow> v) =
      i64_of (1 + (case mget m n of None \<Rightarrow> 0 | Some v \<Rightarrow> i64_int v))"
    by (simp add: i64_inc_of_int i64_int_of add.commute split: option.splits)
  ultimately show ?thesis
    using Some inc gget_Increment [OF inc] by (simp add: Compare_eq_1 gget_Some)
qed

theorem Increment_moves_up_witness:
  "case Increment (Some (mput ''a'' (i64_of 2) mempty)) ''a'' of
      Inl e \<Rightarrow> False
    | Inr vc' \<Rightarrow> Compare vc' (Some (mput ''a'' (i64_of 2) mempty)) = 1 \<and> gget vc' ''a'' = Some (i64_of 3)"
proof -
  let ?vc = "Some (mput ''a'' (i64_of 2) mempty)"
  have v: "gget ?vc ''a'' = Some (i64_of 2)" "i64_int (i64_of 2) = 2"
    by (simp_all add: gget_Some DAList.lookup_update i64_int_of)
  from v have "\<forall>v. gget ?vc ''a'' = Some v \<longrightarrow> i64_int v < 2 ^ 63 - 1" by simp
  from Increment_moves_up [OF this] v show ?thesis
    by (auto split: sum.splits)
qed

section \<open>Merging a received node state\<close>

lemma sm_chans_put_node:
  "sm_chans (put_node now n ns et sm) =
     sm_chans (broadcast \<lparr>ev_NodeID = n, ev_EventType = et, ev_NodeState = ns\<rparr> sm)"
  by (simp add: put_node_def broadcast_def)

text \<open>
  C10: every branch of \<^verbatim>\<open>MergeNodeState\<close>. A nil state panics. Otherwise the received state is
  taken exactly when the node is unknown or \<^verbatim>\<open>resolveConflict\<close> prefers it; then the node's
  entry, and no other, holds the received fields with the least upper bound of both clocks, every
  subscriber is offered one event, and one history record with source gossip is written. When it
  is not taken, neither the state nor the history changes.
\<close>

theorem MergeNodeState_branches:
  "case MergeNodeState D now remote (sm, st) of
     Inl e \<Rightarrow> remote = None \<and> e = NilDereference
   | Inr (changed, sm', st') \<Rightarrow>
       \<exists>r. remote = Some r \<and>
         changed = (case GetNode (ns_NodeID r) sm of
                      None \<Rightarrow> True | Some l \<Rightarrow> resolveConflict l r = RemoteWins) \<and>
         (if changed then
            \<exists>w. w\<lparr>ns_Clock := None\<rparr> = r\<lparr>ns_Clock := None\<rparr> \<and>
              gget (ns_Clock w) = sup (case GetNode (ns_NodeID r) sm of
                 None \<Rightarrow> Map.empty | Some l \<Rightarrow> gget (ns_Clock l)) (gget (ns_Clock r)) \<and>
              (\<forall>n. GetNode n sm' = (if n = ns_NodeID r then Some w else GetNode n sm)) \<and>
              sm_chans sm' = sm_chans (broadcast \<lparr>ev_NodeID = ns_NodeID r,
                 ev_EventType = (if GetNode (ns_NodeID r) sm = None then ''join'' else ''update''),
                 ev_NodeState = w\<rparr> sm) \<and>
              st' = recordEvent D w
                 (if GetNode (ns_NodeID r) sm = None then ''node_join'' else ''metric_update'') ''gossip'' st
          else sm' = sm \<and> st' = st)"
proof (cases remote)
  case None
  then show ?thesis by (simp add: MergeNodeState_def)
next
  case (Some r)
  show ?thesis
  proof (cases "GetNode (ns_NodeID r) sm")
    case None
    then show ?thesis
      by (simp add: Some MergeNodeState_def Merge_locked_def GetNode_def [of "ns_NodeID r"] Let_def
          GetNode_put_node sm_chans_put_node record_pending_def fun_eq_iff sup_fun_def)
  next
    case (Some l)
    obtain m where m: "Merge (own_clock (ns_Clock r)) (ns_Clock l) = Inr (Some m)"
      using Merge_own_clock by blast
    have "gget (Some m) = sup (gget (ns_Clock l)) (gget (ns_Clock r))"
      using gget_Merge [OF m] by (simp add: sup_commute)
    with m Some \<open>remote = Some r\<close> show ?thesis
      by (cases "resolveConflict l r")
         (simp_all add: MergeNodeState_def Merge_locked_def GetNode_def [of "ns_NodeID r" sm] Let_def
           GetNode_put_node sm_chans_put_node record_pending_def)
  qed
qed

text \<open>
  \<^verbatim>\<open>resolveConflict\<close> prefers the received state exactly when its clock is causally newer, or
  the clocks are equal or concurrent and its \<^verbatim>\<open>LastUpdated\<close> is later; ties stay with the stored
  state, and a state never wins against itself.
\<close>

theorem resolveConflict_decides:
  "(resolveConflict l r = RemoteWins \<longleftrightarrow>
      Compare (ns_Clock r) (ns_Clock l) = 1 \<or>
      (Compare (ns_Clock r) (ns_Clock l) = 0 \<and> ns_LastUpdated l < ns_LastUpdated r)) \<and>
   resolveConflict l l = LocalWins"
proof -
  have "Compare (ns_Clock r) (ns_Clock l) \<in> {-1, 0, 1}" by (rule Compare_range)
  then show ?thesis
    by (auto simp: resolveConflict_def Let_def After_def Compare_order)
qed

lemma merge_nodes_mono:
  assumes "merge_nodes D xs (sm, st) = Inr (sm', st')" and "GetNode n sm = Some l"
  shows "\<exists>l'. GetNode n sm' = Some l' \<and> ns_stamp l \<le> ns_stamp l'"
  using assms
proof (induction xs arbitrary: sm st l)
  case Nil
  then show ?case by simp
next
  case (Cons x xs)
  obtain t ro where x: "x = (t, ro)" by (cases x)
  with Cons.prems(1) obtain r where ro: "ro = Some r"
    by (cases ro) (auto simp: MergeNodeState_def)
  obtain c sm1 st1 where m: "MergeNodeState D t (Some r) (sm, st) = Inr (c, sm1, st1)"
    using MergeNodeState_total by blast
  have rest: "merge_nodes D xs (sm1, st1) = Inr (sm', st')"
    using Cons.prems(1) by (simp add: x ro m)
  obtain l1 where l1: "GetNode n sm1 = Some l1" "ns_stamp l \<le> ns_stamp l1"
    using MergeNodeState_GetNode(1) [OF m, of n] Cons.prems(2) node_merge_mono [of l r]
    by (cases "n = ns_NodeID r") auto
  from Cons.IH [OF rest l1(1)] l1(2) show ?case
    by (auto intro: order_trans)
qed

text \<open>
  No sequence of received cluster states lowers the clock of a known node or forgets the
  node, and if every received state is present the whole sequence is processed.
\<close>

theorem clocks_never_regress:
  assumes "None \<notin> snd ` set xs" and "GetNode n sm = Some l"
  shows "\<exists>sm' st' l'. merge_nodes D xs (sm, st) = Inr (sm', st') \<and> GetNode n sm' = Some l' \<and>
    gget (ns_Clock l) \<le> gget (ns_Clock l')"
proof -
  obtain sm' st' where run: "merge_nodes D xs (sm, st) = Inr (sm', st')"
    using merge_nodes_total [OF assms(1)] by (metis prod.exhaust)
  with merge_nodes_mono [OF run assms(2)] show ?thesis
    by (auto simp: ns_stamp_def)
qed

definition sample_sm :: "NodeState list \<Rightarrow> StateManager" where
  "sample_sm nss = foldr (UpdateLocalNode 0) nss (NewStateManager 0 ''c'' ''a'')"

lemma GetNode_sample_sm:
  "GetNode n (sample_sm []) = None"
  "GetNode n (sample_sm (ns # nss)) = (if n = ns_NodeID ns then Some ns else GetNode n (sample_sm nss))"
  by (simp_all add: sample_sm_def NewStateManager_def GetNode_def UpdateLocalNode_def put_node_def
      DAList.lookup_update)

definition clock1 :: "string \<Rightarrow> int \<Rightarrow> VectorClock" where
  "clock1 n k = Some (mput n (i64_of k) mempty)"

lemma gget_clock1 [simp]: "gget (clock1 n k) = [n \<mapsto> i64_of k]"
  by (simp add: clock1_def fun_eq_iff DAList.lookup_update)

theorem clocks_never_regress_witness:
  "\<exists>sm' st' l'. merge_nodes mem_gorm [(7, Some (sample_node ''b'' 9 (clock1 ''b'' 1)))]
       (sample_sm [sample_node ''b'' 5 (clock1 ''b'' 4)], Some (mem_with [])) = Inr (sm', st') \<and>
     GetNode ''b'' sm' = Some l' \<and> [''b'' \<mapsto> i64_of 4] \<le> gget (ns_Clock l')"
proof -
  have g: "GetNode ''b'' (sample_sm [sample_node ''b'' 5 (clock1 ''b'' 4)]) =
      Some (sample_node ''b'' 5 (clock1 ''b'' 4))"
    by (simp add: GetNode_sample_sm)
  from clocks_never_regress [OF _ g, where D = mem_gorm and st = "Some (mem_with [])"
      and xs = "[(7, Some (sample_node ''b'' 9 (clock1 ''b'' 1)))]"]
  show ?thesis by (simp del: merge_nodes.simps)
qed

section \<open>Replicas\<close>

text \<open>
  The updates of one node form a causal history when their clocks are comparable and two
  updates with the same clock are the same update.
\<close>

definition causal_history :: "NodeState set \<Rightarrow> bool" where
  "causal_history U \<longleftrightarrow>
     (\<forall>x \<in> U. \<forall>y \<in> U. (gget (ns_Clock x) \<le> gget (ns_Clock y) \<or> gget (ns_Clock y) \<le> gget (ns_Clock x)) \<and>
        (gget (ns_Clock x) = gget (ns_Clock y) \<longrightarrow> ns_view x = ns_view y))"

lemma causal_history_chain: "causal_history U = reg.chain U"
  by (simp add: causal_history_def reg.chain_def ns_stamp_def)

lemma merge_nodes_from_unknown:
  assumes "merge_nodes D xs (sm, st) = Inr (sm', st')"
    and "causal_history (received xs n)" and "GetNode n sm = None"
  shows "case GetNode n sm' of None \<Rightarrow> received xs n = {} | Some l \<Rightarrow> reg.newest (received xs n) l"
  using reg.merge_nodes_newest [OF assms(1), of "{}" n] assms(2,3) by (simp add: causal_history_chain split: option.splits)

text \<open>
  C6: two replicas that knew nothing of a node and have received the same updates of it, in any
  order and any number of times, interleaved with updates of other nodes, hold the same state of
  it, provided the updates form a causal history.
\<close>

theorem replicas_converge:
  assumes "merge_nodes D xs (sm1, st1) = Inr (sm1', st1')" and "merge_nodes D ys (sm2, st2) = Inr (sm2', st2')"
    and "GetNode n sm1 = None" and "GetNode n sm2 = None"
    and "received xs n = received ys n" and "causal_history (received xs n)"
  shows "map_option ns_view (GetNode n sm1') = map_option ns_view (GetNode n sm2')"
  using merge_nodes_from_unknown [OF assms(1,6,3)] merge_nodes_from_unknown [OF assms(2) _ assms(4)] assms(5,6)
    reg.newest_unique [of "received xs n"]
  by (auto simp: causal_history_chain reg.newest_def split: option.splits)

theorem replicas_converge_witness:
  defines "u1 \<equiv> Some (sample_node ''b'' 5 (clock1 ''b'' 1))" and "u2 \<equiv> Some (sample_node ''b'' 4 (clock1 ''b'' 2))"
  shows "\<exists>s1 s2. merge_nodes mem_gorm [(0, u1), (1, u2)] (sample_sm [], None) = Inr s1 \<and>
    merge_nodes mem_gorm [(0, u2), (1, u1), (2, u2)] (sample_sm [], None) = Inr s2 \<and>
    map_option ns_view (GetNode ''b'' (fst s1)) = map_option ns_view (GetNode ''b'' (fst s2))"
proof -
  obtain sm1 st1 where r1: "merge_nodes mem_gorm [(0, u1), (1, u2)] (sample_sm [], None) = Inr (sm1, st1)"
    using merge_nodes_total [of "[(0, u1), (1, u2)]" mem_gorm "(sample_sm [], None)"] by (auto simp: u1_def u2_def)
  obtain sm2 st2 where r2: "merge_nodes mem_gorm [(0, u2), (1, u1), (2, u2)] (sample_sm [], None) = Inr (sm2, st2)"
    using merge_nodes_total [of "[(0, u2), (1, u1), (2, u2)]" mem_gorm "(sample_sm [], None)"]
    by (auto simp: u1_def u2_def)
  have rec: "received [(0, u1), (1, u2)] ''b'' = {the u1, the u2}"
    "received [(0, u2), (1, u1), (2, u2)] ''b'' = {the u1, the u2}"
    by (auto simp: received_def u1_def u2_def)
  have le: "[''b'' \<mapsto> i64_of 1] \<le> [''b'' \<mapsto> i64_of 2]" "[''b'' \<mapsto> i64_of 1] \<noteq> [''b'' \<mapsto> i64_of 2]"
    by (simp_all add: le_fun_def less_eq_i64_def i64_int_of fun_eq_iff i64_of_inject)
  have "causal_history {the u1, the u2}"
    using le by (auto simp: causal_history_def u1_def u2_def)
  then have ch: "causal_history (received [(0, u1), (1, u2)] ''b'')"
    by (simp only: rec)
  have g: "GetNode ''b'' (sample_sm []) = None" by (simp add: GetNode_sample_sm)
  from replicas_converge [OF r1 r2 g g _ ch] r1 r2 show ?thesis
    by (simp add: rec del: merge_nodes.simps)
qed

lemma tie_stays:
  assumes "\<not> gget (ns_Clock l) \<le> gget (ns_Clock r)" and "\<not> gget (ns_Clock r) \<le> gget (ns_Clock l)"
    and "ns_LastUpdated l = ns_LastUpdated r"
  shows "resolveConflict l r = LocalWins"
  using assms by (cases "resolveConflict l r") (auto simp: resolveConflict_order less_le)

lemma merge_ties:
  assumes tie: "resolveConflict l r = LocalWins" "resolveConflict l l = LocalWins"
    and ids: "ns_NodeID r = n" "ns_NodeID l = n"
    and known: "GetNode n sm = Some l" and xs: "snd ` set xs \<subseteq> {Some l, Some r}"
  shows "merge_nodes D xs (sm, st) = Inr (sm, st)"
  using xs
proof (induction xs)
  case Nil
  show ?case by simp
next
  case (Cons x xs)
  have "MergeNodeState D t (Some y) (sm, st) = Inr (False, sm, st)" if "y = l \<or> y = r" for t y
    using that tie ids known
    by (auto simp: MergeNodeState_def Merge_locked_def GetNode_def record_pending_def)
  with Cons show ?case by (cases x) auto
qed

text \<open>
  The proviso of convergence is needed. Two updates of one node with concurrent clocks and
  the same \<^verbatim>\<open>LastUpdated\<close> are never exchanged: each replica keeps for ever the one it
  received first, however often both are delivered afterwards, because the conflict resolution
  has no tie-break.
\<close>

theorem concurrent_replicas_diverge:
  assumes "\<not> gget (ns_Clock a) \<le> gget (ns_Clock b)" and "\<not> gget (ns_Clock b) \<le> gget (ns_Clock a)"
    and "ns_LastUpdated a = ns_LastUpdated b" and "ns_NodeID a = ns_NodeID b"
    and "GetNode (ns_NodeID a) sm = Some a" and "snd ` set xs \<subseteq> {Some a, Some b}"
  shows "merge_nodes D xs (sm, st) = Inr (sm, st)"
proof -
  have "resolveConflict a a = LocalWins"
    using resolveConflict_order [of a a] by (cases "resolveConflict a a") auto
  with tie_stays [OF assms(1-3)] merge_ties [of a b "ns_NodeID a"] assms(4-6) show ?thesis by auto
qed

theorem concurrent_replicas_diverge_witness:
  defines "a \<equiv> sample_node ''n'' 5 (clock1 ''x'' 1)" and "b \<equiv> sample_node ''n'' 5 (clock1 ''y'' 1)"
  shows "merge_nodes mem_gorm [(1, Some b), (2, Some a)] (sample_sm [a], None) = Inr (sample_sm [a], None) \<and>
    GetNode ''n'' (sample_sm [a]) = Some a \<and> a \<noteq> b"
proof -
  have g: "GetNode (ns_NodeID a) (sample_sm [a]) = Some a" by (simp add: GetNode_sample_sm)
  have n: "gget (ns_Clock a) = [''x'' \<mapsto> i64_of 1]" "gget (ns_Clock b) = [''y'' \<mapsto> i64_of 1]"
    by (simp_all add: a_def b_def)
  then have c: "\<not> gget (ns_Clock a) \<le> gget (ns_Clock b)" "\<not> gget (ns_Clock b) \<le> gget (ns_Clock a)"
    by (simp_all add: le_fun_def)
  have e: "ns_LastUpdated a = ns_LastUpdated b" "ns_NodeID a = ns_NodeID b"
    by (simp_all add: a_def b_def)
  have "a \<noteq> b"
    using c by auto
  with concurrent_replicas_diverge [OF c e g, of "[(1, Some b), (2, Some a)]"] g show ?thesis
    by (simp add: a_def del: merge_nodes.simps)
qed

text \<open>
  A node marked inactive keeps its clock and its \<^verbatim>\<open>LastUpdated\<close>, so it stays inactive however
  often its last update is delivered again, and the first causally newer update makes it what
  that update says.
\<close>

theorem inactive_until_newer:
  assumes "GetNode n sm = Some l" and "ns_NodeID r = n"
    and "MarkNodeInactive D now n (sm, st) = (sm1, st1)"
    and "MergeNodeState D t (Some r) (sm1, st1) = Inr (changed, sm2, st2)"
  shows "GetNode n sm1 = Some (l\<lparr>ns_Status := ''inactive''\<rparr>) \<and>
    (ns_view r = ns_view l \<longrightarrow> \<not> changed \<and> sm2 = sm1 \<and> st2 = st1) \<and>
    (gget (ns_Clock l) < gget (ns_Clock r) \<longrightarrow> changed \<and> map_option ns_view (GetNode n sm2) = Some (ns_view r))"
proof -
  let ?l = "l\<lparr>ns_Status := ''inactive''\<rparr>"
  have get: "GetNode n sm1 = Some ?l"
    using assms(1,3)
    by (auto simp: MarkNodeInactive_def Inactive_locked_def GetNode_def [of n sm] GetNode_put_node Let_def)
  have ch: "changed \<longleftrightarrow> resolveConflict ?l r = RemoteWins"
    using MergeNodeState_GetNode(2) [OF assms(4)] get assms(2) by simp
  have new: "GetNode n sm2 = Some (node_merge ?l r)"
    using MergeNodeState_GetNode(1) [OF assms(4), of n] get assms(2) by simp
  have same: "resolveConflict ?l r \<noteq> RemoteWins" if "ns_view r = ns_view l"
    using ns_stamp_view [OF that] ns_view_LastUpdated [OF that]
    by (simp add: resolveConflict_order ns_stamp_def)
  moreover have "sm2 = sm1 \<and> st2 = st1" if "\<not> changed"
    using that assms(4) ch get assms(2)
    by (auto simp: MergeNodeState_def Merge_locked_def GetNode_def record_pending_def split: winner.splits)
  moreover have "resolveConflict ?l r = RemoteWins \<and> ns_view (node_merge ?l r) = ns_view r"
    if "gget (ns_Clock l) < gget (ns_Clock r)"
    using that node_merge_fresh [of ?l r] by (simp add: resolveConflict_order ns_stamp_def)
  ultimately show ?thesis using get ch new by auto
qed

theorem inactive_until_newer_witness:
  defines "l \<equiv> sample_node ''b'' 5 (clock1 ''b'' 1)"
  shows "\<exists>sm1 st1. MarkNodeInactive mem_gorm 9 ''b'' (sample_sm [l], None) = (sm1, st1) \<and>
    MergeNodeState mem_gorm 10 (Some l) (sm1, st1) = Inr (False, sm1, st1)"
proof -
  have g: "GetNode ''b'' (sample_sm [l]) = Some l" "ns_NodeID l = ''b''"
    by (simp_all add: GetNode_sample_sm l_def)
  obtain sm1 st1 where i: "MarkNodeInactive mem_gorm 9 ''b'' (sample_sm [l], None) = (sm1, st1)"
    by fastforce
  obtain c sm2 st2 where m: "MergeNodeState mem_gorm 10 (Some l) (sm1, st1) = Inr (c, sm2, st2)"
    using MergeNodeState_total by blast
  from inactive_until_newer [OF g i m] i m show ?thesis by auto
qed

section \<open>Every interleaving of the methods\<close>

text \<open>
  C25: from a new manager, whatever the methods called and however they interleave: a node is
  stored under its own identifier, no subscriber's queue exceeds its 64 slots, every subscriber's
  channel is open (a notification never hits a closed channel), and a new subscription never
  reuses a channel.
\<close>

theorem manager_always_consistent:
  assumes "sm_run D c ops c'" and "c_sm c = NewStateManager now cn ln"
  shows "(\<forall>n ns. GetNode n (c_sm c') = Some ns \<longrightarrow> ns_NodeID ns = n) \<and>
    (\<forall>ch k. mget (sm_chans (c_sm c')) ch = Some k \<longrightarrow> length (ch_buf k) \<le> 64) \<and>
    (\<forall>ch. mget (sm_subscribers (c_sm c')) ch \<noteq> None \<longrightarrow>
        (\<exists>k. mget (sm_chans (c_sm c')) ch = Some k \<and> \<not> ch_closed k)) \<and>
    mget (sm_chans (c_sm c')) (fst (Subscribe (c_sm c'))) = None"
proof -
  have inv: "sm_inv (c_sm c')"
    using sm_run_inv [OF assms(1)] assms(2) by (simp add: sm_inv_new)
  then have "mget (sm_chans (c_sm c')) (fst (Subscribe (c_sm c'))) = None"
    by (simp add: sm_inv_def Subscribe_def Let_def fresh_chan)
  moreover have "length (ch_buf k) \<le> 64" if "mget (sm_chans (c_sm c')) ch = Some k" for ch k
    using inv chans_okD [OF _ that] by (simp add: sm_inv_def chan_ok_def)
  ultimately show ?thesis
    using inv by (auto simp: sm_inv_def subscribers_ok_def nodes_keyed_def)
qed

definition sample_conf :: "memdb conf" where
  "sample_conf = \<lparr>c_sm = NewStateManager 0 ''c'' ''a'', c_pending = [], c_db = mem_with []\<rparr>"

lemma sample_run:
  defines "u \<equiv> sample_node ''b'' 5 (clock1 ''b'' 1)"
  shows "\<exists>c'. sm_run mem_gorm sample_conf [OpSubscribe, OpMerge u (Some (u, ''node_join'')),
     OpRecord u ''node_join'' None] c' \<and> c_pending c' = []"
proof -
  let ?r = "event_record u ''node_join'' ''gossip''"
  obtain ch sm1 where s: "Subscribe (c_sm sample_conf) = (ch, sm1)" by fastforce
  have none: "mget (cs_Nodes (sm_clusterState sm1)) (ns_NodeID u) = None"
    using s by (auto simp: Subscribe_def Let_def sample_conf_def NewStateManager_def)
  have j: "u\<lparr>ns_Clock := own_clock (ns_Clock u)\<rparr> = u"
    by (simp add: u_def own_clock_def clock1_def)
  from none have m: "Merge_locked 0 u sm1 =
      Inr (True, Some (u, ''node_join''), put_node 0 (ns_NodeID u) u ''join'' sm1)"
    by (simp add: Merge_locked_def Let_def j)
  let ?c1 = "sample_conf\<lparr>c_sm := sm1\<rparr>"
  let ?c2 = "queue_event (Some (u, ''node_join'')) (?c1\<lparr>c_sm := put_node 0 (ns_NodeID u) u ''join'' sm1\<rparr>)"
  have s2: "sm_step mem_gorm ?c1 (OpMerge u (Some (u, ''node_join''))) ?c2"
    using sm_step.merge [of 0 u ?c1 True "Some (u, ''node_join'')" "put_node 0 (ns_NodeID u) u ''join'' sm1" mem_gorm] m
    by simp
  obtain d' where d': "SaveHistoryRecord mem_gorm ?r (c_db ?c2) = (None, d')"
    by (simp add: SaveHistoryRecord_def mem_defs sample_conf_def)
  have "c_pending ?c2 = [] @ (u, ''node_join'') # []"
    by (simp add: queue_event_def sample_conf_def)
  from sm_step.flush [OF this d'] have s3: "sm_step mem_gorm ?c2 (OpRecord u ''node_join'' None)
      (?c2\<lparr>c_pending := [] @ [], c_db := d'\<rparr>)" .
  show ?thesis
    by (rule exI [of _ "?c2\<lparr>c_pending := [] @ [], c_db := d'\<rparr>"])
       (use sm_step.subscribe [OF s] s2 s3 in \<open>auto intro!: sm_run.intros\<close>)
qed

theorem manager_always_consistent_witness:
  "\<exists>c'. sm_run mem_gorm sample_conf [OpSubscribe,
       OpMerge (sample_node ''b'' 5 (clock1 ''b'' 1)) (Some (sample_node ''b'' 5 (clock1 ''b'' 1), ''node_join'')),
       OpRecord (sample_node ''b'' 5 (clock1 ''b'' 1)) ''node_join'' None] c' \<and>
     mget (sm_chans (c_sm c')) (fst (Subscribe (c_sm c'))) = None"
proof -
  obtain c' where c': "sm_run mem_gorm sample_conf [OpSubscribe,
       OpMerge (sample_node ''b'' 5 (clock1 ''b'' 1)) (Some (sample_node ''b'' 5 (clock1 ''b'' 1), ''node_join'')),
       OpRecord (sample_node ''b'' 5 (clock1 ''b'' 1)) ''node_join'' None] c'"
    using sample_run by blast
  have "c_sm sample_conf = NewStateManager 0 ''c'' ''a''" by (simp add: sample_conf_def)
  from manager_always_consistent [OF c' this] c' show ?thesis by blast
qed

text \<open>
  C14: in any interleaving in which no write fails, the keys in the history together with those
  of the writes still to be made are exactly the keys there were before and one for every change
  the manager accepted from the cluster; so once the writes are made, the history holds the
  accepted changes and nothing else.
\<close>

theorem history_is_accepted_changes:
  assumes "gorm_sqlite D mg rdy nt ht sc" and "sm_run D c ops c'" and "rdy (c_db c)"
    and "\<not> list_ex op_failed ops" and "c_pending c = []" and "c_pending c' = []"
  shows "hr_key ` ht (c_db c') =
    hr_key ` ht (c_db c) \<union> event_key ` (\<Union>op \<in> set ops. set_option (op_event op))"
proof -
  note ax = assms(1)
  have "history_store (SaveHistoryRecord D) rdy (\<lambda>d. hr_key ` ht d)"
    using gorm_sqlite.store_contract [OF ax] .
  from run_history [OF this assms(2-4)] assms(5,6) show ?thesis by simp
qed

theorem history_is_accepted_changes_witness:
  defines "u \<equiv> sample_node ''b'' 5 (clock1 ''b'' 1)"
  shows "\<exists>c'. sm_run mem_gorm sample_conf [OpSubscribe, OpMerge u (Some (u, ''node_join'')),
     OpRecord u ''node_join'' None] c' \<and> hr_key ` mem_hist_tab (c_db c') = {event_key (u, ''node_join'')}"
proof -
  obtain c' where c': "sm_run mem_gorm sample_conf [OpSubscribe, OpMerge u (Some (u, ''node_join'')),
     OpRecord u ''node_join'' None] c'" "c_pending c' = []"
    using sample_run unfolding u_def by blast
  have "mem_ready (c_db sample_conf)" "c_pending sample_conf = []" by (simp_all add: sample_conf_def)
  with history_is_accepted_changes [OF mem_ax c'(1) _ _ _ c'(2)] c'(1) show ?thesis
    by (auto simp: sample_conf_def)
qed

section \<open>Subscribers\<close>

lemma deliver_take:
  "\<not> ch_closed c \<Longrightarrow> length (ch_buf c) \<le> ch_cap c \<Longrightarrow>
     ch_buf (deliver e c) = take (ch_cap c) (ch_buf c @ [e])"
  by (auto simp: deliver_def)

lemma broadcasts_take:
  assumes "mget (sm_subscribers sm) ch \<noteq> None" and "mget (sm_chans sm) ch = Some c"
    and "\<not> ch_closed c" and "length (ch_buf c) \<le> ch_cap c"
  shows "map_option ch_buf (mget (sm_chans (fold broadcast es sm)) ch) = Some (take (ch_cap c) (ch_buf c @ es))"
  using assms
proof (induction es arbitrary: sm c)
  case Nil
  then show ?case by simp
next
  case (Cons e es)
  have c: "mget (sm_chans (broadcast e sm)) ch = Some (deliver e c)"
    using Cons.prems(1,2) by (simp add: mget_broadcast)
  have len: "length (ch_buf (deliver e c)) \<le> ch_cap (deliver e c)"
    using Cons.prems(4) by (simp add: deliver_def)
  have "take (ch_cap c) (ch_buf (deliver e c) @ es) = take (ch_cap c) (ch_buf c @ e # es)"
    using Cons.prems(3,4) by (auto simp: deliver_def take_Cons' le_less)
  with Cons.IH [of "broadcast e sm", OF _ c _ len] Cons.prems show ?case by simp
qed

text \<open>
  C39: a subscriber that does not read receives the first 64 of the events that were queued and
  then broadcast, in order and each once; the ones beyond are dropped, and the sender never
  blocks or panics.
\<close>

theorem subscriber_gets_first_64:
  assumes "sm_inv sm" and "mget (sm_subscribers sm) ch \<noteq> None" and "mget (sm_chans sm) ch = Some c"
  shows "map_option ch_buf (mget (sm_chans (fold broadcast es sm)) ch) = Some (take 64 (ch_buf c @ es))"
proof -
  have ok: "chan_ok c" "ch_cap c = 64"
    using assms(1) chans_okD [OF _ assms(3)] by (simp_all add: sm_inv_def)
  have "\<not> ch_closed c"
    using assms by (auto simp: sm_inv_def subscribers_ok_def)
  with broadcasts_take [OF assms(2,3), of es] ok show ?thesis by (simp add: chan_ok_def)
qed

theorem subscriber_gets_first_64_witness:
  defines "e \<equiv> \<lparr>ev_NodeID = ''b'', ev_EventType = ''update'', ev_NodeState = sample_node ''b'' 5 None\<rparr>"
  shows "map_option ch_buf (mget (sm_chans (fold broadcast (replicate 65 e)
      (snd (Subscribe (NewStateManager 0 ''c'' ''a''))))) 0) = Some (replicate 64 e)"
proof -
  let ?sm = "snd (Subscribe (NewStateManager 0 ''c'' ''a''))"
  have sub: "Subscribe (NewStateManager 0 ''c'' ''a'') = (0, ?sm)"
    by (simp add: Subscribe_def NewStateManager_def)
  have s: "mget (sm_subscribers ?sm) 0 \<noteq> None" and c: "mget (sm_chans ?sm) 0 = Some (make_chan 64)"
    by (simp_all add: Subscribe_def NewStateManager_def DAList.lookup_update)
  from subscriber_gets_first_64 [OF sm_inv_Subscribe [OF sm_inv_new sub] s c, of "replicate 65 e"]
  show ?thesis by simp
qed

lemma broadcasts_skip:
  "mget (sm_subscribers sm) ch = None \<Longrightarrow>
     mget (sm_chans (fold broadcast es sm)) ch = mget (sm_chans sm) ch \<and>
     mget (sm_subscribers (fold broadcast es sm)) ch = None"
  by (induction es arbitrary: sm) (simp_all add: mget_broadcast)

text \<open>
  \<^verbatim>\<open>Unsubscribe\<close> closes the channel and nothing is sent to it afterwards; unsubscribing the
  same channel a second time, after any broadcasts in between, is the panic of closing a closed
  channel.
\<close>

theorem Unsubscribe_only_once:
  assumes "Unsubscribe ch sm = Inr sm'"
  shows "\<exists>c. mget (sm_chans sm) ch = Some c \<and>
    mget (sm_chans (fold broadcast es sm')) ch = Some (c\<lparr>ch_closed := True\<rparr>) \<and>
    Unsubscribe ch (fold broadcast es sm') = Inl CloseOfClosedChannel"
proof -
  obtain c where c: "mget (sm_chans sm) ch = Some c" "close_chan c = Inr (c\<lparr>ch_closed := True\<rparr>)"
    and sm': "sm' = sm\<lparr>sm_subscribers := mdel ch (sm_subscribers sm),
                      sm_chans := mput ch (c\<lparr>ch_closed := True\<rparr>) (sm_chans sm)\<rparr>"
    using assms by (auto simp: Unsubscribe_def Let_def close_chan_def split: option.splits if_splits)
  have "mget (sm_subscribers sm') ch = None" "mget (sm_chans sm') ch = Some (c\<lparr>ch_closed := True\<rparr>)"
    by (simp_all add: sm' DAList.lookup_update)
  with broadcasts_skip [of sm' ch es] c show ?thesis
    by (simp add: Unsubscribe_def Let_def close_chan_def)
qed

theorem Unsubscribe_only_once_witness:
  defines "sm \<equiv> snd (Subscribe (NewStateManager 0 ''c'' ''a''))"
  shows "\<exists>sm'. Unsubscribe 0 sm = Inr sm' \<and> Unsubscribe 0 sm' = Inl CloseOfClosedChannel"
proof -
  obtain sm' where u: "Unsubscribe 0 sm = Inr sm'"
    by (simp add: sm_def Unsubscribe_def Subscribe_def NewStateManager_def Let_def DAList.lookup_update close_chan_def)
  from Unsubscribe_only_once [OF u, of "[]"] u show ?thesis by auto
qed

end
