(* ===== verification/GossipProps.thy ===== *)
theory GossipProps
  imports GossipPull StateProps
begin

text \<open>
  Properties of the gossip package: no message and no interleaving of the history
  synchronisation panics (with the one exception of a nil node state in a cluster sync), each
  pending sync has one outcome, a pull from an honest peer is complete, and a broadcast state
  arrives as it was sent.
\<close>

section \<open>Sample states for the witnesses\<close>

text \<open>A network of fixed members that records what is sent.\<close>

definition box_net :: "member list \<Rightarrow> ((string \<times> 'b) list, 'b) net" where
  "box_net ms = \<lparr>ml_Members = (\<lambda>_. ms), ml_NumMembers = (\<lambda>_. int (length ms)),
     ml_SendReliable = (\<lambda>m b out. (None, out @ [(mb_Name m, b)])),
     ml_QueueBroadcast = (\<lambda>b out. out @ [([], sb_msg b)]),
     ml_GetBroadcasts = (\<lambda>_ _ out. ([], out))\<rparr>"

definition two_members :: "member list" where
  "two_members = [\<lparr>mb_Name = ''a'', mb_Addr = ''10.0.0.1''\<rparr>, \<lparr>mb_Name = ''b'', mb_Addr = ''10.0.0.2''\<rparr>]"

definition sample_gossip :: "HistoryRecord list \<Rightarrow> ((string \<times> wire) list, memdb) gossip" where
  "sample_gossip rows = \<lparr>gp_list = [], gp_sm = sample_sm [], gp_localNode = ''a'',
     gp_store = Some (mem_with rows), gp_pendingSyncs = mempty, gp_heap = mempty, gp_go = []\<rparr>"

definition sample_started :: "HistoryRecord list \<Rightarrow> ((string \<times> wire) list, memdb) gossip" where
  "sample_started rows = snd (SyncHistoryOnJoin_start (box_net two_members) unix_epoch (sample_gossip rows))"

definition sample_sync :: pendingSync where
  "sample_sync = \<lparr>ps_reqID = ''a-0'', ps_peer = \<lparr>mb_Name = ''b'', mb_Addr = ''10.0.0.2''\<rparr>, ps_offset = i64_of 0,
     ps_limit = i64_of 500, ps_total = i64_of 0, ps_done = make_chan 1\<rparr>"

lemma idle_sample: "idle (sample_gossip rows)"
  by (simp add: idle_def sample_gossip_def)

lemma show_int_0: "show_int 0 = ''0''"
  by code_simp

lemma start_sample:
  "SyncHistoryOnJoin_start (box_net two_members) unix_epoch (sample_gossip rows) =
     (Some 0, (sample_gossip rows)\<lparr>gp_heap := mput 0 sample_sync mempty,
        gp_pendingSyncs := mput ''a-0'' 0 mempty, gp_go := [GoStart 0]\<rparr>)"
  by (simp add: SyncHistoryOnJoin_start_def Let_def box_net_def two_members_def sample_gossip_def
      sample_sync_def UnixNano_def i64_int_of show_int_0)

lemma sample_started_simps [simp]:
  "gp_heap (sample_started rows) = mput 0 sample_sync mempty"
  "gp_pendingSyncs (sample_started rows) = mput ''a-0'' 0 mempty"
  "gp_go (sample_started rows) = [GoStart 0]"
  "gp_store (sample_started rows) = Some (mem_with rows)"
  "gp_sm (sample_started rows) = sample_sm []"
  by (simp_all add: sample_started_def start_sample) (simp_all add: sample_gossip_def)

lemma sample_reach:
  "sync_reach D M (box_net two_members) (sample_gossip rows, [], []) (sample_started rows, [], [i64_of 0])"
proof -
  have "sync_step D M (box_net two_members) (sample_gossip rows, [], [])
      (sample_started rows, [], UnixNano unix_epoch # [])"
    by (rule sync_step.start) (auto simp: sample_started_def intro: prod_eqI)
  then show ?thesis
    by (auto simp: UnixNano_def intro: sync_reach.intros)
qed

lemma sample_started_inv: "sync_inv [] [i64_of 0] (sample_started rows)"
  using sync_reach_idle [OF sample_reach [of mem_gorm wire_pack rows] idle_sample] .

section \<open>Interleavings\<close>

text \<open>
  C12: from a manager with a store and no sync in progress, in every state that any interleaving
  of starts, waits, spawned goroutines, response sections, peer requests and received node states
  reaches, no section of a response and no spawned goroutine can panic or block for ever,
  provided two starts never read the same clock instant.
\<close>

theorem sync_never_panics:
  assumes "idle g0" and "sync_reach D M N (g0, [], []) (g, ts, used)"
  shows "(\<forall>t \<in> set ts. \<exists>r. resp_step D t g = Inr r) \<and>
    (\<forall>gr \<in> set (gp_go g). \<exists>g'. run_goroutine M N now ctx gr g = Inr g') \<and>
    (\<forall>p. \<exists>g'. handleHistoryPullResponse D p g = Inr g')"
proof -
  have inv: "sync_inv ts used g" using sync_reach_idle [OF assms(2,1)] .
  have "\<exists>r. resp_step D t g = Inr r" if "t \<in> set ts" for t
    using resp_step_ok [OF inv that, of D] by blast
  moreover have "\<exists>g'. run_goroutine M N now ctx gr g = Inr g'" if "gr \<in> set (gp_go g)" for gr
    using goroutine_step [OF inv, of gr M N now ctx] inv that by (auto simp: sync_inv_def refs_ok_def)
  ultimately show ?thesis
    using handle_response_ok [OF inv] by blast
qed

theorem sync_never_panics_witness:
  "\<exists>g'. run_goroutine wire_pack (box_net two_members) 0 None (GoStart 0) (sample_started []) = Inr g'"
  using sync_never_panics [OF idle_sample sample_reach [of mem_gorm wire_pack "[]"], of 0 None] by simp



text \<open>
  A sync given up by its timer or its context is dead: \<^verbatim>\<open>SyncHistoryOnJoin\<close> returns that
  error, a response that comes later changes nothing, and ending it again does nothing.
\<close>

theorem abandoned_sync_is_dead:
  assumes "mget (gp_heap g) a = Some ps" and "w \<noteq> WakeDone"
  shows "\<exists>g'. SyncHistoryOnJoin_wait a w g =
      Some (Some (case w of WakeContext e \<Rightarrow> ContextError e | _ \<Rightarrow> SyncTimeout), g') \<and>
    handleHistoryPullResponse D \<lparr>rp_RequestID = ps_reqID ps, rp_Records = rs, rp_HasMore = hm,
      rp_NextOffset = off, rp_TotalCount = tot\<rparr> g' = Inr g' \<and>
    failPendingSync a e g' = Inr g'"
  using assms
  by (cases w) (simp_all add: SyncHistoryOnJoin_wait_def handleHistoryPullResponse_def failPendingSync_def deref_def)

theorem abandoned_sync_is_dead_witness:
  "\<exists>g'. SyncHistoryOnJoin_wait 0 WakeTimer (sample_started []) = Some (Some SyncTimeout, g') \<and>
     failPendingSync 0 None g' = Inr g'"
  using abandoned_sync_is_dead [of "sample_started []" 0 sample_sync WakeTimer mem_gorm "[]" True "i64_of 0" "i64_of 0" None]
  by (auto simp: DAList.lookup_update)

section \<open>Messages\<close>

lemma merge_nodes_nil: "None \<in> snd ` set xs \<Longrightarrow> \<exists>p. merge_nodes D xs s = Inl p"
proof (induction xs arbitrary: s)
  case (Cons x xs)
  obtain t r where x: "x = (t, r)" by (cases x)
  obtain sm st where s: "s = (sm, st)" by (cases s)
  show ?case
  proof (cases r)
    case None
    then show ?thesis by (simp add: x s MergeNodeState_def)
  next
    case (Some n)
    obtain c sm' st' where "MergeNodeState D t (Some n) (sm, st) = Inr (c, sm', st')"
      using MergeNodeState_total by blast
    with Cons Some show ?thesis by (auto simp: x s)
  qed
qed simp

lemma snd_set_zip: "length xs = length ys \<Longrightarrow> snd ` set (zip xs ys) = set ys"
  by (metis list.set_map map_snd_zip)

lemma merge_all_panics: "(\<exists>p. merge_all D clk nodes g = Inl p) \<longleftrightarrow> None \<in> set nodes"
proof -
  let ?xs = "zip (List.map clk [0..<length nodes]) nodes"
  have s: "snd ` set ?xs = set nodes" by (rule snd_set_zip) simp
  show ?thesis
  proof (cases "None \<in> set nodes")
    case True
    with merge_nodes_nil [of ?xs D "(gp_sm g, gp_store g)"] s show ?thesis by (auto simp: merge_all_def)
  next
    case False
    with merge_nodes_total [of ?xs D "(gp_sm g, gp_store g)"] s show ?thesis by (auto simp: merge_all_def)
  qed
qed

lemma handle_request_ok: "gp_store g \<noteq> None \<Longrightarrow> \<exists>g'. handleHistoryPullRequest D M N now rq sender g = Inr g'"
  by (auto simp: handleHistoryPullRequest_def split: sum.splits option.splits prod.splits)

lemma handleMessage_panics:
  assumes "sync_inv ts used g"
  shows "(\<exists>p. handleMessage D M N clk data g = Inl p) \<longleftrightarrow>
    (\<exists>msg payload. DecodeMessage M data = Inr msg \<and> gm_Type msg = MsgClusterSync \<and>
       mp_UnmarshalClusterSync M (gm_Payload msg) = Inr payload \<and> None \<in> set (cp_Nodes payload))"
proof -
  note inv = assms
  then have st: "gp_store g \<noteq> None" by (simp add: sync_inv_def)
  have no_panic: "handleHistoryPullResponse D pl g \<noteq> Inl p"
    "handleHistoryPullRequest D M N now rq sender g \<noteq> Inl p" for pl now rq sender p
    using handle_response_ok [OF inv, of D pl] handle_request_ok [OF st, of D M N now rq sender] by auto
  have one: "merge_all D clk [Some ns] g \<noteq> Inl p" for ns p
    using merge_all_panics [of D clk "[Some ns]" g] by auto
  show ?thesis
  proof (cases "DecodeMessage M data")
    case (Inl e)
    then show ?thesis by (simp add: handleMessage_def)
  next
    case (Inr msg)
    with no_panic one show ?thesis
      using merge_all_panics [of D clk _ g]
      by (auto simp: handleMessage_def split: sum.splits option.splits)
  qed
qed

text \<open>
  C17: in every reachable state, the handler of received messages panics for exactly one kind of
  message: a cluster sync whose list of nodes has a nil element. (A nil state in a single node
  update is skipped, and undecodable, unknown and late messages are dropped.)
\<close>

theorem handleMessage_panics_iff:
  assumes "idle g0" and "sync_reach D M N (g0, [], []) (g, ts, used)"
  shows "(\<exists>p. handleMessage D M N clk data g = Inl p) \<longleftrightarrow>
    (\<exists>msg payload. DecodeMessage M data = Inr msg \<and> gm_Type msg = MsgClusterSync \<and>
       mp_UnmarshalClusterSync M (gm_Payload msg) = Inr payload \<and> None \<in> set (cp_Nodes payload))"
  using handleMessage_panics [OF sync_reach_idle [OF assms(2,1)]] .

definition nil_sync :: wire where
  "nil_sync = WMessage MsgClusterSync ''b'' (i64_of 0) (WPayload (PClusterSync \<lparr>cp_Nodes = [None]\<rparr>))"

theorem handleMessage_panics_iff_witness:
  "\<exists>p. handleMessage mem_gorm wire_pack (box_net two_members) (\<lambda>_. 0) nil_sync (sample_started []) = Inl p"
  unfolding handleMessage_panics_iff [OF idle_sample sample_reach [of mem_gorm wire_pack "[]"]]
  by (simp add: nil_sync_def DecodeMessage_def wire_pack_def)

lemma node_merge_cong: "ns_view r = ns_view r' \<Longrightarrow> ns_view (node_merge l r) = ns_view (node_merge l r')"
proof -
  assume v: "ns_view r = ns_view r'"
  have "resolveConflict l r = RemoteWins \<longleftrightarrow> resolveConflict l r' = RemoteWins"
    using ns_stamp_view [OF v] ns_view_LastUpdated [OF v] by (simp add: resolveConflict_order ns_stamp_def)
  then have c: "resolveConflict l r = resolveConflict l r'" by (metis winner.exhaust)
  have f: "r\<lparr>ns_Clock := None\<rparr> = r'\<lparr>ns_Clock := None\<rparr>" using v by (simp add: ns_view_def)
  show ?thesis
  proof (cases "resolveConflict l r")
    case LocalWins
    with c show ?thesis by (simp add: node_merge_def)
  next
    case RemoteWins
    with c f ns_fields_merge [of l r] ns_fields_merge [of l r'] ns_stamp_merge [of l r] ns_stamp_merge [of l r']
      ns_stamp_view [OF v]
    show ?thesis by (simp add: ns_view_def ns_stamp_def)
  qed
qed

lemma same_node_Some: "same_node x (Some ns) \<Longrightarrow> \<exists>r. x = Some r \<and> ns_view r = ns_view ns"
  by (cases x) (auto simp: same_node_def ns_view_def)

text \<open>A received node state is merged as it was sent.\<close>

lemma state_arrives:
  assumes "msgpack_ok M" and "encode_gossip M now MsgNodeState sender (PNodeState \<lparr>np_State = Some ns\<rparr>) = Inr data"
  shows "\<exists>g' r. handleMessage D M N clk data g = Inr g' \<and> ns_view r = ns_view ns \<and>
    GetNode (ns_NodeID ns) (gp_sm g') =
      Some (case GetNode (ns_NodeID ns) (gp_sm g) of None \<Rightarrow> node_join r | Some l \<Rightarrow> node_merge l r)"
proof -
  obtain b where b: "mp_MarshalPayload M (PNodeState \<lparr>np_State = Some ns\<rparr>) = Inr b"
    "DecodeMessage M data = Inr (NewGossipMessage now MsgNodeState sender b)"
    using encode_gossip_decode [OF assms] by blast
  obtain q r where q: "mp_UnmarshalNodeState M b = Inr q" "np_State q = Some r" "ns_view r = ns_view ns"
    using msgpack_okD(2) [OF assms(1) b(1)] same_node_Some by fastforce
  obtain c sm st where m: "MergeNodeState D (clk 0) (Some r) (gp_sm g, gp_store g) = Inr (c, sm, st)"
    using MergeNodeState_total by blast
  have "handleMessage D M N clk data g = Inr (g\<lparr>gp_sm := sm, gp_store := st\<rparr>)"
    using m by (simp add: handleMessage_def b(2) NewGossipMessage_def q merge_all_def)
  with MergeNodeState_GetNode(1) [OF m, of "ns_NodeID ns"] ns_view_NodeID [OF q(3)] q(3) show ?thesis
    by (intro exI [of _ "g\<lparr>gp_sm := sm, gp_store := st\<rparr>"] exI [of _ r]) simp
qed

text \<open>
  C24: what \<^verbatim>\<open>BroadcastLocalState\<close> queues for the cluster is one message that supersedes the
  node's earlier ones, and any manager that receives it ends with the sent state merged into its
  entry of the node: the sent state itself when the node is unknown.
\<close>

theorem broadcast_arrives:
  assumes "msgpack_ok M" and "BroadcastLocalState M N now ns gA = (None, gA')"
  shows "\<exists>data. gA' = gA\<lparr>gp_list := ml_QueueBroadcast N \<lparr>sb_msg = data, sb_nodeID = ns_NodeID ns\<rparr> (gp_list gA)\<rparr> \<and>
    Invalidates \<lparr>sb_msg = data, sb_nodeID = ns_NodeID ns\<rparr> (Some \<lparr>sb_msg = old, sb_nodeID = ns_NodeID ns\<rparr>) \<and>
    (\<exists>gB'. handleMessage D M N' clk data gB = Inr gB' \<and>
       map_option ns_view (GetNode (ns_NodeID ns) (gp_sm gB')) =
         Some (ns_view (case GetNode (ns_NodeID ns) (gp_sm gB) of None \<Rightarrow> ns | Some l \<Rightarrow> node_merge l ns)))"
proof -
  obtain data where data: "encode_gossip M now MsgNodeState (gp_localNode gA) (PNodeState \<lparr>np_State = Some ns\<rparr>) = Inr data"
    and gA': "gA' = gA\<lparr>gp_list := ml_QueueBroadcast N \<lparr>sb_msg = data, sb_nodeID = ns_NodeID ns\<rparr> (gp_list gA)\<rparr>"
    using assms(2) by (auto simp: BroadcastLocalState_def encode_gossip_def split: sum.splits)
  obtain gB' r where r: "handleMessage D M N' clk data gB = Inr gB'" "ns_view r = ns_view ns"
    "GetNode (ns_NodeID ns) (gp_sm gB') =
      Some (case GetNode (ns_NodeID ns) (gp_sm gB) of None \<Rightarrow> node_join r | Some l \<Rightarrow> node_merge l r)"
    using state_arrives [OF assms(1) data] by blast
  have "Invalidates \<lparr>sb_msg = data, sb_nodeID = ns_NodeID ns\<rparr>
      (Some \<lparr>sb_msg = old, sb_nodeID = ns_NodeID ns\<rparr>)"
    by (simp add: Invalidates_def)
  moreover have "map_option ns_view (GetNode (ns_NodeID ns) (gp_sm gB')) =
      Some (ns_view (case GetNode (ns_NodeID ns) (gp_sm gB) of None \<Rightarrow> ns | Some l \<Rightarrow> node_merge l ns))"
    using r(2,3) node_merge_cong [OF r(2)] by (simp split: option.split)
  ultimately show ?thesis using gA' r(1) by blast
qed

theorem broadcast_arrives_witness:
  "\<exists>data g'. handleMessage mem_gorm wire_pack (box_net two_members) (\<lambda>_. 0) data (sample_gossip []) = Inr g' \<and>
     map_option ns_view (GetNode ''b'' (gp_sm g')) = Some (ns_view (sample_node ''b'' 5 (clock1 ''b'' 1)))"
proof -
  obtain gA' where b: "BroadcastLocalState wire_pack (box_net two_members) 0 (sample_node ''b'' 5 (clock1 ''b'' 1))
      (sample_gossip []) = (None, gA')"
    by (simp add: BroadcastLocalState_def EncodePayload_def EncodeMessage_def wire_pack_def)
  have "GetNode ''b'' (gp_sm (sample_gossip [])) = None"
    by (simp add: sample_gossip_def GetNode_sample_sm)
  with broadcast_arrives [OF wire_pack_ok b, of nil_sync mem_gorm "box_net two_members" "\<lambda>_. 0" "sample_gossip []"]
  show ?thesis by auto
qed

section \<open>Pulling history\<close>

lemma sent_nodes_not_nil:
  assumes "list_all2 same_node xs (mapToSlice nodes)"
  shows "None \<notin> set xs"
proof
  assume "None \<in> set xs"
  with assms obtain y where "y \<in> set (mapToSlice nodes)" "same_node None y"
    by (metis in_set_conv_nth list_all2_conv_all_nth)
  then show False by (auto simp: mapToSlice_def same_node_def)
qed

lemma sent_nodes:
  assumes "msgpack_ok M" and "getClusterStateJSON M now g = Some data"
  shows "\<exists>msg payload. DecodeMessage M data = Inr msg \<and> gm_Type msg = MsgClusterSync \<and>
    gm_FromNode msg = gp_localNode g \<and> mp_UnmarshalClusterSync M (gm_Payload msg) = Inr payload \<and>
    list_all2 same_node (cp_Nodes payload) (mapToSlice (cs_Nodes (GetClusterState (gp_sm g))))"
proof -
  obtain bytes where p: "mp_MarshalPayload M (PClusterSync \<lparr>cp_Nodes = mapToSlice (cs_Nodes (GetClusterState (gp_sm g)))\<rparr>) = Inr bytes"
    and m: "mp_MarshalMessage M (NewGossipMessage now MsgClusterSync (gp_localNode g) bytes) = Inr data"
    using assms(2)
    by (auto simp: getClusterStateJSON_def EncodePayload_def EncodeMessage_def Let_def split: sum.splits)
  from msgpack_okD(1) [OF assms(1) m] msgpack_okD(3) [OF assms(1) p] show ?thesis
    by (auto simp: DecodeMessage_def NewGossipMessage_def)
qed

text \<open>
  C15: what a node sends as its cluster state, in a push-pull exchange or an anti-entropy tick, is a
  well-formed cluster sync: it decodes to the entries of its state, none of them nil, so that a
  receiver merges exactly these, by either handler, and cannot crash on it.
\<close>

theorem cluster_state_well_formed:
  assumes "msgpack_ok M" and "LocalState M now join g = Some data"
  shows "\<exists>nodes g''. list_all2 same_node nodes (mapToSlice (cs_Nodes (GetClusterState (gp_sm g)))) \<and>
    None \<notin> set nodes \<and> merge_all D clk nodes g' = Inr g'' \<and>
    MergeRemoteState D M clk data join' g' = Inr g'' \<and> NotifyMsg D M N clk data g' = Inr g''"
proof -
  obtain msg payload where m: "DecodeMessage M data = Inr msg" "gm_Type msg = MsgClusterSync"
    "mp_UnmarshalClusterSync M (gm_Payload msg) = Inr payload"
    "list_all2 same_node (cp_Nodes payload) (mapToSlice (cs_Nodes (GetClusterState (gp_sm g))))"
    using sent_nodes [OF assms(1) assms(2) [unfolded LocalState_def]] by blast
  have "None \<notin> set (cp_Nodes payload)" using sent_nodes_not_nil [OF m(4)] .
  moreover from this obtain g'' where "merge_all D clk (cp_Nodes payload) g' = Inr g''"
    using merge_all_panics [of D clk "cp_Nodes payload" g'] by (cases "merge_all D clk (cp_Nodes payload) g'") auto
  ultimately show ?thesis
    using m by (auto simp: MergeRemoteState_def handleMergeRemoteState_def NotifyMsg_def handleMessage_def)
qed

theorem cluster_state_well_formed_witness:
  "\<exists>data g''. LocalState wire_pack 0 True (sample_gossip []) = Some data \<and>
     MergeRemoteState mem_gorm wire_pack (\<lambda>_. 0) data True (sample_gossip []) = Inr g''"
proof -
  obtain data where d: "LocalState wire_pack 0 True (sample_gossip []) = Some data"
    by (auto simp: LocalState_def getClusterStateJSON_def EncodePayload_def EncodeMessage_def wire_pack_def Let_def)
  from cluster_state_well_formed [OF wire_pack_ok d, where g' = "sample_gossip []" and D = mem_gorm and clk = "\<lambda>_. 0"
      and join' = True and N = "box_net two_members"] d
  show ?thesis by blast
qed




definition mem_healthy :: "memdb \<Rightarrow> bool" where
  "mem_healthy d \<longleftrightarrow> mem_ready d \<and> md_open d"

lemma mem_insert_healthy:
  assumes "mem_healthy d"
  shows "\<exists>n d'. mem_insert r d = ((n, None), d') \<and> mem_healthy d'"
proof -
  obtain n e d' where ins: "mem_insert r d = ((n, e), d')" by (metis prod.exhaust)
  have e: "e = None" "md_open d'"
    using assms ins by (auto simp: mem_insert_def mem_healthy_def Let_def split: if_splits)
  have rdy: "mem_ready d" using assms by (simp add: mem_healthy_def)
  have "g_InsertHistory mem_gorm r d = ((n, e), d')" using ins by (simp add: mem_gorm_def)
  from mem.insert_history_grows [OF rdy this] e ins show ?thesis by (auto simp: mem_healthy_def)
qed

lemma mem_import_healthy:
  "mem_healthy d \<Longrightarrow> \<exists>n d'. Import_loop mem_gorm rs k d = ((n, None), d') \<and> mem_healthy d'"
proof (induction rs arbitrary: k d)
  case (Cons r rs)
  obtain n d1 where d1: "mem_insert r d = ((n, None), d1)" "mem_healthy d1"
    using mem_insert_healthy [OF Cons.prems] by blast
  have "g_InsertHistory mem_gorm = mem_insert" by (simp add: mem_gorm_def)
  with d1 Cons.IH [OF d1(2)] show ?case by simp
qed simp

lemma healthy_mem: "healthy mem_gorm mem_healthy"
  unfolding healthy_def
proof (intro allI impI conjI)
  fix d and rs :: "HistoryRecord list"
  assume h: "mem_healthy d"
  show "\<exists>n d'. ImportHistoryRecords mem_gorm rs d = ((n, None), d') \<and> mem_healthy d'"
    using mem_import_healthy [OF h, of rs "i64_of 0"] h by (simp add: ImportHistoryRecords_def)
  show "\<exists>t. GetLatestHistoryTime mem_gorm d = Inr t"
    using h
    by (auto simp: GetLatestHistoryTime_def mem_gorm_def mem_healthy_def split: list.splits)
qed

lemma readable_mem: "md_open d \<Longrightarrow> readable mem_gorm since d"
  by (simp add: readable_def GetAllHistorySince_def mem_gorm_def)

lemma since_sample: "page_since (history_request (sample_sm []) ps) = time_zero"
  by (simp add: page_since_def history_request_def sample_sm_def NewStateManager_def GetHistorySyncTime_def
      IsZero_def i64_int_of)


text \<open>
  A peer with 50000 rows or more since the requested time cannot be caught up with: after
  100 full pages the pull ends in the error that too many pages were needed.
\<close>

theorem pull_gives_up:
  assumes "gorm_sqlite D mg rdy nt ht sc" and "healthy D H" and "\<And>d. H d \<Longrightarrow> rdy d"
    and "rdy peer" and "readable D since peer"
    and "sync_inv ts used g" and "mget (gp_heap g) a = Some ps"
    and "mget (gp_pendingSyncs g) (ps_reqID ps) = Some a" and "ps_offset ps = i64_of 0"
    and "gp_store g = Some d" and "H d" and "since = page_since (history_request (gp_sm g) ps)"
    and "50000 \<le> card {r \<in> ht peer. IsZero since \<or> since \<le> hr_Timestamp r}"
  shows "\<exists>g'. pull_rounds 100 D peer a g = Inr g' \<and> concluded a (Some TooManyPages) g'"
  by (rule gorm_sqlite.pull_too_long [OF assms])

definition long_table :: "nat \<Rightarrow> HistoryRecord list" where
  "long_table n = List.map (\<lambda>i. sample_event (Suc i) ''b'' (int i)) [0..<n]"

lemma long_table_ready: "mem_ready (mem_with (long_table n))"
  by (simp add: long_table_def o_def distinct_map inj_on_def)

lemma long_table_card: "card (set (long_table n)) = n"
proof -
  have "distinct (long_table n)" by (simp add: long_table_def distinct_map inj_on_def)
  from distinct_card [OF this] show ?thesis by (simp add: long_table_def)
qed

theorem pull_gives_up_witness:
  "\<exists>g'. pull_rounds 100 mem_gorm (mem_with (long_table 50000)) 0 (sample_started []) = Inr g' \<and>
     concluded 0 (Some TooManyPages) g'"
proof -
  let ?g = "sample_started []" and ?peer = "mem_with (long_table 50000)"
  have H: "\<And>d. mem_healthy d \<Longrightarrow> mem_ready d" by (simp add: mem_healthy_def)
  have g: "mget (gp_heap ?g) 0 = Some sample_sync" "mget (gp_pendingSyncs ?g) (ps_reqID sample_sync) = Some 0"
    "ps_offset sample_sync = i64_of 0" "gp_store ?g = Some (mem_with [])"
    "mem_healthy (mem_with [])"
    "time_zero = page_since (history_request (gp_sm ?g) sample_sync)"
    by (simp_all add: DAList.lookup_update sample_sync_def mem_healthy_def since_sample)
  have "{r \<in> mem_hist_tab ?peer. IsZero time_zero \<or> time_zero \<le> hr_Timestamp r} = set (long_table 50000)"
    by (simp add: IsZero_def)
  then have c: "50000 \<le> card {r \<in> mem_hist_tab ?peer. IsZero time_zero \<or> time_zero \<le> hr_Timestamp r}"
    using long_table_card [of 50000] by simp
  have r: "readable mem_gorm time_zero ?peer" by (rule readable_mem) simp
  show ?thesis
    by (rule pull_gives_up [OF mem_ax healthy_mem H long_table_ready r sample_started_inv g c])
qed

text \<open>The same response handled n times.\<close>

fun responses :: "nat \<Rightarrow> 'db gorm \<Rightarrow> HistoryPullResponsePayload \<Rightarrow> ('m, 'db) gossip \<Rightarrow> ('m, 'db) gossip go" where
  "responses 0 D p g = Inr g"
| "responses (Suc n) D p g = go_bind (handleHistoryPullResponse D p g) (responses n D p)"

text \<open>
  The bound of 100 pages holds for honest peers only. It is computed from the offset the
  response itself carries, so a peer that keeps answering with an empty page, \<^verbatim>\<open>HasMore\<close> set
  and offset zero is asked again after every response, for any number of responses, and the sync
  stays pending.
\<close>

theorem page_bound_trusts_peer:
  assumes "sync_inv ts used g" and "mget (gp_pendingSyncs g) i = Some a"
  shows "\<exists>g'. responses n D \<lparr>rp_RequestID = i, rp_Records = [], rp_HasMore = True, rp_NextOffset = i64_of 0,
       rp_TotalCount = i64_of (-1)\<rparr> g = Inr g' \<and>
    mget (gp_pendingSyncs g') i = Some a \<and> gp_go g' = gp_go g @ replicate n (GoSend a)"
  using assms
proof (induction n arbitrary: g)
  case 0
  then show ?case by simp
next
  case (Suc n)
  let ?p = "\<lparr>rp_RequestID = i, rp_Records = [], rp_HasMore = True, rp_NextOffset = i64_of 0,
       rp_TotalCount = i64_of (-1)\<rparr>"
  have "pending_ok g" using Suc.prems(1) by (simp add: sync_inv_def)
  from pending_okD(1) [OF this Suc.prems(2)] obtain ps where ps: "mget (gp_heap g) a = Some ps" "ps_reqID ps = i"
    by blast
  obtain d where d: "gp_store g = Some d" using Suc.prems(1) by (auto simp: sync_inv_def)
  have lim: "i64_int (ps_limit ps) = 500"
    using sync_inv_heap [OF Suc.prems(1), of a] ps by (auto simp: sync_obj_ok_def i64_int_of)
  let ?ps = "ps\<lparr>ps_total := i64_add (ps_total ps) (i64_of 0), ps_offset := i64_of 0\<rparr>"
  let ?g = "g\<lparr>gp_heap := mput a ?ps (gp_heap g), gp_go := gp_go g @ [GoSend a]\<rparr>"
  have q: "i64_quot (i64_of 0) (ps_limit ps) = Inr (i64_of 0)" "i64_int (i64_of 0) = 0"
    using lim by (simp_all add: i64_quot_def i64_int_of)
  have run: "handleHistoryPullResponse D ?p g = Inr ?g"
    using Suc.prems(2) ps d q
    by (simp add: handleHistoryPullResponse_def import_page_def ImportHistoryRecords_def resp_advance_def
        resp_more_def deref_def DAList.lookup_update)
  have "sync_inv ts used ?g"
    using handle_response_ok [OF Suc.prems(1), of D ?p] run by simp
  with Suc.IH [of ?g] Suc.prems(2) run show ?case
    by (simp add: replicate_app_Cons_same)
qed

theorem page_bound_trusts_peer_witness:
  "\<exists>g'. responses 1000 mem_gorm \<lparr>rp_RequestID = ''a-0'', rp_Records = [], rp_HasMore = True,
       rp_NextOffset = i64_of 0, rp_TotalCount = i64_of (-1)\<rparr> (sample_started []) = Inr g' \<and>
     mget (gp_pendingSyncs g') ''a-0'' = Some 0"
proof -
  have "mget (gp_pendingSyncs (sample_started [])) ''a-0'' = Some 0" by (simp add: DAList.lookup_update)
  from page_bound_trusts_peer [OF sample_started_inv this, of 1000 mem_gorm] show ?thesis by blast
qed

end
