(* ===== verification/Replication.thy ===== *)
theory Replication
  imports Node GossipProps
begin

text \<open>
  What the handlers of the gossip manager do to the entries of the cluster state: the messages of
  the history synchronisation and the work of the other goroutines leave them alone, a departure
  changes the status of one, and a received message merges the node states that it carries.
\<close>

section \<open>Entries\<close>

definition known :: "('m, 'db) gossip \<Rightarrow> string \<Rightarrow> NodeState option" where
  "known g n = GetNode n (gp_sm g)"

abbreviation same_store :: "('m, 'db) gossip \<Rightarrow> ('m, 'db) gossip \<Rightarrow> bool" where
  "same_store g g' \<equiv> (gp_store g' = None) = (gp_store g = None)"

lemma GetNode_SetHistorySyncTime [simp]: "GetNode n (SetHistorySyncTime t sm) = GetNode n sm"
  by (simp add: GetNode_def SetHistorySyncTime_def)

lemma known_update [simp]:
  "known (g\<lparr>gp_list := l\<rparr>) = known g" "known (g\<lparr>gp_store := st\<rparr>) = known g"
  "known (g\<lparr>gp_pendingSyncs := ps\<rparr>) = known g" "known (g\<lparr>gp_heap := h\<rparr>) = known g"
  "known (g\<lparr>gp_go := gs\<rparr>) = known g"
  "known (g\<lparr>gp_sm := SetHistorySyncTime t (gp_sm g)\<rparr>) = known g"
  by (simp_all add: known_def fun_eq_iff)

lemma fail_frame:
  "failPendingSync a e g = Inr g' \<Longrightarrow> gp_sm g' = gp_sm g \<and> gp_store g' = gp_store g \<and> gp_list g' = gp_list g"
  by (auto simp: failPendingSync_def deref_def Let_def split: option.splits if_splits)

lemma gp_sm_fail: "failPendingSync a e g = Inr g' \<Longrightarrow> gp_sm g' = gp_sm g \<and> gp_store g' = gp_store g"
  by (simp add: fail_frame)

lemma resp_advance_frame:
  "resp_advance a p k g = Inr g' \<Longrightarrow> gp_sm g' = gp_sm g \<and> gp_store g' = gp_store g \<and> gp_list g' = gp_list g"
  by (auto simp: resp_advance_def deref_def split: option.splits)

lemma resp_more_frame:
  "resp_more a g = Inr g' \<Longrightarrow> gp_sm g' = gp_sm g \<and> gp_store g' = gp_store g \<and> gp_list g' = gp_list g"
  by (auto simp: resp_more_def deref_def dest: fail_frame split: option.splits if_splits)

text \<open>A response to a history request touches the store and the pending syncs only.\<close>

definition untouched :: "('m, 'db) gossip \<Rightarrow> ('m, 'db) gossip \<Rightarrow> bool" where
  "untouched g g' \<longleftrightarrow> known g' = known g \<and> same_store g g' \<and> gp_list g' = gp_list g"

lemma untouchedI: "gp_sm g' = gp_sm g \<and> gp_store g' = gp_store g \<and> gp_list g' = gp_list g \<Longrightarrow> untouched g g'"
  by (simp add: untouched_def known_def fun_eq_iff)

lemma untouched_trans: "untouched g g1 \<Longrightarrow> untouched g1 g2 \<Longrightarrow> untouched g g2"
  by (simp add: untouched_def)

lemma untouched_last:
  assumes "resp_last D a g = Inr g'"
  shows "untouched g g'"
proof -
  obtain g1 where "failPendingSync a None g1 = Inr g'" "untouched g g1"
    using assms
    by (auto simp: resp_last_def untouched_def split: option.splits sum.splits if_splits)
  then show ?thesis using untouchedI [OF fail_frame] untouched_trans by blast
qed

lemma untouched_response:
  assumes "handleHistoryPullResponse D p g = Inr g'"
  shows "untouched g g'"
proof (cases "mget (gp_pendingSyncs g) (rp_RequestID p)")
  case None
  with assms show ?thesis by (simp add: handleHistoryPullResponse_def untouched_def)
next
  case (Some a)
  with assms obtain k err st where imp: "import_page D (rp_Records p) (gp_store g) = Inr ((k, err), st)"
    by (auto simp: handleHistoryPullResponse_def)
  let ?g = "g\<lparr>gp_store := st\<rparr>"
  have "(st = None) = (gp_store g = None)"
    using imp by (auto simp: import_page_def split: option.splits if_splits prod.splits)
  then have start: "untouched g ?g" by (simp add: untouched_def)
  have "untouched ?g g'"
  proof (cases err)
    case (Some e)
    with assms \<open>mget _ _ = Some a\<close> imp have "failPendingSync a (Some (StoreError e)) ?g = Inr g'"
      by (simp add: handleHistoryPullResponse_def)
    then show ?thesis by (rule untouchedI [OF fail_frame])
  next
    case None
    with assms \<open>mget _ _ = Some a\<close> imp obtain g1 where g1: "resp_advance a p k ?g = Inr g1"
      and last: "(if rp_HasMore p then resp_more a g1 else resp_last D a g1) = Inr g'"
      by (auto simp: handleHistoryPullResponse_def)
    from last have "untouched g1 g'"
      by (auto dest: untouchedI [OF resp_more_frame] untouched_last split: if_splits)
    then show ?thesis by (rule untouched_trans [OF untouchedI [OF resp_advance_frame [OF g1]]])
  qed
  with start show ?thesis by (rule untouched_trans)
qed

section \<open>What a message carries\<close>

text \<open>The node states in a message, as a receiver reads them: none in one of another type.\<close>

definition carried :: "'b msgpack \<Rightarrow> 'b \<Rightarrow> NodeState option list" where
  "carried M data =
     (case DecodeMessage M data of
        Inl _ \<Rightarrow> []
      | Inr msg \<Rightarrow>
          if gm_Type msg = MsgNodeState then
            (case mp_UnmarshalNodeState M (gm_Payload msg) of
               Inl _ \<Rightarrow> []
             | Inr payload \<Rightarrow> (case np_State payload of None \<Rightarrow> [] | Some ns \<Rightarrow> [Some ns]))
          else if gm_Type msg = MsgClusterSync then
            (case mp_UnmarshalClusterSync M (gm_Payload msg) of Inl _ \<Rightarrow> [] | Inr payload \<Rightarrow> cp_Nodes payload)
          else [])"

lemma merge_all_Nil: "merge_all D clk [] g = Inr g"
  by (simp add: merge_all_def)

lemma merge_all_frame: "merge_all D clk nodes g = Inr g' \<Longrightarrow> gp_list g' = gp_list g \<and> same_store g g'"
  by (auto simp: merge_all_def dest: merge_nodes_store)

lemma request_untouched:
  "handleHistoryPullRequest D M N now rq sender g = Inr g' \<Longrightarrow> known g' = known g \<and> gp_store g' = gp_store g"
  by (auto dest!: handleHistoryPullRequest_frame)

text \<open>Handling a message is, for the entries, merging what it carries.\<close>

lemma handleMessage_merges:
  assumes "handleMessage D M N clk data g = Inr g'"
  shows "\<exists>g1. merge_all D clk (carried M data) g = Inr g1 \<and> known g' = known g1 \<and> same_store g1 g'"
proof (cases "DecodeMessage M data")
  case (Inl e)
  with assms show ?thesis by (simp add: handleMessage_def carried_def merge_all_Nil)
next
  case (Inr msg)
  consider (state) "gm_Type msg = MsgNodeState" | (sync) "gm_Type msg = MsgClusterSync"
    | (other) "gm_Type msg \<noteq> MsgNodeState" "gm_Type msg \<noteq> MsgClusterSync" by blast
  then show ?thesis
  proof cases
    case state
    with assms Inr show ?thesis
      by (auto simp: handleMessage_def carried_def merge_all_Nil split: sum.splits option.splits)
  next
    case sync
    with assms Inr show ?thesis
      by (auto simp: handleMessage_def carried_def merge_all_Nil split: sum.splits option.splits)
  next
    case other
    with assms Inr show ?thesis
      by (auto simp: handleMessage_def carried_def merge_all_Nil untouched_def dest!: untouched_response
          request_untouched split: sum.splits if_splits)
  qed
qed

lemma MergeRemoteState_merges:
  assumes "MergeRemoteState D M clk data join g = Inr g'"
  shows "merge_all D clk (carried M data) g = Inr g' \<or> g' = g"
  using assms
  by (auto simp: MergeRemoteState_def handleMergeRemoteState_def carried_def merge_all_Nil
      split: sum.splits if_splits)

text \<open>What is merged, as a list of states with the instants of their merges.\<close>

lemma merge_all_nodes:
  assumes "merge_all D clk nodes g = Inr g'"
  obtains xs where "merge_nodes D xs (gp_sm g, gp_store g) = Inr (gp_sm g', gp_store g')"
    "snd ` set xs = set nodes"
proof -
  let ?xs = "zip (List.map clk [0..<length nodes]) nodes"
  have "merge_nodes D ?xs (gp_sm g, gp_store g) = Inr (gp_sm g', gp_store g')"
    using assms by (auto simp: merge_all_def)
  moreover have "snd ` set ?xs = set nodes" by (rule snd_set_zip) simp
  ultimately show thesis by (rule that)
qed

section \<open>Departures and the other goroutines\<close>

lemma known_leave:
  "known (NotifyLeave D now node g) n =
     (if n = mb_Name node then map_option (\<lambda>e. e\<lparr>ns_Status := ''inactive''\<rparr>) (known g n) else known g n)"
  by (cases "GetNode (mb_Name node) (gp_sm g)")
     (auto simp: NotifyLeave_def MarkNodeInactive_def Inactive_locked_def GetNode_def [of "mb_Name node"]
       known_def GetNode_put_node Let_def)

lemma leave_store: "same_store g (NotifyLeave D now node g)"
  by (auto simp: NotifyLeave_def MarkNodeInactive_def record_pending_def recordEvent_store
      split: prod.splits option.splits)

lemma leave_list: "gp_list (NotifyLeave D now node g) = gp_list g"
  by (simp add: NotifyLeave_def split: prod.splits)

text \<open>
  The work of the other goroutines of a node, as far as its entries go: the caller of a history
  synchronisation, the goroutines it spawns, the clean-up of the history, and the subscribers.
\<close>

inductive background ::
    "'db gorm \<Rightarrow> 'b msgpack \<Rightarrow> ('m, 'b) net \<Rightarrow> ('m, 'db) gossip \<Rightarrow> ('m, 'db) gossip \<Rightarrow> bool"
  for D :: "'db gorm" and M :: "'b msgpack" and N :: "('m, 'b) net" where
  starts: "SyncHistoryOnJoin_start N now g = (r, g') \<Longrightarrow> background D M N g g'"
| waits: "SyncHistoryOnJoin_wait a w g = Some (e, g') \<Longrightarrow> background D M N g g'"
| spawned: "gp_go g = xs @ gr # ys \<Longrightarrow> run_goroutine M N now ctx gr (g\<lparr>gp_go := xs @ ys\<rparr>) = Inr g' \<Longrightarrow>
     background D M N g g'"
| cleans: "cleanup_tick D now cfg g = Inr g' \<Longrightarrow> background D M N g g'"
| watches: "Subscribe (gp_sm g) = (ch, sm) \<or> Receive ch (gp_sm g) = Some (e, sm) \<or> Unsubscribe ch (gp_sm g) = Inr sm \<Longrightarrow>
     background D M N g (g\<lparr>gp_sm := sm\<rparr>)"

lemma sm_watch:
  "Subscribe sm = (ch, sm') \<or> Receive ch sm = Some (e, sm') \<or> Unsubscribe ch sm = Inr sm' \<Longrightarrow>
     sm_clusterState sm' = sm_clusterState sm"
  by (auto simp: Subscribe_def Receive_def Unsubscribe_def Let_def split: option.splits sum.splits)

lemma send_frame:
  assumes "sendHistoryPullRequest M N now a g = Inr g'"
  shows "gp_sm g' = gp_sm g \<and> gp_store g' = gp_store g"
  using assms
  by (auto simp: sendHistoryPullRequest_def deref_def dest: gp_sm_fail split: option.splits sum.splits prod.splits)

lemma goroutine_frame:
  "run_goroutine M N now ctx gr g = Inr g' \<Longrightarrow> gp_sm g' = gp_sm g \<and> gp_store g' = gp_store g"
  by (cases gr) (auto dest: send_frame gp_sm_fail split: option.splits)

lemma background_entries: "background D M N g g' \<Longrightarrow> known g' = known g \<and> same_store g g'"
proof (induction rule: background.induct)
  case (starts now g r g')
  then show ?case by (auto simp: SyncHistoryOnJoin_start_def Let_def split: if_splits option.splits)
next
  case (waits a w g e g')
  then show ?case by (auto simp: SyncHistoryOnJoin_wait_def Let_def split: option.splits wake.splits)
next
  case (spawned g xs gr ys now ctx g')
  then show ?case by (auto dest!: goroutine_frame simp: known_def fun_eq_iff)
next
  case (cleans now cfg g g')
  then show ?case by (auto simp: cleanup_tick_def split: option.splits)
next
  case (watches g ch sm e)
  from sm_watch [OF this] show ?case by (simp add: known_def GetNode_def fun_eq_iff)
qed

end
