(* ===== verification/DiscoveryProps.thy ===== *)
theory DiscoveryProps
  imports Discovery
begin

text \<open>
  Properties of the discovery: forgetting old sightings is invisible, joins to one address are
  spaced by the cooldown, and what a node announces leads the others to it and nowhere else.
\<close>

section \<open>Repeated sightings\<close>

text \<open>A sequence of sightings, each at its instant, and the answers of \<open>isNew\<close>.\<close>

fun seen_run :: "(gotime \<times> string) list \<Rightarrow> discoveryBase \<Rightarrow> bool list" where
  "seen_run [] db = []"
| "seen_run ((now, addr) # cs) db = (let (new, db') = isNew now addr db in new # seen_run cs db')"

text \<open>The specification never forgets: it keeps the last accepted sighting of every address.\<close>

fun spec_run :: "duration \<Rightarrow> (gotime \<times> string) list \<Rightarrow> (string \<Rightarrow> gotime option) \<Rightarrow> bool list" where
  "spec_run cd [] A = []"
| "spec_run cd ((now, addr) # cs) A =
     (let new = (case A addr of None \<Rightarrow> True | Some t \<Rightarrow> Sub now t > cd)
      in new # spec_run cd cs (if new then A(addr \<mapsto> now) else A))"

definition forgets_safely :: "gotime \<Rightarrow> discoveryBase \<Rightarrow> (string \<Rightarrow> gotime option) \<Rightarrow> bool" where
  "forgets_safely now db A \<longleftrightarrow>
     (\<forall>a. mget (db_seenAddrs db) a = A a \<or>
          (mget (db_seenAddrs db) a = None \<and> (\<exists>t. A a = Some t \<and> Sub now t > 5 * db_cooldown db)))"

lemma mget_filter_alist:
  "mget (DAList.filter (\<lambda>(a, t). Q a t) m) k =
     (case mget m k of None \<Rightarrow> None | Some t \<Rightarrow> if Q k t then Some t else None)"
proof -
  have "map_of [p \<leftarrow> xs. case p of (a, t) \<Rightarrow> Q a t] k =
      (case map_of xs k of None \<Rightarrow> None | Some t \<Rightarrow> if Q k t then Some t else None)"
    if "distinct (List.map fst xs)" for xs
    using that
  proof (induction xs)
    case (Cons x xs)
    obtain a t where x: "x = (a, t)" by (cases x)
    with Cons.prems have "map_of xs a = None" by (auto simp: map_of_eq_None_iff)
    with Cons x show ?case by (auto simp: split: option.splits)
  qed simp
  from this [OF DAList.impl_of_distinct] show ?thesis
    by (simp add: mget_map_of DAList.filter.rep_eq del: mem_mentries)
qed

lemma Sub_mono: "t \<le> u \<Longrightarrow> Sub t x \<le> Sub u x"
  by (auto simp: Sub_def)

lemma isNew_step:
  assumes ok: "forgets_safely now0 db A" and cd: "0 \<le> db_cooldown db" and le: "now0 \<le> now"
    and step: "isNew now addr db = (new, db')"
  shows "new = (case A addr of None \<Rightarrow> True | Some t \<Rightarrow> Sub now t > db_cooldown db) \<and>
    forgets_safely now db' (if new then A(addr \<mapsto> now) else A) \<and> db_cooldown db' = db_cooldown db"
proof -
  let ?seen = "DAList.filter (\<lambda>(a, t). \<not> Sub now t > 5 * db_cooldown db) (db_seenAddrs db)"
  have kept: "mget ?seen a = A a \<or> (mget ?seen a = None \<and> (\<exists>t. A a = Some t \<and> Sub now t > 5 * db_cooldown db))" for a
  proof -
    have "5 * db_cooldown db < Sub now t" if "5 * db_cooldown db < Sub now0 t" for t
      using that Sub_mono [OF le, of t] by linarith
    with ok [unfolded forgets_safely_def, rule_format, of a] show ?thesis
      by (auto simp: mget_filter_alist split: option.splits)
  qed
  have more: "Sub now t > db_cooldown db" if "Sub now t > 5 * db_cooldown db" for t
    using that cd by linarith
  have new: "(case mget ?seen addr of None \<Rightarrow> True | Some lastSeen \<Rightarrow> Sub now lastSeen > db_cooldown db) =
      (case A addr of None \<Rightarrow> True | Some t \<Rightarrow> Sub now t > db_cooldown db)"
    using kept [of addr] more by (auto split: option.splits)
  show ?thesis
  proof (cases "case A addr of None \<Rightarrow> True | Some t \<Rightarrow> Sub now t > db_cooldown db")
    case True
    with step new have "new" "db' = db\<lparr>db_seenAddrs := mput addr now ?seen\<rparr>"
      by (simp_all add: isNew_def Let_def)
    with True kept show ?thesis by (simp add: forgets_safely_def DAList.lookup_update)
  next
    case False
    with step new have "\<not> new" "db' = db\<lparr>db_seenAddrs := ?seen\<rparr>"
      by (simp_all add: isNew_def Let_def)
    with False kept show ?thesis by (simp add: forgets_safely_def)
  qed
qed

lemma seen_run_spec:
  "sorted (List.map fst cs) \<Longrightarrow> forgets_safely now0 db A \<Longrightarrow> 0 \<le> db_cooldown db \<Longrightarrow>
   (\<And>t. t \<in> fst ` set cs \<Longrightarrow> now0 \<le> t) \<Longrightarrow> seen_run cs db = spec_run (db_cooldown db) cs A"
proof (induction cs arbitrary: now0 db A)
  case (Cons c cs)
  obtain now addr where c: "c = (now, addr)" by (cases c)
  obtain new db' where st: "isNew now addr db = (new, db')" by fastforce
  have "now0 \<le> now" using Cons.prems(4) by (simp add: c)
  from isNew_step [OF Cons.prems(2,3) this st]
  have s: "new = (case A addr of None \<Rightarrow> True | Some t \<Rightarrow> Sub now t > db_cooldown db)"
    "forgets_safely now db' (if new then A(addr \<mapsto> now) else A)" "db_cooldown db' = db_cooldown db" by auto
  have "seen_run cs db' = spec_run (db_cooldown db') cs (if new then A(addr \<mapsto> now) else A)"
    by (rule Cons.IH [OF _ s(2)]) (use Cons.prems s(3) in \<open>auto simp: c\<close>)
  with s(1,3) st show ?case by (simp add: c Let_def)
qed simp

lemma seen_run_fresh:
  assumes "sorted (List.map fst cs)"
  shows "seen_run cs (newDiscoveryBase c) = spec_run (30 * second) cs Map.empty"
proof (cases cs)
  case (Cons x xs)
  have "forgets_safely (fst x) (newDiscoveryBase c) Map.empty"
    by (simp add: forgets_safely_def newDiscoveryBase_def)
  from seen_run_spec [OF assms this] show ?thesis
    using assms by (auto simp: newDiscoveryBase_def second_def Cons)
qed simp

text \<open>
  Deleting the sightings older than five times the cooldown is invisible: on any sequence of
  sightings in time order \<^verbatim>\<open>isNew\<close> answers as if it remembered every accepted sighting for ever.
\<close>

theorem isNew_never_forgets:
  assumes "sorted (List.map fst cs)"
  shows "seen_run cs (newDiscoveryBase c) = spec_run (30 * second) cs Map.empty"
  using assms by (rule seen_run_fresh)

theorem isNew_never_forgets_witness:
  "seen_run [(0, ''a''), (10 * second, ''a''), (200 * second, ''b''), (200 * second, ''a'')] (newDiscoveryBase ''c'') =
     [True, False, True, True]"
  using isNew_never_forgets [of "[(0, ''a''), (10 * second, ''a''), (200 * second, ''b''), (200 * second, ''a'')]" "''c''"]
  by (simp add: second_def Sub_def max_duration_def min_duration_def)

lemma spec_run_spaced:
  assumes "0 \<le> cd" and "cd < max_duration"
  shows "A addr = Some t \<Longrightarrow> j < length cs \<Longrightarrow> snd (cs ! j) = addr \<Longrightarrow> spec_run cd cs A ! j \<Longrightarrow>
     cd < fst (cs ! j) - t"
proof (induction cs arbitrary: A t j)
  case (Cons c cs)
  obtain now a where c: "c = (now, a)" by (cases c)
  let ?new = "case A a of None \<Rightarrow> True | Some t \<Rightarrow> Sub now t > cd"
  let ?A = "if ?new then A(a \<mapsto> now) else A"
  show ?case
  proof (cases j)
    case 0
    with Cons.prems have "Sub now t > cd" by (simp add: c Let_def)
    then show ?thesis using Sub_gt_iff [OF assms, of now t] 0 by (simp add: c)
  next
    case (Suc k)
    have k: "k < length cs" "snd (cs ! k) = addr" "spec_run cd cs ?A ! k"
      using Cons.prems Suc by (simp_all add: c Let_def)
    show ?thesis
    proof (cases "?new \<and> a = addr")
      case True
      with Cons.prems(1) have "Sub now t > cd" by auto
      then have "t + cd < now" using Sub_gt_iff [OF assms, of now t] by simp
      moreover have "cd < fst (cs ! k) - now"
        using Cons.IH [of ?A now k] True k by auto
      ultimately show ?thesis using assms(1) Suc by (simp add: c)
    next
      case False
      then have "?A addr = Some t" using Cons.prems(1) by auto
      from Cons.IH [OF this k] Suc show ?thesis by (simp add: c)
    qed
  qed
qed simp

lemma spec_run_pair:
  assumes "0 \<le> cd" and "cd < max_duration"
  shows "i < j \<Longrightarrow> j < length cs \<Longrightarrow> snd (cs ! i) = snd (cs ! j) \<Longrightarrow> spec_run cd cs A ! i \<Longrightarrow>
     spec_run cd cs A ! j \<Longrightarrow> cd < fst (cs ! j) - fst (cs ! i)"
proof (induction cs arbitrary: A i j)
  case (Cons c cs)
  obtain now a where c: "c = (now, a)" by (cases c)
  let ?new = "case A a of None \<Rightarrow> True | Some t \<Rightarrow> Sub now t > cd"
  let ?A = "if ?new then A(a \<mapsto> now) else A"
  obtain k where k: "j = Suc k" using Cons.prems(1) by (cases j) auto
  have r: "k < length cs" "spec_run cd cs ?A ! k" using Cons.prems k by (simp_all add: c Let_def)
  show ?case
  proof (cases i)
    case 0
    then have new: "?new" using Cons.prems(4) by (simp add: c Let_def)
    have "snd (cs ! k) = a" using Cons.prems(3) 0 k by (simp add: c)
    with spec_run_spaced [OF assms, of ?A a now k cs] new r 0 k show ?thesis by (simp add: c)
  next
    case (Suc m)
    with Cons.IH [of m k ?A] Cons.prems k r show ?thesis by (simp add: c Let_def)
  qed
qed simp

text \<open>
  Two accepted sightings of one address are more than the cooldown of 30 seconds apart, so a
  peer that announces itself all the time is joined at most once per 30 seconds.
\<close>

theorem joins_spaced:
  assumes "sorted (List.map fst cs)" and "i < j" and "j < length cs" and "snd (cs ! i) = snd (cs ! j)"
    and "seen_run cs (newDiscoveryBase c) ! i" and "seen_run cs (newDiscoveryBase c) ! j"
  shows "30 * second < fst (cs ! j) - fst (cs ! i)"
proof -
  have "forgets_safely (fst (hd cs)) (newDiscoveryBase c) Map.empty"
    by (simp add: forgets_safely_def newDiscoveryBase_def)
  from seen_run_spec [OF assms(1) this] assms(1,3)
  have "seen_run cs (newDiscoveryBase c) = spec_run (30 * second) cs Map.empty"
    by (cases cs) (auto simp: newDiscoveryBase_def second_def)
  with spec_run_pair [OF _ _ assms(2,3,4), of "30 * second" Map.empty] assms(5,6) show ?thesis
    by (simp add: second_def max_duration_def)
qed

theorem joins_spaced_witness:
  "30 * second < fst ([(0, ''a''), (31 * second, ''a'')] ! 1) - fst ([(0, ''a''), (31 * second, ''a'')] ! 0)"
  by (rule joins_spaced [where c = "''c''" and cs = "[(0, ''a''), (31 * second, ''a'')]" and i = 0 and j = 1])
     (simp_all add: isNew_def newDiscoveryBase_def Let_def mget_filter_alist DAList.lookup_update second_def
        Sub_def max_duration_def min_duration_def)

section \<open>Announcements\<close>

lemma cut_field_key: "CHR ''='' \<notin> set k \<Longrightarrow> cut_field (k @ CHR ''='' # v) = Some (k, v)"
  by (induction k) auto

lemma mdns_info_fields: "entry_fields (mdns_info d) ([], []) = (db_clusterName (md_base d), md_localAddr d)"
  using cut_field_key [of "''cluster_name''"] cut_field_key [of "''gossip_addr''"]
  by (simp add: mdns_info_def)

text \<open>
  What a node announces over UDP or mDNS makes a receiver try to join exactly the announced
  address under the announced cluster name; the announcement is dropped when it is the receiver's
  own, and a foreign cluster name never leads to a join.
\<close>

theorem announcement_received:
  assumes "msgpack_ok M" and "udp_announcement M unix cluster dA = Some data"
    and "md_hasManager mB" and "md_localAddr mA \<noteq> []"
  shows "udp_receive M join now data (dB, net) =
      (if ud_localAddr dA = ud_localAddr dB then (dB, net)
       else let (db, net') = tryJoin join now (ud_localAddr dA) cluster (ud_base dB, net)
            in (dB\<lparr>ud_base := db\<rparr>, net')) \<and>
    handleEntry join now (mdns_info mA) (mB, net) =
      (if md_localAddr mA = md_localAddr mB then (mB, net)
       else let (db, net') = tryJoin join now (md_localAddr mA) (db_clusterName (md_base mA)) (md_base mB, net)
            in (mB\<lparr>md_base := db\<rparr>, net')) \<and>
    snd (tryJoin join now addr remote (db, net)) =
      (if remote = db_clusterName db \<and> fst (isNew now addr db) then snd (join [addr] net) else net)"
proof -
  have "mp_UnmarshalDiscovery M data = Inr \<lparr>dm_NodeID = cluster @ ''-'' @ ud_localAddr dA,
      dm_ClusterName = cluster, dm_GossipAddr = ud_localAddr dA, dm_Timestamp = unix\<rparr>"
    using assms(2) msgpack_okD(6) [OF assms(1)] by (auto simp: udp_announcement_def split: sum.splits)
  then show ?thesis
    using assms(3,4) by (auto simp: udp_receive_def handleEntry_def mdns_info_fields tryJoin_def split: prod.splits)
qed

theorem announcement_received_witness:
  defines "join \<equiv> (\<lambda>as n. ((1, None), n @ as))"
    and "d \<equiv> (newUDPDiscovery (cfg_Discovery DefaultConfig) ''c'')\<lparr>ud_localAddr := ''10.0.0.1:7946''\<rparr>"
    and "e \<equiv> (newUDPDiscovery (cfg_Discovery DefaultConfig) ''c'')\<lparr>ud_localAddr := ''10.0.0.2:7946''\<rparr>"
    and "m \<equiv> (newMDNSDiscovery (cfg_Discovery DefaultConfig) ''c'')\<lparr>md_localAddr := ''10.0.0.1:7946'', md_hasManager := True\<rparr>"
  shows "\<exists>data. udp_announcement wire_pack (i64_of 0) ''c'' d = Some data \<and>
    snd (udp_receive wire_pack join 0 data (e, [])) = [''10.0.0.1:7946'']"
proof -
  obtain data where a: "udp_announcement wire_pack (i64_of 0) ''c'' d = Some data"
    by (simp add: udp_announcement_def wire_pack_def)
  have m: "md_hasManager m" "md_localAddr m \<noteq> []" by (simp_all add: m_def)
  have "snd (tryJoin join 0 ''10.0.0.1:7946'' ''c'' (newDiscoveryBase ''c'', [])) = [''10.0.0.1:7946'']"
    by (simp add: tryJoin_def newDiscoveryBase_def isNew_def Let_def mget_filter_alist join_def)
  moreover have "udp_receive wire_pack join 0 data (e, []) =
      (let (db, net') = tryJoin join 0 ''10.0.0.1:7946'' ''c'' (newDiscoveryBase ''c'', [])
       in (e\<lparr>ud_base := db\<rparr>, net'))"
    using announcement_received [OF wire_pack_ok a m, of join 0 e "[]"]
    by (simp add: d_def e_def newUDPDiscovery_def)
  ultimately show ?thesis
    using a by (auto simp: Let_def split: prod.splits)
qed

text \<open>
  The UDP discovery starts only with an address that peers can route to: it never announces
  the zero address, the unspecified IPv6 address or an empty host.
\<close>

theorem udp_Start_routable:
  assumes "udp_Start host port listen d = (None, d')"
  shows "ud_listening d' \<and> ud_localAddr d' = JoinHostPort host (show_int port) \<and>
    host \<noteq> ''0.0.0.0'' \<and> host \<noteq> ''::'' \<and> host \<noteq> [] \<and> listen (dc_Port (ud_cfg d)) = None"
  using assms
  by (auto simp: udp_Start_def Let_def JoinHostPort_def has_prefix_def split: if_splits option.splits)

theorem udp_Start_routable_witness:
  "\<exists>d'. udp_Start ''10.0.0.1'' 7946 (\<lambda>_. None) (newUDPDiscovery (cfg_Discovery DefaultConfig) ''c'') = (None, d') \<and>
     ud_listening d'"
proof -
  obtain d' where s: "udp_Start ''10.0.0.1'' 7946 (\<lambda>_. None) (newUDPDiscovery (cfg_Discovery DefaultConfig) ''c'') = (None, d')"
    by (simp add: udp_Start_def Let_def JoinHostPort_def has_prefix_def)
  from udp_Start_routable [OF s] s show ?thesis by blast
qed

end
