(* ===== verification/ConfigProps.thy ===== *)
theory ConfigProps
  imports Config
begin

text \<open>
  Properties of the configuration: loading never panics and yields a valid configuration, the
  precedence of the sources, and the parsing of lists and addresses.
\<close>

section \<open>Loading\<close>

definition pointers_ok :: "Config \<Rightarrow> bool" where
  "pointers_ok cfg \<longleftrightarrow> ac_Enabled (cfg_API cfg) \<noteq> None \<and> ws_Enabled (ac_WS (cfg_API cfg)) \<noteq> None \<and>
     dc_Enabled (cfg_Discovery cfg) \<noteq> None"

lemma Validate_iff:
  "Validate c = None \<longleftrightarrow> 0 < cc_BindPort (cfg_Cluster c) \<and> 0 < ac_Port (cfg_API c) \<and>
     0 < dc_Port (cfg_Discovery c) \<and> cc_Name (cfg_Cluster c) \<noteq> [] \<and>
     dc_Type (cfg_Discovery c) \<in> {''udp'', ''mdns''}"
  by (auto simp: Validate_def)

definition good :: "Config \<Rightarrow> bool" where
  "good cfg \<longleftrightarrow> pointers_ok cfg \<and> Validate cfg = None"

lemmas good_defs = good_def pointers_ok_def Validate_iff

lemma good_default: "good DefaultConfig"
  by (simp add: good_defs DefaultConfig_def)

lemma valid_port_pos: "0 < d \<Longrightarrow> 0 < valid_port v d"
  by (auto simp: valid_port_def split: option.splits)

lemma good_settings:
  "good cfg \<Longrightarrow> good (set_cluster_name v cfg)"
  "good cfg \<Longrightarrow> good (set_seeds v cfg)"
  "good cfg \<Longrightarrow> good (set_bind v cfg)"
  "good cfg \<Longrightarrow> good (set_api_bind v cfg)"
  "good cfg \<Longrightarrow> good (set_api_port v cfg)"
  "good cfg \<Longrightarrow> good (set_api_token v cfg)"
  "good cfg \<Longrightarrow> good (set_discovery_enabled v cfg)"
  "good cfg \<Longrightarrow> good (set_discovery_type v cfg)"
  "good cfg \<Longrightarrow> good (set_discovery_port v cfg)"
  "good cfg \<Longrightarrow> good (set_discovery_interval frac v cfg)"
  "good cfg \<Longrightarrow> good (set_ws_origins v cfg)"
  by (auto simp: good_defs valid_port_pos set_cluster_name_def set_seeds_def set_bind_def set_api_bind_def
      set_api_port_def set_api_token_def set_discovery_enabled_def set_discovery_type_def
      set_discovery_port_def set_discovery_interval_def set_ws_origins_def split: option.splits)

lemma good_ws_enabled: "good cfg \<Longrightarrow> \<exists>cfg'. set_ws_enabled v cfg = Inr cfg' \<and> good cfg'"
  by (auto simp: good_defs set_ws_enabled_def write_ws_enabled_def split: option.splits)

lemma good_flags: "good cfg \<Longrightarrow> \<exists>cfg'. ParseFlags frac fl cfg = Inr cfg' \<and> good cfg'"
proof -
  let ?c = "\<lambda>cfg. set_discovery_interval frac (fl_discoveryInterval fl)
         (set_discovery_port (fl_discoveryPort fl)
         (set_discovery_type (fl_discoveryType fl)
         (set_discovery_enabled (fl_discoveryEnabled fl)
         (set_seeds (fl_seeds fl)
         (set_api_token (fl_apiToken fl)
         (set_api_bind (fl_apiBind fl)
         (set_bind (fl_bindAddr fl)
         (set_cluster_name (fl_clusterName fl) cfg))))))))"
  assume "good cfg"
  then have "good (?c cfg)" by (intro good_settings)
  from good_ws_enabled [OF this, of "fl_wsEnabled fl"] show ?thesis
    by (auto simp: ParseFlags_def good_settings)
qed

lemma good_env: "good cfg \<Longrightarrow> \<exists>cfg'. ApplyEnv frac env cfg = Inr cfg' \<and> good cfg'"
proof -
  let ?c = "\<lambda>cfg. set_discovery_interval frac (env ''GOGGRID_DISCOVERY_INTERVAL'')
         (set_discovery_port (env ''GOGGRID_DISCOVERY_PORT'')
         (set_discovery_type (env ''GOGGRID_DISCOVERY_TYPE'')
         (set_discovery_enabled (env ''GOGGRID_DISCOVERY_ENABLED'')
         (set_seeds (env ''GOGGRID_SEEDS'')
         (set_api_token (env ''GOGGRID_API_TOKEN'')
         (set_api_port (env ''GOGGRID_API_PORT'')
         (set_cluster_name (env ''GOGGRID_CLUSTER_NAME'') cfg)))))))"
  assume "good cfg"
  then have "good (?c cfg)" by (intro good_settings)
  from good_ws_enabled [OF this, of "env ''GOGGRID_WS_ENABLED''"] show ?thesis
    by (auto simp: ApplyEnv_def good_settings)
qed

lemma merge_bool_ok: "dst \<noteq> None \<Longrightarrow> \<exists>b. merge_bool src dst = Inr (Some b)"
  by (cases src; cases dst) (auto simp: merge_bool_def)

lemma good_merge: "good dst \<Longrightarrow> \<exists>cfg. mergeConfig dst src = Inr cfg \<and> good cfg"
proof -
  assume g: "good dst"
  then obtain b1 b2 b3 where
    "merge_bool (ac_Enabled (cfg_API src)) (ac_Enabled (cfg_API dst)) = Inr (Some b1)"
    "merge_bool (ws_Enabled (ac_WS (cfg_API src))) (ws_Enabled (ac_WS (cfg_API dst))) = Inr (Some b2)"
    "merge_bool (dc_Enabled (cfg_Discovery src)) (dc_Enabled (cfg_Discovery dst)) = Inr (Some b3)"
    using merge_bool_ok by (metis good_def pointers_ok_def)
  with g show ?thesis
    by (auto simp: mergeConfig_def merge_api_def merge_discovery_def merge_cluster_def good_defs)
qed

lemma good_file: "good cfg \<Longrightarrow> \<exists>err cfg'. LoadConfigFile fs yaml path cfg = Inr (err, cfg') \<and> good cfg'"
proof -
  assume g: "good cfg"
  show ?thesis
  proof (cases "Load fs yaml path")
    case (Inl e)
    with g show ?thesis by (simp add: LoadConfigFile_def)
  next
    case (Inr loaded)
    from good_merge [OF g, of loaded] obtain c where "mergeConfig cfg loaded = Inr c" "good c" by blast
    with g Inr show ?thesis by (simp add: LoadConfigFile_def)
  qed
qed

lemma startup_outcome:
  "(\<exists>e. startup_config stat fs yaml frac env path fl = Inr (Inl e) \<and> e \<noteq> ReadFailed NotExist) \<or>
   (\<exists>cfg. startup_config stat fs yaml frac env path fl = Inr (Inr cfg) \<and> good cfg)"
proof -
  define first where "first = (if path = [] then
      (if stat ''goggrid.yaml'' then LoadConfigFile fs yaml ''goggrid.yaml'' DefaultConfig
       else Inr (None, DefaultConfig)) else LoadConfigFile fs yaml path DefaultConfig)"
  have "\<exists>err cfg. first = Inr (err, cfg) \<and> good cfg"
    unfolding first_def using good_file [OF good_default] good_default by simp
  then obtain err cfg where f: "first = Inr (err, cfg)" "good cfg" by blast
  have err: "err \<noteq> Some (ReadFailed NotExist)"
    using f(1) by (auto simp: first_def LoadConfigFile_def split: if_splits sum.splits)
  from good_env [OF f(2)] obtain c1 where c1: "ApplyEnv frac env cfg = Inr c1" "good c1" by blast
  from good_flags [OF c1(2)] obtain c2 where c2: "ParseFlags frac fl c1 = Inr c2" "good c2" by blast
  show ?thesis
    using f c1 c2 err
    by (cases err) (simp_all add: startup_config_def first_def [symmetric])
qed

text \<open>
  C31: whatever the file, the environment and the flags say, loading the configuration never
  panics (no nil pointer is written through), and unless the program exits because of its file,
  the configuration passes \<^verbatim>\<open>Validate\<close> and none of its boolean pointers is nil.
\<close>

theorem startup_config_valid:
  "case startup_config stat fs yaml frac env path fl of
     Inl p \<Rightarrow> False
   | Inr (Inl e) \<Rightarrow> e \<noteq> ReadFailed NotExist
   | Inr (Inr cfg) \<Rightarrow> Validate cfg = None \<and> ac_Enabled (cfg_API cfg) \<noteq> None \<and>
       ws_Enabled (ac_WS (cfg_API cfg)) \<noteq> None \<and> dc_Enabled (cfg_Discovery cfg) \<noteq> None"
  using startup_outcome [of stat fs yaml frac env path fl] by (auto simp: good_def pointers_ok_def)

section \<open>Precedence\<close>

definition first_set :: "string list \<Rightarrow> string \<Rightarrow> string" where
  "first_set vs d = (case dropWhile (\<lambda>v. v = []) vs of [] \<Rightarrow> d | v # _ \<Rightarrow> v)"

lemma first_set_simps [simp]:
  "first_set [] d = d" "first_set (v # vs) d = (if v = [] then first_set vs d else v)"
  by (simp_all add: first_set_def)

lemma Atoi_Nil [simp]: "Atoi [] = None" by (simp add: Atoi_def)
lemma ParseBool_Nil [simp]: "ParseBool [] = None" by (simp add: ParseBool_def)
lemma SplitHostPort_Nil [simp]: "SplitHostPort [] = None" by (simp add: SplitHostPort_def)
lemma ParseDuration_Nil [simp]: "ParseDuration frac [] = None" by (simp add: ParseDuration_def)
lemma valid_port_Nil [simp]: "valid_port [] d = d" by (simp add: valid_port_def)

lemmas setting_defs =
  set_cluster_name_def set_seeds_def set_bind_def set_api_bind_def set_api_port_def set_api_token_def
  set_discovery_enabled_def set_discovery_type_def set_discovery_port_def set_discovery_interval_def
  set_ws_origins_def set_ws_enabled_def write_ws_enabled_def

definition or_else :: "'a option \<Rightarrow> 'a \<Rightarrow> 'a" where
  "or_else v d = (case v of None \<Rightarrow> d | Some x \<Rightarrow> x)"

lemma or_else_simps [simp]: "or_else None d = d" "or_else (Some x) d = x"
  by (simp_all add: or_else_def)

lemma set_cluster_name_fields [simp]:
  "cc_Name (cfg_Cluster (set_cluster_name v cfg)) = first_set [v] (cc_Name (cfg_Cluster cfg))"
  "ac_Token (cfg_API (set_cluster_name v cfg)) = ac_Token (cfg_API cfg)"
  "cc_Seeds (cfg_Cluster (set_cluster_name v cfg)) = cc_Seeds (cfg_Cluster cfg)"
  "dc_Type (cfg_Discovery (set_cluster_name v cfg)) = dc_Type (cfg_Discovery cfg)"
  "dc_Enabled (cfg_Discovery (set_cluster_name v cfg)) = dc_Enabled (cfg_Discovery cfg)"
  "dc_Interval (cfg_Discovery (set_cluster_name v cfg)) = dc_Interval (cfg_Discovery cfg)"
  "ac_Port (cfg_API (set_cluster_name v cfg)) = ac_Port (cfg_API cfg)"
  by (cases "v = []"; auto simp: set_cluster_name_def split: option.splits)+

lemma set_seeds_fields [simp]:
  "cc_Name (cfg_Cluster (set_seeds v cfg)) = cc_Name (cfg_Cluster cfg)"
  "ac_Token (cfg_API (set_seeds v cfg)) = ac_Token (cfg_API cfg)"
  "cc_Seeds (cfg_Cluster (set_seeds v cfg)) = (if v = [] then cc_Seeds (cfg_Cluster cfg) else splitSeeds v)"
  "dc_Type (cfg_Discovery (set_seeds v cfg)) = dc_Type (cfg_Discovery cfg)"
  "dc_Enabled (cfg_Discovery (set_seeds v cfg)) = dc_Enabled (cfg_Discovery cfg)"
  "dc_Interval (cfg_Discovery (set_seeds v cfg)) = dc_Interval (cfg_Discovery cfg)"
  "ac_Port (cfg_API (set_seeds v cfg)) = ac_Port (cfg_API cfg)"
  by (cases "v = []"; auto simp: set_seeds_def split: option.splits)+

lemma set_bind_fields [simp]:
  "cc_Name (cfg_Cluster (set_bind v cfg)) = cc_Name (cfg_Cluster cfg)"
  "ac_Token (cfg_API (set_bind v cfg)) = ac_Token (cfg_API cfg)"
  "cc_Seeds (cfg_Cluster (set_bind v cfg)) = cc_Seeds (cfg_Cluster cfg)"
  "dc_Type (cfg_Discovery (set_bind v cfg)) = dc_Type (cfg_Discovery cfg)"
  "dc_Enabled (cfg_Discovery (set_bind v cfg)) = dc_Enabled (cfg_Discovery cfg)"
  "dc_Interval (cfg_Discovery (set_bind v cfg)) = dc_Interval (cfg_Discovery cfg)"
  "ac_Port (cfg_API (set_bind v cfg)) = ac_Port (cfg_API cfg)"
  by (cases "v = []"; auto simp: set_bind_def split: option.splits)+

lemma set_api_bind_fields [simp]:
  "cc_Name (cfg_Cluster (set_api_bind v cfg)) = cc_Name (cfg_Cluster cfg)"
  "ac_Token (cfg_API (set_api_bind v cfg)) = ac_Token (cfg_API cfg)"
  "cc_Seeds (cfg_Cluster (set_api_bind v cfg)) = cc_Seeds (cfg_Cluster cfg)"
  "dc_Type (cfg_Discovery (set_api_bind v cfg)) = dc_Type (cfg_Discovery cfg)"
  "dc_Enabled (cfg_Discovery (set_api_bind v cfg)) = dc_Enabled (cfg_Discovery cfg)"
  "dc_Interval (cfg_Discovery (set_api_bind v cfg)) = dc_Interval (cfg_Discovery cfg)"
  "ac_Port (cfg_API (set_api_bind v cfg)) = (case SplitHostPort v of None \<Rightarrow> ac_Port (cfg_API cfg)
     | Some (h, p) \<Rightarrow> valid_port p (ac_Port (cfg_API cfg)))"
  by (cases "v = []"; auto simp: set_api_bind_def split: option.splits)+

lemma set_api_port_fields [simp]:
  "cc_Name (cfg_Cluster (set_api_port v cfg)) = cc_Name (cfg_Cluster cfg)"
  "ac_Token (cfg_API (set_api_port v cfg)) = ac_Token (cfg_API cfg)"
  "cc_Seeds (cfg_Cluster (set_api_port v cfg)) = cc_Seeds (cfg_Cluster cfg)"
  "dc_Type (cfg_Discovery (set_api_port v cfg)) = dc_Type (cfg_Discovery cfg)"
  "dc_Enabled (cfg_Discovery (set_api_port v cfg)) = dc_Enabled (cfg_Discovery cfg)"
  "dc_Interval (cfg_Discovery (set_api_port v cfg)) = dc_Interval (cfg_Discovery cfg)"
  "ac_Port (cfg_API (set_api_port v cfg)) = valid_port v (ac_Port (cfg_API cfg))"
  by (cases "v = []"; auto simp: set_api_port_def split: option.splits)+

lemma set_api_token_fields [simp]:
  "cc_Name (cfg_Cluster (set_api_token v cfg)) = cc_Name (cfg_Cluster cfg)"
  "ac_Token (cfg_API (set_api_token v cfg)) = first_set [v] (ac_Token (cfg_API cfg))"
  "cc_Seeds (cfg_Cluster (set_api_token v cfg)) = cc_Seeds (cfg_Cluster cfg)"
  "dc_Type (cfg_Discovery (set_api_token v cfg)) = dc_Type (cfg_Discovery cfg)"
  "dc_Enabled (cfg_Discovery (set_api_token v cfg)) = dc_Enabled (cfg_Discovery cfg)"
  "dc_Interval (cfg_Discovery (set_api_token v cfg)) = dc_Interval (cfg_Discovery cfg)"
  "ac_Port (cfg_API (set_api_token v cfg)) = ac_Port (cfg_API cfg)"
  by (cases "v = []"; auto simp: set_api_token_def split: option.splits)+

lemma set_discovery_enabled_fields [simp]:
  "cc_Name (cfg_Cluster (set_discovery_enabled v cfg)) = cc_Name (cfg_Cluster cfg)"
  "ac_Token (cfg_API (set_discovery_enabled v cfg)) = ac_Token (cfg_API cfg)"
  "cc_Seeds (cfg_Cluster (set_discovery_enabled v cfg)) = cc_Seeds (cfg_Cluster cfg)"
  "dc_Type (cfg_Discovery (set_discovery_enabled v cfg)) = dc_Type (cfg_Discovery cfg)"
  "dc_Enabled (cfg_Discovery (set_discovery_enabled v cfg)) = (case ParseBool v of None \<Rightarrow> dc_Enabled (cfg_Discovery cfg) | Some b \<Rightarrow> Some b)"
  "dc_Interval (cfg_Discovery (set_discovery_enabled v cfg)) = dc_Interval (cfg_Discovery cfg)"
  "ac_Port (cfg_API (set_discovery_enabled v cfg)) = ac_Port (cfg_API cfg)"
  by (cases "v = []"; auto simp: set_discovery_enabled_def split: option.splits)+

lemma set_discovery_type_fields [simp]:
  "cc_Name (cfg_Cluster (set_discovery_type v cfg)) = cc_Name (cfg_Cluster cfg)"
  "ac_Token (cfg_API (set_discovery_type v cfg)) = ac_Token (cfg_API cfg)"
  "cc_Seeds (cfg_Cluster (set_discovery_type v cfg)) = cc_Seeds (cfg_Cluster cfg)"
  "dc_Type (cfg_Discovery (set_discovery_type v cfg)) = (if v = ''udp'' \<or> v = ''mdns'' then v else dc_Type (cfg_Discovery cfg))"
  "dc_Enabled (cfg_Discovery (set_discovery_type v cfg)) = dc_Enabled (cfg_Discovery cfg)"
  "dc_Interval (cfg_Discovery (set_discovery_type v cfg)) = dc_Interval (cfg_Discovery cfg)"
  "ac_Port (cfg_API (set_discovery_type v cfg)) = ac_Port (cfg_API cfg)"
  by (cases "v = []"; auto simp: set_discovery_type_def split: option.splits)+

lemma set_discovery_port_fields [simp]:
  "cc_Name (cfg_Cluster (set_discovery_port v cfg)) = cc_Name (cfg_Cluster cfg)"
  "ac_Token (cfg_API (set_discovery_port v cfg)) = ac_Token (cfg_API cfg)"
  "cc_Seeds (cfg_Cluster (set_discovery_port v cfg)) = cc_Seeds (cfg_Cluster cfg)"
  "dc_Type (cfg_Discovery (set_discovery_port v cfg)) = dc_Type (cfg_Discovery cfg)"
  "dc_Enabled (cfg_Discovery (set_discovery_port v cfg)) = dc_Enabled (cfg_Discovery cfg)"
  "dc_Interval (cfg_Discovery (set_discovery_port v cfg)) = dc_Interval (cfg_Discovery cfg)"
  "ac_Port (cfg_API (set_discovery_port v cfg)) = ac_Port (cfg_API cfg)"
  by (cases "v = []"; auto simp: set_discovery_port_def split: option.splits)+

lemma set_discovery_interval_fields [simp]:
  "cc_Name (cfg_Cluster (set_discovery_interval frac v cfg)) = cc_Name (cfg_Cluster cfg)"
  "ac_Token (cfg_API (set_discovery_interval frac v cfg)) = ac_Token (cfg_API cfg)"
  "cc_Seeds (cfg_Cluster (set_discovery_interval frac v cfg)) = cc_Seeds (cfg_Cluster cfg)"
  "dc_Type (cfg_Discovery (set_discovery_interval frac v cfg)) = dc_Type (cfg_Discovery cfg)"
  "dc_Enabled (cfg_Discovery (set_discovery_interval frac v cfg)) = dc_Enabled (cfg_Discovery cfg)"
  "dc_Interval (cfg_Discovery (set_discovery_interval frac v cfg)) = or_else (ParseDuration frac v) (dc_Interval (cfg_Discovery cfg))"
  "ac_Port (cfg_API (set_discovery_interval frac v cfg)) = ac_Port (cfg_API cfg)"
  by (cases "v = []"; auto simp: set_discovery_interval_def split: option.splits)+

lemma set_ws_origins_fields [simp]:
  "cc_Name (cfg_Cluster (set_ws_origins v cfg)) = cc_Name (cfg_Cluster cfg)"
  "ac_Token (cfg_API (set_ws_origins v cfg)) = ac_Token (cfg_API cfg)"
  "cc_Seeds (cfg_Cluster (set_ws_origins v cfg)) = cc_Seeds (cfg_Cluster cfg)"
  "dc_Type (cfg_Discovery (set_ws_origins v cfg)) = dc_Type (cfg_Discovery cfg)"
  "dc_Enabled (cfg_Discovery (set_ws_origins v cfg)) = dc_Enabled (cfg_Discovery cfg)"
  "dc_Interval (cfg_Discovery (set_ws_origins v cfg)) = dc_Interval (cfg_Discovery cfg)"
  "ac_Port (cfg_API (set_ws_origins v cfg)) = ac_Port (cfg_API cfg)"
  by (cases "v = []"; auto simp: set_ws_origins_def split: option.splits)+

lemma set_ws_enabled_fields:
  "set_ws_enabled v cfg = Inr cfg' \<Longrightarrow>
     cc_Name (cfg_Cluster cfg') = cc_Name (cfg_Cluster cfg) \<and>
     ac_Token (cfg_API cfg') = ac_Token (cfg_API cfg) \<and>
     cc_Seeds (cfg_Cluster cfg') = cc_Seeds (cfg_Cluster cfg) \<and>
     dc_Type (cfg_Discovery cfg') = dc_Type (cfg_Discovery cfg) \<and>
     dc_Enabled (cfg_Discovery cfg') = dc_Enabled (cfg_Discovery cfg) \<and>
     dc_Interval (cfg_Discovery cfg') = dc_Interval (cfg_Discovery cfg) \<and>
     ac_Port (cfg_API cfg') = ac_Port (cfg_API cfg)"
  by (auto simp: set_ws_enabled_def write_ws_enabled_def split: if_splits option.splits)

lemma flags_fields:
  assumes "ParseFlags frac fl cfg = Inr cfg'"
  shows "cc_Name (cfg_Cluster cfg') = first_set [fl_clusterName fl] (cc_Name (cfg_Cluster cfg))"
    and "ac_Token (cfg_API cfg') = first_set [fl_apiToken fl] (ac_Token (cfg_API cfg))"
    and "cc_Seeds (cfg_Cluster cfg') =
      (if fl_seeds fl = [] then cc_Seeds (cfg_Cluster cfg) else splitSeeds (fl_seeds fl))"
    and "dc_Type (cfg_Discovery cfg') =
      (if fl_discoveryType fl = ''udp'' \<or> fl_discoveryType fl = ''mdns'' then fl_discoveryType fl else dc_Type (cfg_Discovery cfg))"
    and "dc_Enabled (cfg_Discovery cfg') =
      (case ParseBool (fl_discoveryEnabled fl) of None \<Rightarrow> dc_Enabled (cfg_Discovery cfg) | Some b \<Rightarrow> Some b)"
    and "dc_Interval (cfg_Discovery cfg') =
      or_else (ParseDuration frac (fl_discoveryInterval fl)) (dc_Interval (cfg_Discovery cfg))"
    and "ac_Port (cfg_API cfg') =
      (case SplitHostPort (fl_apiBind fl) of None \<Rightarrow> ac_Port (cfg_API cfg)
       | Some (h, p) \<Rightarrow> valid_port p (ac_Port (cfg_API cfg)))"
  using assms by (auto simp: ParseFlags_def dest!: set_ws_enabled_fields split: option.splits)

lemma env_fields:
  assumes "ApplyEnv frac env cfg = Inr cfg'"
  shows "cc_Name (cfg_Cluster cfg') = first_set [env ''GOGGRID_CLUSTER_NAME''] (cc_Name (cfg_Cluster cfg))"
    and "ac_Token (cfg_API cfg') = first_set [env ''GOGGRID_API_TOKEN''] (ac_Token (cfg_API cfg))"
    and "cc_Seeds (cfg_Cluster cfg') =
      (if env ''GOGGRID_SEEDS'' = [] then cc_Seeds (cfg_Cluster cfg) else splitSeeds (env ''GOGGRID_SEEDS''))"
    and "dc_Type (cfg_Discovery cfg') =
      (if env ''GOGGRID_DISCOVERY_TYPE'' = ''udp'' \<or> env ''GOGGRID_DISCOVERY_TYPE'' = ''mdns'' then env ''GOGGRID_DISCOVERY_TYPE''
       else dc_Type (cfg_Discovery cfg))"
    and "dc_Enabled (cfg_Discovery cfg') =
      (case ParseBool (env ''GOGGRID_DISCOVERY_ENABLED'') of
         None \<Rightarrow> dc_Enabled (cfg_Discovery cfg) | Some b \<Rightarrow> Some b)"
    and "dc_Interval (cfg_Discovery cfg') =
      or_else (ParseDuration frac (env ''GOGGRID_DISCOVERY_INTERVAL'')) (dc_Interval (cfg_Discovery cfg))"
    and "ac_Port (cfg_API cfg') = valid_port (env ''GOGGRID_API_PORT'') (ac_Port (cfg_API cfg))"
  using assms by (auto simp: ApplyEnv_def dest!: set_ws_enabled_fields split: option.splits)

lemma merge_bool_Some: "merge_bool src (Some b) = Inr (Some (or_else src b))"
  by (cases src) (simp_all add: merge_bool_def)

lemma merge_fields:
  assumes "mergeConfig DefaultConfig file = Inr cfg"
  shows "cc_Name (cfg_Cluster cfg) = first_set [cc_Name (cfg_Cluster file)] ''MyCluster''"
    and "ac_Token (cfg_API cfg) = ac_Token (cfg_API file)"
    and "cc_Seeds (cfg_Cluster cfg) = cc_Seeds (cfg_Cluster file)"
    and "dc_Type (cfg_Discovery cfg) =
      (if dc_Type (cfg_Discovery file) = ''udp'' \<or> dc_Type (cfg_Discovery file) = ''mdns'' then dc_Type (cfg_Discovery file) else ''udp'')"
    and "dc_Enabled (cfg_Discovery cfg) = Some (or_else (dc_Enabled (cfg_Discovery file)) True)"
    and "dc_Interval (cfg_Discovery cfg) =
      (if dc_Interval (cfg_Discovery file) = 0 then 3 * second else dc_Interval (cfg_Discovery file))"
    and "ac_Port (cfg_API cfg) = (if 0 < ac_Port (cfg_API file) then ac_Port (cfg_API file) else 8080)"
  using assms
  by (auto simp: mergeConfig_def merge_api_def merge_discovery_def merge_cluster_def merge_bool_Some
      DefaultConfig_def)


definition no_flags :: flags where
  "no_flags = \<lparr>fl_clusterName = [], fl_bindAddr = [], fl_apiBind = [], fl_apiToken = [], fl_seeds = [],
     fl_discoveryEnabled = [], fl_discoveryType = [], fl_discoveryPort = [], fl_discoveryInterval = [],
     fl_wsEnabled = [], fl_wsAllowedOrigins = []\<rparr>"


section \<open>Lists, addresses and durations\<close>

fun comma_join :: "string list \<Rightarrow> string" where
  "comma_join [] = []"
| "comma_join [p] = p"
| "comma_join (p # q # ps) = p @ CHR '','' # comma_join (q # ps)"

definition clean :: "string \<Rightarrow> bool" where
  "clean p \<longleftrightarrow> p \<noteq> [] \<and> CHR '','' \<notin> set p \<and> \<not> is_space (hd p) \<and> \<not> is_space (last p)"

lemma split_join: "list_all clean ps \<Longrightarrow> ps \<noteq> [] \<Longrightarrow> split_on (CHR '','') (comma_join ps) = ps"
  by (induction ps rule: comma_join.induct) (simp_all add: clean_def split_on_none split_on_append)

lemma clean_trim: "clean p \<Longrightarrow> TrimSpace p = p"
  by (simp add: clean_def TrimSpace_fix)

text \<open>
  \<^verbatim>\<open>splitSeeds\<close> yields only entries that are not empty, have no comma and neither begin nor
  end with a space, and it gives back any list of such entries from the text that joins them with
  commas.
\<close>

theorem splitSeeds_roundtrip:
  assumes "list_all clean ps"
  shows "list_all clean (splitSeeds s) \<and> splitSeeds (comma_join ps) = ps"
proof
  show "list_all clean (splitSeeds s)"
    using split_on_no_sep [of _ "CHR '',''" s] TrimSpace_subset TrimSpace_ends
    by (fastforce simp: splitSeeds_def list_all_iff clean_def)
  show "splitSeeds (comma_join ps) = ps"
  proof (cases "ps = []")
    case True
    then show ?thesis by (simp add: splitSeeds_def TrimSpace_def)
  next
    case False
    from assms have "List.map TrimSpace ps = ps" "filter (\<lambda>p. p \<noteq> []) ps = ps"
      by (auto simp: list_all_iff clean_trim clean_def intro: map_idI)
    with split_join [OF assms False] show ?thesis by (simp add: splitSeeds_def)
  qed
qed

theorem splitSeeds_roundtrip_witness:
  "splitSeeds ''10.0.0.1:7946,10.0.0.2:7946'' = [''10.0.0.1:7946'', ''10.0.0.2:7946''] \<and>
   list_all clean (splitSeeds '' a , ,b'')"
proof -
  have "list_all clean [''10.0.0.1:7946'', ''10.0.0.2:7946'']"
    by (simp add: clean_def is_space_def)
  from splitSeeds_roundtrip [OF this, of "'' a , ,b''"] show ?thesis by simp
qed

definition plain_host :: "string \<Rightarrow> bool" where
  "plain_host h \<longleftrightarrow> CHR '':'' \<notin> set h \<and> CHR ''['' \<notin> set h \<and> CHR '']'' \<notin> set h"

lemma show_nat_plain: "plain_host (show_nat p)"
proof -
  have "CHR '':'' \<notin> set (show_nat p)" "CHR ''['' \<notin> set (show_nat p)" "CHR '']'' \<notin> set (show_nat p)"
    using show_nat_digits [of p] by (auto simp: list_all_iff is_digit_def)
  then show ?thesis by (simp add: plain_host_def)
qed

lemma SplitHostPort_plain: "plain_host h \<Longrightarrow> plain_host p \<Longrightarrow> SplitHostPort (h @ CHR '':'' # p) = Some (h, p)"
  using split_last_append [of "CHR '':''" p h]
  by (cases h) (auto simp: SplitHostPort_def plain_host_def)

lemma SplitHostPort_brackets:
  assumes "CHR ''['' \<notin> set h" and "CHR '']'' \<notin> set h" and "plain_host p"
  shows "SplitHostPort (CHR ''['' # h @ CHR '']'' # CHR '':'' # p) = Some (h, p)"
proof -
  have "split_last (CHR '':'') ((CHR ''['' # h @ [CHR '']'']) @ CHR '':'' # p) = Some (CHR ''['' # h @ [CHR '']''], p)"
    using assms(3) by (intro split_last_append) (simp add: plain_host_def)
  moreover have "takeWhile (\<lambda>c. c \<noteq> CHR '']'') (h @ CHR '']'' # CHR '':'' # p) = h"
    using assms(2) by (subst takeWhile_append2) auto
  ultimately show ?thesis
    using assms by (simp add: SplitHostPort_def plain_host_def)
qed

text \<open>
  A bind flag of the form host:port, with a positive port, sets exactly that host and that
  port; a host that contains colons (an IPv6 address) works in square brackets.
\<close>

theorem bind_flag_roundtrip:
  assumes "plain_host host" and "CHR ''['' \<notin> set host6" and "CHR '']'' \<notin> set host6"
    and "0 < p" and "int p < 2 ^ 63"
  shows "set_bind (host @ CHR '':'' # show_nat p) cfg =
      cfg\<lparr>cfg_Cluster := (cfg_Cluster cfg)\<lparr>cc_BindAddr := host, cc_BindPort := int p\<rparr>\<rparr> \<and>
    set_bind (CHR ''['' # host6 @ CHR '']'' # CHR '':'' # show_nat p) cfg =
      cfg\<lparr>cfg_Cluster := (cfg_Cluster cfg)\<lparr>cc_BindAddr := host6, cc_BindPort := int p\<rparr>\<rparr>"
  using SplitHostPort_plain [OF assms(1) show_nat_plain, of p]
    SplitHostPort_brackets [OF assms(2,3) show_nat_plain, of p] Atoi_show [OF assms(5)] assms(4)
  by (simp add: set_bind_def valid_port_def)

theorem bind_flag_roundtrip_witness:
  "cc_BindPort (cfg_Cluster (set_bind (''127.0.0.1'' @ CHR '':'' # show_nat 7000) DefaultConfig)) = 7000"
  using bind_flag_roundtrip [of "''127.0.0.1''" "''::1''" 7000 DefaultConfig]
  by (simp add: plain_host_def)

text \<open>
  The intervals are not validated: an environment that sets the discovery interval to a
  negative duration is accepted and the configuration passes \<^verbatim>\<open>Validate\<close>, although a ticker
  with that interval panics.
\<close>

theorem intervals_unchecked:
  "case startup_config (\<lambda>_. False) fs yaml frac
      (\<lambda>k. if k = ''GOGGRID_DISCOVERY_INTERVAL'' then ''-1s'' else []) [] no_flags of
     Inr (Inr cfg) \<Rightarrow> Validate cfg = None \<and> dc_Interval (cfg_Discovery cfg) = - second
   | _ \<Rightarrow> False"
proof -
  have t: "parse_term frac ''1s'' = Some (1000000000, [])"
    by (simp add: parse_term_def Let_def is_digit_def digit_or_dot_def unit_ns_def)
  have "ParseDuration frac ''-1s'' = Some (- second)"
    by (simp add: ParseDuration_def parse_terms.simps [of frac "''1s''"] parse_terms.simps [of frac "[]"] t second_def)
  then show ?thesis
    by (simp add: startup_config_def ApplyEnv_def ParseFlags_def no_flags_def setting_defs Validate_def
        DefaultConfig_def)
qed

end
