(* ===== verification/NodeProps.thy ===== *)
theory NodeProps
  imports Replication DiscoveryProps ConfigProps
begin

text \<open>
  Properties of a whole node: the states it publishes form a causal history, whatever it
  receives in between, so the replicas that receive them agree.
\<close>

section \<open>The states a node publishes\<close>

text \<open>
  A run of the node: the states it has published, the state of a collection that has begun but is
  not published yet, and the gossip manager. Any data arrive as messages or as remote states,
  members leave, and the other goroutines work at any time, also between the two halves of a
  collection.
\<close>

inductive node_run ::
    "'db gorm \<Rightarrow> 'b msgpack \<Rightarrow> ('m, 'b) net \<Rightarrow> string \<Rightarrow> ('m, 'db) gossip \<Rightarrow> NodeState list
       \<Rightarrow> NodeState option \<Rightarrow> ('m, 'db) gossip \<Rightarrow> bool"
  for D :: "'db gorm" and M :: "'b msgpack" and N :: "('m, 'b) net" and n :: string and g0 :: "('m, 'db) gossip"
  where
  begins: "node_run D M N n g0 [] None g0"
| prepares: "node_run D M N n g0 pubs None g \<Longrightarrow> collect_prepare D clk n probe g = Inr pend \<Longrightarrow>
     node_run D M N n g0 pubs pend g"
| publishes: "node_run D M N n g0 pubs (Some ns) g \<Longrightarrow> collect_publish D M N clk n ns g = Inr g' \<Longrightarrow>
     node_run D M N n g0 (pubs @ [ns]) None g'"
| receives: "node_run D M N n g0 pubs pend g \<Longrightarrow> NotifyMsg D M N clk data g = Inr g' \<Longrightarrow>
     node_run D M N n g0 pubs pend g'"
| exchanges: "node_run D M N n g0 pubs pend g \<Longrightarrow> MergeRemoteState D M clk data join g = Inr g' \<Longrightarrow>
     node_run D M N n g0 pubs pend g'"
| departs: "node_run D M N n g0 pubs pend g \<Longrightarrow>
     node_run D M N n g0 pubs pend (NotifyLeave D now node g)"
| ticks: "node_run D M N n g0 pubs pend g \<Longrightarrow>
     node_run D M N n g0 pubs pend (antiEntropy_tick M N now idx g)"
| drains: "node_run D M N n g0 pubs pend g \<Longrightarrow> GetBroadcasts N overhead limit g = (bs, g') \<Longrightarrow>
     node_run D M N n g0 pubs pend g'"
| works: "node_run D M N n g0 pubs pend g \<Longrightarrow> background D M N g g' \<Longrightarrow> node_run D M N n g0 pubs pend g'"

text \<open>The clock of the node's own entry, which no received message lowers.\<close>

definition own_stamp :: "string \<Rightarrow> ('m, 'db) gossip \<Rightarrow> string \<Rightarrow> i64 option" where
  "own_stamp n g = (case GetNode n (gp_sm g) of None \<Rightarrow> Map.empty | Some ns \<Rightarrow> gget (ns_Clock ns))"

lemma own_stamp_entries: "own_stamp n g = (case known g n of None \<Rightarrow> Map.empty | Some ns \<Rightarrow> ns_stamp ns)"
  by (auto simp: own_stamp_def known_def ns_stamp_def fun_eq_iff split: option.split)

lemma own_stamp_cong: "known g' = known g \<Longrightarrow> own_stamp n g' = own_stamp n g"
  by (simp add: own_stamp_entries)

lemma own_stamp_merge_all:
  assumes "merge_all D clk nodes g = Inr g'"
  shows "own_stamp n g \<le> own_stamp n g'"
proof (cases "GetNode n (gp_sm g)")
  case None
  then show ?thesis by (simp add: own_stamp_def le_fun_def)
next
  case (Some l)
  obtain xs where "merge_nodes D xs (gp_sm g, gp_store g) = Inr (gp_sm g', gp_store g')"
    using merge_all_nodes [OF assms] by metis
  from merge_nodes_mono [OF this Some] show ?thesis
    by (auto simp: own_stamp_def Some ns_stamp_def)
qed

lemma own_stamp_message:
  assumes "handleMessage D M N clk data g = Inr g'"
  shows "own_stamp n g \<le> own_stamp n g' \<and> same_store g g'"
proof -
  obtain g1 where g1: "merge_all D clk (carried M data) g = Inr g1" "known g' = known g1" "same_store g1 g'"
    using handleMessage_merges [OF assms] by (elim exE conjE) (rule that)
  have "own_stamp n g' = own_stamp n g1" using g1(2) by (rule own_stamp_cong)
  with own_stamp_merge_all [OF g1(1), of n] have "own_stamp n g \<le> own_stamp n g'" by (simp only:)
  moreover have "same_store g g'" using merge_all_frame [OF g1(1)] g1(3) by simp
  ultimately show ?thesis ..
qed

lemma own_stamp_exchange:
  assumes "MergeRemoteState D M clk data join g = Inr g'"
  shows "own_stamp n g \<le> own_stamp n g' \<and> same_store g g'"
  using MergeRemoteState_merges [OF assms]
proof
  assume m: "merge_all D clk (carried M data) g = Inr g'"
  from own_stamp_merge_all [OF m] merge_all_frame [OF m] show ?thesis by blast
qed simp

lemma own_stamp_leave: "own_stamp n (NotifyLeave D now node g) = own_stamp n g"
  by (cases "known g n") (auto simp: own_stamp_entries known_leave ns_stamp_def)

lemma entropy_frame: "\<exists>l. antiEntropy_tick M N now idx g = g\<lparr>gp_list := l\<rparr>"
  by (rule exI [of _ "gp_list (antiEntropy_tick M N now idx g)"])
     (auto simp: antiEntropy_tick_def Let_def split: option.splits prod.splits)

lemma entropy_entries: "known (antiEntropy_tick M N now idx g) = known g \<and> same_store g (antiEntropy_tick M N now idx g)"
  using entropy_frame [of M N now idx g] by (elim exE) simp

lemma drain_entries: "GetBroadcasts N overhead limit g = (bs, g') \<Longrightarrow> known g' = known g \<and> same_store g g'"
  by (auto simp: GetBroadcasts_def split: prod.splits)

section \<open>They form a causal history\<close>

lemma recovered_ge:
  assumes "recovered_clock D n (Some mempty) g = Inr (Some c1)"
  shows "own_stamp n g \<le> mget c1"
proof (cases "GetNode n (gp_sm g)")
  case None
  then show ?thesis by (simp add: own_stamp_def le_fun_def)
next
  case (Some ex)
  with assms have "Merge (Some mempty) (ns_Clock ex) = Inr (Some c1)"
    by (simp add: recovered_clock_def)
  from Merge_ge [OF this] Some show ?thesis by (simp add: own_stamp_def gget_Some)
qed

definition counter_positive :: "string \<Rightarrow> NodeState \<Rightarrow> bool" where
  "counter_positive n ns \<longleftrightarrow> (case gget (ns_Clock ns) n of None \<Rightarrow> False | Some v \<Rightarrow> 0 < i64_int v)"

lemma i64_inc_max: "\<not> i64_int v < 2 ^ 63 - 1 \<Longrightarrow> \<not> 0 < i64_int (i64_inc v)"
proof -
  assume "\<not> i64_int v < 2 ^ 63 - 1"
  then have "i64_int v = 2 ^ 63 - 1" using i64_int_bounds [of v] by linarith
  then have "i64_inc v = i64_of (2 ^ 63)" by (simp add: i64_inc_of_int)
  also have "\<dots> = i64_of (- (2 ^ 63))" by (simp add: i64_of_def)
  finally show ?thesis by (simp add: i64_int_of)
qed

lemma prepare_step:
  assumes st: "gp_store g \<noteq> None" and run: "collect_prepare D clk n probe g = Inr (Some ns)"
  shows "ns_NodeID ns = n \<and> (counter_positive n ns \<longrightarrow> own_stamp n g < gget (ns_Clock ns))"
proof -
  obtain hm where hm: "GetHostMonitor probe = Inr hm"
    using run by (auto simp: collect_prepare_def split: sum.splits)
  obtain c1 m where c: "recovered_clock D n (Some mempty) g = Inr (Some c1)" "Increment (Some c1) n = Inr (Some m)"
    and ns: "ns = (ToNodeState (clk 0) n hm)\<lparr>ns_Clock := Some m, ns_LastUpdated := clk 1, ns_LastSeen := clk 2\<rparr>"
    using prepare_ok [OF hm st, where D = D and n = n and clk = clk and thesis = thesis] run by (metis option.inject sum.inject(2))
  have clk: "gget (ns_Clock ns) = mget m" by (simp add: ns gget_Some)
  have inc: "mget m n = Some (i64_inc (case mget c1 n of None \<Rightarrow> i64_of 0 | Some v \<Rightarrow> v))"
    using gget_Increment [OF c(2)] by (simp add: gget_Some fun_eq_iff)
  have "own_stamp n g < gget (ns_Clock ns)" if pos: "counter_positive n ns"
  proof -
    have "i64_int v < 2 ^ 63 - 1" if v: "mget c1 n = Some v" for v
    proof (rule ccontr)
      assume "\<not> ?thesis"
      from i64_inc_max [OF this] pos inc show False by (simp add: counter_positive_def clk v)
    qed
    then have "\<forall>v. mget c1 n = Some v \<longrightarrow> i64_int v < 2 ^ 63 - 1" by blast
    with Increment_less [OF c(2)] have "mget c1 < mget m" by (simp add: gget_Some)
    with recovered_ge [OF c(1)] show ?thesis unfolding clk by (rule order_le_less_trans)
  qed
  then show ?thesis by (simp add: ns ToNodeState_def)
qed

text \<open>
  The publication overwrites the node's own entry, whatever it is by then: a clock that the entry
  has got from the cluster since the preparation is lost.
\<close>

lemma publish_overwrites:
  assumes "gp_store g \<noteq> None" and "collect_publish D M N clk n ns g = Inr g'" and "ns_NodeID ns = n"
  shows "GetNode n (gp_sm g') = Some ns \<and> own_stamp n g' = gget (ns_Clock ns) \<and> gp_store g' \<noteq> None"
  using publish_ok [OF assms(1), of D M N clk n ns] assms(2,3)
  by (auto simp: own_stamp_def UpdateLocalNode_def GetNode_put_node)

definition run_inv :: "string \<Rightarrow> NodeState list \<Rightarrow> NodeState option \<Rightarrow> ('m, 'db) gossip \<Rightarrow> bool" where
  "run_inv n pubs pend g \<longleftrightarrow>
     sorted_wrt (\<lambda>x y. gget (ns_Clock x) < gget (ns_Clock y)) pubs \<and>
     (\<forall>x \<in> set pubs. gget (ns_Clock x) \<le> own_stamp n g \<and> ns_NodeID x = n) \<and> gp_store g \<noteq> None \<and>
     (case pend of
        None \<Rightarrow> True
      | Some ns \<Rightarrow> ns_NodeID ns = n \<and>
          (counter_positive n ns \<longrightarrow> (\<forall>x \<in> set pubs. gget (ns_Clock x) < gget (ns_Clock ns))))"

lemma run_inv_mono:
  assumes "run_inv n pubs pend g" and "own_stamp n g \<le> own_stamp n g'" and "same_store g g'"
  shows "run_inv n pubs pend g'"
proof -
  have "gget (ns_Clock x) \<le> own_stamp n g'" if "x \<in> set pubs" for x
    using assms(1) that order_trans [OF _ assms(2)] by (simp add: run_inv_def)
  with assms(1,3) show ?thesis by (simp add: run_inv_def)
qed

lemma run_inv_cong: "run_inv n pubs pend g \<Longrightarrow> known g' = known g \<and> same_store g g' \<Longrightarrow> run_inv n pubs pend g'"
  by (elim conjE, rule run_inv_mono) (assumption, drule own_stamp_cong [of _ _ n], simp, assumption)

lemma node_run_inv:
  assumes "node_run D M N n g0 pubs pend g" and "gp_store g0 \<noteq> None" and "list_all (counter_positive n) pubs"
  shows "run_inv n pubs pend g"
  using assms
proof (induction rule: node_run.induct)
  case begins
  then show ?case by (simp add: run_inv_def)
next
  case (prepares pubs g clk probe pend)
  then have inv: "run_inv n pubs None g" by simp
  then have st: "gp_store g \<noteq> None" by (simp add: run_inv_def)
  show ?case
  proof (cases pend)
    case (Some ns)
    from prepare_step [OF st prepares.hyps(2) [unfolded Some]] inv show ?thesis
      by (auto simp: run_inv_def Some intro: order_le_less_trans)
  qed (use inv in simp)
next
  case (publishes pubs ns g clk g')
  then have inv: "run_inv n pubs (Some ns) g" and pos: "counter_positive n ns" by simp_all
  then have st: "gp_store g \<noteq> None" and id: "ns_NodeID ns = n"
    and below: "\<forall>x \<in> set pubs. gget (ns_Clock x) < gget (ns_Clock ns)"
    by (auto simp: run_inv_def)
  from publish_overwrites [OF st publishes.hyps(2) id] inv below show ?case
    by (auto simp: run_inv_def sorted_wrt_append id intro: less_imp_le)
next
  case (receives pubs pend g clk data g')
  with own_stamp_message [of D M N clk data g g' n] show ?case
    by (intro run_inv_mono [of n pubs pend g g']) (simp_all add: NotifyMsg_def)
next
  case (exchanges pubs pend g clk data join g')
  with own_stamp_exchange [OF exchanges.hyps(2), of n] show ?case by (intro run_inv_mono [of n pubs pend g g']) simp_all
next
  case (departs pubs pend g now node)
  with own_stamp_leave [of n D now node g] leave_store [where g = g and D = D and now = now and node = node] show ?case
    by (intro run_inv_mono [of n pubs pend g "NotifyLeave D now node g"]) simp_all
next
  case (ticks pubs pend g now idx)
  from run_inv_cong [OF ticks.IH [OF ticks.prems] entropy_entries] show ?case .
next
  case (drains pubs pend g overhead limit bs g')
  from run_inv_cong [OF drains.IH [OF drains.prems] drain_entries [OF drains.hyps(2)]] show ?case .
next
  case (works pubs pend g g')
  from run_inv_cong [OF works.IH [OF works.prems] background_entries [OF works.hyps(2)]] show ?case .
qed

lemma node_run_sorted:
  assumes "node_run D M N n g0 pubs pend g" and "gp_store g0 \<noteq> None" and "list_all (counter_positive n) pubs"
  shows "sorted_wrt (\<lambda>x y. gget (ns_Clock x) < gget (ns_Clock y)) pubs \<and>
    (\<forall>x \<in> set pubs. gget (ns_Clock x) \<le> own_stamp n g \<and> ns_NodeID x = n) \<and> gp_store g \<noteq> None"
  using node_run_inv [OF assms] by (simp add: run_inv_def)

lemma sorted_causal:
  assumes "sorted_wrt (\<lambda>x y. gget (ns_Clock x) < gget (ns_Clock y)) pubs"
  shows "causal_history (set pubs)"
  unfolding causal_history_def
proof (intro ballI)
  fix x y
  assume "x \<in> set pubs" "y \<in> set pubs"
  then obtain i j where ij: "i < length pubs" "j < length pubs" "x = pubs ! i" "y = pubs ! j"
    by (metis in_set_conv_nth)
  have lt: "gget (ns_Clock (pubs ! a)) < gget (ns_Clock (pubs ! b))" if "a < b" "b < length pubs" for a b
    using sorted_wrt_nth_less [OF assms that] .
  consider "i < j" | "i = j" | "j < i" by linarith
  then show "(gget (ns_Clock x) \<le> gget (ns_Clock y) \<or> gget (ns_Clock y) \<le> gget (ns_Clock x)) \<and>
      (gget (ns_Clock x) = gget (ns_Clock y) \<longrightarrow> ns_view x = ns_view y)"
    using lt [of i j] lt [of j i] ij by cases (auto intro: less_imp_le)
qed

section \<open>A concrete run\<close>

definition sample_probe :: host_probe where
  "sample_probe = \<lparr>hp_static = (''amd64'', ''linux'', ''a'', ''6.1'', ''12'', ''debian'', ''debian''),
     hp_cpu_cache = [], hp_memory = Inr (0, 1, 2), hp_counters = Inr [(1, 2), (3, 4)],
     hp_interfaces = Inr [], hp_dial = Inr ''10.0.0.1'', hp_disk = Inr 0, hp_load = Inr (0, 0, 0)\<rparr>"

lemma sample_probe_ok: "\<exists>hm. GetHostMonitor sample_probe = Inr hm"
  by (simp add: GetHostMonitor_def sample_probe_def GetLocalIP_def)

lemma collect_one:
  assumes st: "gp_store g \<noteq> None" and clock: "recovered_clock D n (Some mempty) g = Inr (Some c)"
  shows "\<exists>ns g'. collect_prepare D int n sample_probe g = Inr (Some ns) \<and> collect_publish D M N int n ns g = Inr g' \<and>
    ns_NodeID ns = n \<and> GetNode n (gp_sm g') = Some ns \<and> gp_store g' \<noteq> None \<and>
    gget (ns_Clock ns) = (mget c)(n \<mapsto> i64_inc (case mget c n of None \<Rightarrow> i64_of 0 | Some v \<Rightarrow> v))"
proof -
  obtain hm where hm: "GetHostMonitor sample_probe = Inr hm" using sample_probe_ok by blast
  obtain ns c1 m where r: "collect_prepare D int n sample_probe g = Inr (Some ns)"
    "recovered_clock D n (Some mempty) g = Inr (Some c1)" "Increment (Some c1) n = Inr (Some m)"
    "ns = (ToNodeState (int 0) n hm)\<lparr>ns_Clock := Some m, ns_LastUpdated := int 1, ns_LastSeen := int 2\<rparr>"
    by (rule prepare_ok [OF hm st, where D = D and n = n and clk = int])
  obtain g' where p: "collect_publish D M N int n ns g = Inr g'" using publish_ok [OF st] by blast
  have id: "ns_NodeID ns = n" using prepare_step [OF st r(1)] by simp
  have "gget (ns_Clock ns) = (mget c)(n \<mapsto> i64_inc (case mget c n of None \<Rightarrow> i64_of 0 | Some v \<Rightarrow> v))"
    using gget_Increment [OF r(3)] clock r(2) by (simp add: r(4) gget_Some fun_eq_iff)
  with publish_overwrites [OF st p id] r(1) p id show ?thesis by blast
qed

lemma collect_counter:
  assumes st: "gp_store g \<noteq> None"
    and clock: "recovered_clock D n (Some mempty) g = Inr (Some c)" and run: "node_run D M N n g0 pubs None g"
  shows "\<exists>g' ns. node_run D M N n g0 (pubs @ [ns]) None g' \<and> GetNode n (gp_sm g') = Some ns \<and>
    gget (ns_Clock ns) = (mget c)(n \<mapsto> i64_inc (case mget c n of None \<Rightarrow> i64_of 0 | Some v \<Rightarrow> v)) \<and>
    gp_store g' \<noteq> None"
  using collect_one [OF st clock, of M N] node_run.publishes [OF node_run.prepares [OF run]] by blast

lemma sample_node_run:
  "\<exists>u1 u2 g. node_run mem_gorm M N ''a'' (sample_gossip []) [u1, u2] None g \<and>
     gget (ns_Clock u1) = [''a'' \<mapsto> i64_of 1] \<and> gget (ns_Clock u2) = [''a'' \<mapsto> i64_of 2]"
proof -
  have "recovered_clock mem_gorm ''a'' (Some mempty) (sample_gossip []) = Inr (Some mempty)"
    by (simp add: recovered_clock_def sample_gossip_def GetNode_sample_sm store_node_def GetNodeState_def mem_defs
        mem_with_def)
  moreover have "gp_store (sample_gossip []) \<noteq> None" by (simp add: sample_gossip_def)
  ultimately obtain g1 u1 where 1: "node_run mem_gorm M N ''a'' (sample_gossip []) ([] @ [u1]) None g1"
    "GetNode ''a'' (gp_sm g1) = Some u1" "gp_store g1 \<noteq> None" and
    k1: "gget (ns_Clock u1) = (mget mempty)(''a'' \<mapsto>
      i64_inc (case mget mempty ''a'' of None \<Rightarrow> i64_of 0 | Some v \<Rightarrow> v))"
    using collect_counter [OF _ _ node_run.begins [of mem_gorm M N "''a''" "sample_gossip []"]] by blast
  have u1: "gget (ns_Clock u1) = [''a'' \<mapsto> i64_of 1]"
    by (simp add: k1 i64_inc_of_int i64_int_of fun_eq_iff)
  obtain c where c: "recovered_clock mem_gorm ''a'' (Some mempty) g1 = Inr (Some c)"
    using recovered_clock_ok [OF 1(3)] by blast
  have mc: "mget c = [''a'' \<mapsto> i64_of 1]"
    using gget_Merge [of "Some mempty" "ns_Clock u1" "Some c"] c 1(2) u1
    by (simp add: recovered_clock_def gget_Some sup_fun_def fun_eq_iff)
  obtain g2 u2 where 2: "node_run mem_gorm M N ''a'' (sample_gossip []) (([] @ [u1]) @ [u2]) None g2" and
    k2: "gget (ns_Clock u2) = (mget c)(''a'' \<mapsto> i64_inc (case mget c ''a'' of None \<Rightarrow> i64_of 0 | Some v \<Rightarrow> v))"
    using collect_counter [OF 1(3) c 1(1)] by blast
  have u2: "gget (ns_Clock u2) = [''a'' \<mapsto> i64_of 2]"
    by (simp add: k2 mc i64_inc_of_int i64_int_of fun_eq_iff)
  from 2 u1 u2 show ?thesis by auto
qed

lemma sample_positive:
  "gget (ns_Clock u1) = [''a'' \<mapsto> i64_of 1] \<Longrightarrow> gget (ns_Clock u2) = [''a'' \<mapsto> i64_of 2] \<Longrightarrow>
     list_all (counter_positive ''a'') [u1, u2]"
  by (simp add: counter_positive_def i64_int_of)

section \<open>What the cluster learns of a node\<close>

text \<open>
  C5: the states a node publishes, in any run of collections, received messages and departures,
  also of those between the two halves of a collection, carry strictly increasing clocks (as long as its counter does not overflow), so together they
  form a causal history, the condition for replicas to agree.
\<close>

theorem published_states_causal:
  assumes "node_run D M N n g0 pubs pend g" and "gp_store g0 \<noteq> None" and "list_all (counter_positive n) pubs"
  shows "sorted_wrt (\<lambda>x y. Compare (ns_Clock y) (ns_Clock x) = 1) pubs \<and> causal_history (set pubs) \<and>
    (\<forall>x \<in> set pubs. ns_NodeID x = n)"
  using node_run_sorted [OF assms] sorted_causal by (simp add: Compare_eq_1)

theorem published_states_causal_witness:
  "\<exists>u1 u2. Compare (ns_Clock u2) (ns_Clock u1) = 1 \<and> causal_history {u1, u2} \<and> ns_NodeID u1 = ''a''"
proof -
  obtain u1 u2 g where r: "node_run mem_gorm wire_pack (box_net two_members) ''a'' (sample_gossip []) [u1, u2] None g"
    and u: "gget (ns_Clock u1) = [''a'' \<mapsto> i64_of 1]" "gget (ns_Clock u2) = [''a'' \<mapsto> i64_of 2]"
    using sample_node_run by blast
  have "gp_store (sample_gossip []) \<noteq> None" by (simp add: sample_gossip_def)
  from published_states_causal [OF r this sample_positive [OF u]] show ?thesis by auto
qed

lemma newest_is_last:
  assumes "sorted_wrt (\<lambda>x y. gget (ns_Clock x) < gget (ns_Clock y)) pubs" and "pubs \<noteq> []"
    and sub: "ns_view ` U \<subseteq> ns_view ` set pubs" and last: "ns_view (last pubs) \<in> ns_view ` U"
  shows "causal_history U \<and> (reg.newest U l \<longrightarrow> ns_view l = ns_view (last pubs))"
proof -
  have clk: "gget (ns_Clock x) = gget (ns_Clock y)" if "ns_view x = ns_view y" for x y
    using that by (simp add: ns_view_def)
  have pub: "\<exists>p \<in> set pubs. ns_view x = ns_view p \<and> gget (ns_Clock x) = gget (ns_Clock p)" if "x \<in> U" for x
    proof -
    have "ns_view x \<in> ns_view ` set pubs" using sub that by blast
    then obtain p where "p \<in> set pubs" "ns_view x = ns_view p" by (elim imageE)
    with clk [of x p] show ?thesis by (intro bexI [of _ p]) simp_all
  qed
  have ch: "causal_history U"
    unfolding causal_history_def
  proof (intro ballI)
    fix x y assume xy: "x \<in> U" "y \<in> U"
    obtain p where p: "p \<in> set pubs" "ns_view x = ns_view p" "gget (ns_Clock x) = gget (ns_Clock p)"
      using pub [OF xy(1)] by blast
    obtain q where q: "q \<in> set pubs" "ns_view y = ns_view q" "gget (ns_Clock y) = gget (ns_Clock q)"
      using pub [OF xy(2)] by blast
    show "(gget (ns_Clock x) \<le> gget (ns_Clock y) \<or>
        gget (ns_Clock y) \<le> gget (ns_Clock x)) \<and> (gget (ns_Clock x) = gget (ns_Clock y) \<longrightarrow> ns_view x = ns_view y)"
      unfolding p(2,3) q(2,3)
      using sorted_causal [OF assms(1), unfolded causal_history_def, rule_format, OF p(1) q(1)] by blast
  qed
  have top: "gget (ns_Clock p) \<le> gget (ns_Clock (last pubs))" if "p \<in> set pubs" for p
  proof -
    obtain ys z where ys: "pubs = ys @ [z]" using assms(2) by (cases pubs rule: rev_cases) auto
    show ?thesis
      using assms(1) that unfolding ys by (auto simp: sorted_wrt_append intro: less_imp_le)
  qed
  have "ns_view l = ns_view (last pubs)" if "reg.newest U l"
  proof -
    obtain m where m: "m \<in> U" "ns_view l = ns_view m" "\<forall>x \<in> U. ns_stamp x \<le> ns_stamp m"
      using \<open>reg.newest U l\<close> by (auto simp: reg.newest_def)
    obtain x where x: "x \<in> U" "ns_view (last pubs) = ns_view x" using last by (rule imageE)
    obtain p where p: "p \<in> set pubs" "gget (ns_Clock m) = gget (ns_Clock p)" using pub [OF m(1)] by blast
    have "gget (ns_Clock m) \<le> gget (ns_Clock x)"
      unfolding p(2) clk [OF x(2), symmetric] by (rule top [OF p(1)])
    moreover have "gget (ns_Clock x) \<le> gget (ns_Clock m)"
      using m(3) x(1) unfolding ns_stamp_def by (rule bspec)
    ultimately have "gget (ns_Clock m) = gget (ns_Clock x)" by (rule antisym)
    then have "ns_view m = ns_view x"
      using ch [unfolded causal_history_def, rule_format, OF m(1) x(1)] by blast
    with m(2) x(2) show ?thesis by simp
  qed
  with ch show ?thesis by blast
qed

text \<open>
  C4: a replica that knew nothing of a node and has received its latest published state, along
  with any of its earlier ones, in any order and any number of times, holds exactly that latest
  state of it: lost, repeated and overtaken messages leave no trace.
\<close>

theorem replica_catches_up:
  assumes "node_run D M N n g0 pubs pend g" and "gp_store g0 \<noteq> None" and "list_all (counter_positive n) pubs"
    and "pubs \<noteq> []" and "merge_nodes D' xs (sm, st) = Inr (sm', st')" and "GetNode n sm = None"
    and "ns_view ` received xs n \<subseteq> ns_view ` set pubs" and "ns_view (last pubs) \<in> ns_view ` received xs n"
  shows "map_option ns_view (GetNode n sm') = Some (ns_view (last pubs))"
proof -
  have "sorted_wrt (\<lambda>x y. gget (ns_Clock x) < gget (ns_Clock y)) pubs"
    using node_run_sorted [OF assms(1-3)] by blast
  note last = newest_is_last [OF this assms(4,7,8)]
  from merge_nodes_from_unknown [OF assms(5) _ assms(6)] last assms(8) show ?thesis
    by (auto split: option.splits)
qed

theorem replica_catches_up_witness:
  "\<exists>u1 u2 sm st. merge_nodes mem_gorm [(0, Some u2), (1, Some u1), (2, Some u2)] (sample_sm [], None) = Inr (sm, st) \<and>
     gget (ns_Clock u1) \<noteq> gget (ns_Clock u2) \<and> map_option ns_view (GetNode ''a'' sm) = Some (ns_view u2)"
proof -
  obtain u1 u2 g where r: "node_run mem_gorm wire_pack (box_net two_members) ''a'' (sample_gossip []) [u1, u2] None g"
    and u: "gget (ns_Clock u1) = [''a'' \<mapsto> i64_of 1]" "gget (ns_Clock u2) = [''a'' \<mapsto> i64_of 2]"
    using sample_node_run by blast
  have st: "gp_store (sample_gossip []) \<noteq> None" by (simp add: sample_gossip_def)
  note pos = sample_positive [OF u]
  have id: "ns_NodeID u1 = ''a''" "ns_NodeID u2 = ''a''" using node_run_sorted [OF r st pos] by simp_all
  let ?xs = "[(0, Some u2), (1, Some u1), (2, Some u2)]"
  obtain sm st' where m: "merge_nodes mem_gorm ?xs (sample_sm [], None) = Inr (sm, st')"
    using merge_nodes_total [of ?xs mem_gorm "(sample_sm [], None)"] by auto
  have rec: "received ?xs ''a'' = {u1, u2}" using id by (auto simp: received_def)
  have "map_option ns_view (GetNode ''a'' sm) = Some (ns_view (last [u1, u2]))"
    by (rule replica_catches_up [OF r st pos _ m]) (simp_all add: GetNode_sample_sm rec)
  then have "map_option ns_view (GetNode ''a'' sm) = Some (ns_view u2)" by simp
  moreover have "i64_of 1 \<noteq> i64_of 2" by (simp add: i64_of_inject)
  then have "gget (ns_Clock u1) \<noteq> gget (ns_Clock u2)" unfolding u by (metis fun_upd_same option.inject)
  ultimately show ?thesis using m by blast
qed

end
