(* ===== verification/Cluster.thy ===== *)
theory Cluster
  imports NodeProps
begin

text \<open>
  Whole clusters: a node for every identifier, and a network that loses, repeats and reorders. A
  node's own memberlist is the parameter \<open>N\<close> of the other theories; what it was ever given to
  transmit is logged beside its state, and any node may receive any of it at any later time.
\<close>

section \<open>The network\<close>

text \<open>A memberlist with a log of the data it was given.\<close>

definition log_net :: "('m, 'b) net \<Rightarrow> ('m \<times> 'b list, 'b) net" where
  "log_net N = \<lparr>ml_Members = (\<lambda>(s, _). ml_Members N s), ml_NumMembers = (\<lambda>(s, _). ml_NumMembers N s),
     ml_SendReliable = (\<lambda>m b (s, log). let (err, s') = ml_SendReliable N m b s in (err, (s', b # log))),
     ml_QueueBroadcast = (\<lambda>sb (s, log). (ml_QueueBroadcast N sb s, sb_msg sb # log)),
     ml_GetBroadcasts = (\<lambda>overhead limit (s, log).
       let (bs, s') = ml_GetBroadcasts N overhead limit s in (bs, (s', log)))\<rparr>"

text \<open>What the nodes rely on: data enter the network by the two sending calls only.\<close>

locale transport =
  fixes N :: "('m, 'b) net" and sent :: "'m \<Rightarrow> 'b set"
  assumes reliable: "ml_SendReliable N m b s = (err, s') \<Longrightarrow> sent s' = insert b (sent s)"
    and queued: "sent (ml_QueueBroadcast N sb s) = insert (sb_msg sb) (sent s)"
    and drained: "ml_GetBroadcasts N overhead limit s = (bs, s') \<Longrightarrow> sent s' = sent s"
begin

abbreviation sends :: "('m, 'db) gossip \<Rightarrow> ('m, 'db) gossip \<Rightarrow> 'b set \<Rightarrow> bool" where
  "sends g g' B \<equiv> sent (gp_list g') \<subseteq> sent (gp_list g) \<union> B"

lemma history_data_carries:
  assumes "msgpack_ok M"
  shows "EncodeMessage M (NewGossipMessage now MsgHistoryPullResponse sender bytes) = Inr data \<Longrightarrow> carried M data = []"
    and "EncodeMessage M (NewGossipMessage now MsgHistoryPullRequest sender bytes) = Inr data \<Longrightarrow> carried M data = []"
  using msgpack_okD(1) [OF assms]
  by (auto simp: EncodeMessage_def carried_def DecodeMessage_def NewGossipMessage_def)

lemma request_sends:
  assumes "msgpack_ok M" and "handleHistoryPullRequest D M N now rq sender g = Inr g'"
  shows "sends g g' {b. carried M b = []}"
  using assms(2)
  by (auto simp: handleHistoryPullRequest_def dest!: reliable intro: history_data_carries [OF assms(1)]
      split: option.splits sum.splits prod.splits)

lemma message_sends:
  assumes "msgpack_ok M" and "handleMessage D M N clk data g = Inr g'"
  shows "sends g g' {b. carried M b = []}"
proof -
  have list: "gp_list g' = gp_list g" if "merge_all D clk nodes g = Inr g'" for nodes
    using merge_all_frame [OF that] by simp
  have resp: "gp_list g' = gp_list g" if "handleHistoryPullResponse D p g = Inr g'" for p
    using untouched_response [OF that] by (simp add: untouched_def)
  show ?thesis
    using assms(2)
    by (auto simp: handleMessage_def dest: list resp request_sends [OF assms(1), THEN subsetD]
        split: sum.splits option.splits if_splits)
qed

lemma pull_sends:
  assumes "msgpack_ok M" and "sendHistoryPullRequest M N now a g = Inr g'"
  shows "sends g g' {b. carried M b = []}"
  using assms(2)
  by (auto simp: sendHistoryPullRequest_def deref_def dest!: reliable fail_frame
      intro: history_data_carries [OF assms(1)] split: option.splits sum.splits prod.splits)

lemma background_sends:
  assumes "msgpack_ok M" and "background D M N g g'"
  shows "sends g g' {b. carried M b = []}"
  using assms(2)
proof (cases rule: background.cases)
  case (spawned xs gr ys now ctx)
  then show ?thesis
    using pull_sends [OF assms(1), of now "go_addr gr" "g\<lparr>gp_go := xs @ ys\<rparr>" g']
      fail_frame [of "go_addr gr" _ "g\<lparr>gp_go := xs @ ys\<rparr>" g']
    by (cases gr) (auto split: option.splits)
next
  case (waits a w e)
  then show ?thesis by (auto simp: SyncHistoryOnJoin_wait_def Let_def split: option.splits wake.splits)
qed (auto simp: SyncHistoryOnJoin_start_def cleanup_tick_def Let_def split: if_splits option.splits)

lemma tick_sends: "sends g (antiEntropy_tick M N now idx g) {b. getClusterStateJSON M now g = Some b}"
  by (auto simp: antiEntropy_tick_def Let_def dest!: reliable split: option.splits prod.splits)

lemma publish_sends:
  assumes "collect_publish D M N clk n ns g = Inr g'"
  shows "sends g g' {b. encode_gossip M (clk 4) MsgNodeState (gp_localNode g) (PNodeState \<lparr>np_State = Some ns\<rparr>) = Inr b}"
  using assms
  by (auto simp: collect_publish_def BroadcastLocalState_def encode_gossip_def Let_def queued persist_def
      split: option.splits sum.splits)

lemma drain_sends: "GetBroadcasts N overhead limit g = (bs, g') \<Longrightarrow> sends g g' {}"
  by (auto simp: GetBroadcasts_def drained split: prod.splits)

end

interpretation logged: transport "log_net N" "\<lambda>(s, log). set log" for N :: "('m, 'b) net"
  by unfold_locales (auto simp: log_net_def Let_def split: prod.splits)

section \<open>A cluster\<close>

text \<open>
  The nodes by their identifiers, the state of a collection that is not published yet and the
  states published so far, for each, and the cluster states handed to memberlist for a push-pull
  exchange.
\<close>

record ('m, 'b, 'db) cluster =
  cl_node :: "string \<Rightarrow> ('m \<times> 'b list, 'db) gossip"
  cl_pend :: "string \<Rightarrow> NodeState option"
  cl_pubs :: "string \<Rightarrow> NodeState list"
  cl_pushed :: "'b set"

definition at_node :: "string \<Rightarrow> ('m \<times> 'b list, 'db) gossip \<Rightarrow> ('m, 'b, 'db) cluster \<Rightarrow> ('m, 'b, 'db) cluster" where
  "at_node i g c = c\<lparr>cl_node := (cl_node c)(i := g)\<rparr>"

definition logged_data :: "('m \<times> 'b list, 'db) gossip \<Rightarrow> 'b set" where
  "logged_data g = set (snd (gp_list g))"

definition wire :: "('m, 'b, 'db) cluster \<Rightarrow> 'b set" where
  "wire c = cl_pushed c \<union> (\<Union>i. logged_data (cl_node c i))"

text \<open>
  One step of one node. Messages and remote states come from the wire; \<^verbatim>\<open>LocalState\<close> puts a
  cluster state onto it.
\<close>

inductive cluster_step ::
    "'db gorm \<Rightarrow> 'b msgpack \<Rightarrow> ('m, 'b) net \<Rightarrow> ('m, 'b, 'db) cluster \<Rightarrow> ('m, 'b, 'db) cluster \<Rightarrow> bool"
  for D :: "'db gorm" and M :: "'b msgpack" and N :: "('m, 'b) net" where
  prepares: "cl_pend c i = None \<Longrightarrow> collect_prepare D clk i probe (cl_node c i) = Inr pend \<Longrightarrow>
     cluster_step D M N c (c\<lparr>cl_pend := (cl_pend c)(i := pend)\<rparr>)"
| publishes: "cl_pend c i = Some ns \<Longrightarrow> collect_publish D M (log_net N) clk i ns (cl_node c i) = Inr g \<Longrightarrow>
     cluster_step D M N c ((at_node i g c)\<lparr>cl_pend := (cl_pend c)(i := None),
       cl_pubs := (cl_pubs c)(i := cl_pubs c i @ [ns])\<rparr>)"
| receives: "data \<in> wire c \<Longrightarrow> NotifyMsg D M (log_net N) clk data (cl_node c i) = Inr g \<Longrightarrow>
     cluster_step D M N c (at_node i g c)"
| exchanges: "data \<in> wire c \<Longrightarrow> MergeRemoteState D M clk data join (cl_node c i) = Inr g \<Longrightarrow>
     cluster_step D M N c (at_node i g c)"
| pushes: "LocalState M now join (cl_node c i) = Some data \<Longrightarrow>
     cluster_step D M N c (c\<lparr>cl_pushed := insert data (cl_pushed c)\<rparr>)"
| departs: "cluster_step D M N c (at_node i (NotifyLeave D now node (cl_node c i)) c)"
| ticks: "cluster_step D M N c (at_node i (antiEntropy_tick M (log_net N) now idx (cl_node c i)) c)"
| drains: "GetBroadcasts (log_net N) overhead limit (cl_node c i) = (bs, g) \<Longrightarrow> cluster_step D M N c (at_node i g c)"
| works: "background D M (log_net N) (cl_node c i) g \<Longrightarrow> cluster_step D M N c (at_node i g c)"

text \<open>
  In the beginning nothing was published or sent, and no node knows another. (A node keeps its
  store over a restart, but not its entries.)
\<close>

definition cluster_begins :: "('m, 'b, 'db) cluster \<Rightarrow> bool" where
  "cluster_begins c \<longleftrightarrow> cl_pushed c = {} \<and>
     (\<forall>i. cl_pend c i = None \<and> cl_pubs c i = [] \<and> gp_store (cl_node c i) \<noteq> None \<and>
          logged_data (cl_node c i) = {} \<and> (\<forall>n. known (cl_node c i) n = None))"

inductive cluster_run ::
    "'db gorm \<Rightarrow> 'b msgpack \<Rightarrow> ('m, 'b) net \<Rightarrow> ('m, 'b, 'db) cluster \<Rightarrow> ('m, 'b, 'db) cluster \<Rightarrow> bool"
  for D :: "'db gorm" and M :: "'b msgpack" and N :: "('m, 'b) net" and c0 :: "('m, 'b, 'db) cluster" where
  begins: "cluster_begins c0 \<Longrightarrow> cluster_run D M N c0 c0"
| steps: "cluster_run D M N c0 c \<Longrightarrow> cluster_step D M N c c' \<Longrightarrow> cluster_run D M N c0 c'"

lemma at_node_simps [simp]:
  "cl_node (at_node i g c) = (cl_node c)(i := g)" "cl_pend (at_node i g c) = cl_pend c"
  "cl_pubs (at_node i g c) = cl_pubs c" "cl_pushed (at_node i g c) = cl_pushed c"
  by (simp_all add: at_node_def)

lemma cluster_run_begins: "cluster_run D M N c0 c \<Longrightarrow> cluster_begins c0"
  by (induction rule: cluster_run.induct) simp_all

text \<open>What happens to one node of a cluster is a run of that node.\<close>

lemma step_node_run:
  assumes "cluster_step D M N c c'"
    and "node_run D M (log_net N) n g0 (cl_pubs c n) (cl_pend c n) (cl_node c n)"
  shows "node_run D M (log_net N) n g0 (cl_pubs c' n) (cl_pend c' n) (cl_node c' n)"
  using assms by (induction rule: cluster_step.induct) (auto intro: node_run.intros)

lemma cluster_node_run:
  assumes "cluster_run D M N c0 c"
  shows "node_run D M (log_net N) n (cl_node c0 n) (cl_pubs c n) (cl_pend c n) (cl_node c n)"
  using assms
proof (induction rule: cluster_run.induct)
  case begins
  then show ?case using node_run.begins [of D M "log_net N" n "cl_node c0 n"] by (simp add: cluster_begins_def)
next
  case (steps c c')
  from steps.hyps(2) steps.IH show ?case by (rule step_node_run)
qed

definition counters_positive :: "('m, 'b, 'db) cluster \<Rightarrow> bool" where
  "counters_positive c \<longleftrightarrow> (\<forall>n. list_all (counter_positive n) (cl_pubs c n))"

lemma cluster_sorted:
  assumes "cluster_run D M N c0 c" and "counters_positive c"
  shows "sorted_wrt (\<lambda>x y. gget (ns_Clock x) < gget (ns_Clock y)) (cl_pubs c n) \<and>
    (\<forall>x \<in> set (cl_pubs c n). gget (ns_Clock x) \<le> own_stamp n (cl_node c n) \<and> ns_NodeID x = n)"
proof -
  have "gp_store (cl_node c0 n) \<noteq> None"
    using cluster_run_begins [OF assms(1)] by (simp add: cluster_begins_def)
  from node_run_sorted [OF cluster_node_run [OF assms(1), of n] this] assms(2) show ?thesis
    by (simp add: counters_positive_def)
qed

section \<open>Where entries come from\<close>

text \<open>
  A genuine state of a node is one that it published, but for the status, which a departure may
  have set.
\<close>

definition genuine :: "NodeState list \<Rightarrow> NodeState \<Rightarrow> bool" where
  "genuine pubs e \<longleftrightarrow>
     (\<exists>p \<in> set pubs. version e = version p \<and> (ns_Status e = ns_Status p \<or> ns_Status e = ''inactive''))"

lemma genuine_mono: "genuine pubs e \<Longrightarrow> set pubs \<subseteq> set pubs' \<Longrightarrow> genuine pubs' e"
  by (auto simp: genuine_def)

lemma ns_view_Status: "ns_view x = ns_view y \<Longrightarrow> ns_Status x = ns_Status y"
  by (auto simp: ns_view_def dest: arg_cong [where f = ns_Status])

lemma genuine_view: "ns_view x = ns_view y \<Longrightarrow> genuine pubs x = genuine pubs y"
  using version_view [of x y] ns_view_Status [of x y] by (simp add: genuine_def)

lemma genuine_inactive: "genuine pubs e \<Longrightarrow> genuine pubs (e\<lparr>ns_Status := ''inactive''\<rparr>)"
  by (auto simp: genuine_def version_def)

lemma genuine_published: "p \<in> set pubs \<Longrightarrow> genuine pubs p"
  by (auto simp: genuine_def)

lemma genuine_NodeID: "genuine pubs e \<Longrightarrow> \<forall>x \<in> set pubs. ns_NodeID x = n \<Longrightarrow> ns_NodeID e = n"
  by (auto simp: genuine_def dest: version_fields)

lemma version_eqI:
  "x\<lparr>ns_Clock := None\<rparr> = y\<lparr>ns_Clock := None\<rparr> \<Longrightarrow> ns_stamp x = ns_stamp y \<Longrightarrow> version x = version y"
  by (rule version_view) (simp add: ns_view_def ns_stamp_def)

text \<open>Two genuine states of a node merge to the later one.\<close>

definition in_order :: "NodeState list \<Rightarrow> bool" where
  "in_order pubs \<longleftrightarrow> sorted_wrt (\<lambda>x y. gget (ns_Clock x) < gget (ns_Clock y)) pubs"

text \<open>
  What is needed of the states of a node: their clocks are comparable, and for agreement, states
  with the same clock and the same time are the same. States in the order of their clocks are both.
\<close>

definition lined :: "NodeState list \<Rightarrow> bool" where
  "lined pubs \<longleftrightarrow> (\<forall>x \<in> set pubs. \<forall>y \<in> set pubs. ns_stamp x \<le> ns_stamp y \<or> ns_stamp y \<le> ns_stamp x)"

definition told_apart :: "NodeState list \<Rightarrow> bool" where
  "told_apart pubs \<longleftrightarrow> (\<forall>x \<in> set pubs. \<forall>y \<in> set pubs. ns_age x = ns_age y \<longrightarrow> version x = version y)"

lemma in_order_same:
  "in_order pubs \<Longrightarrow> x \<in> set pubs \<Longrightarrow> y \<in> set pubs \<Longrightarrow> ns_stamp x = ns_stamp y \<Longrightarrow> version x = version y"
  using sorted_causal [of pubs] version_view [of x y]
  unfolding in_order_def causal_history_def ns_stamp_def by blast

lemma in_order_lined: "in_order pubs \<Longrightarrow> lined pubs \<and> told_apart pubs"
  using sorted_causal [of pubs] in_order_same [of pubs]
  unfolding in_order_def causal_history_def lined_def told_apart_def ns_age_def ns_stamp_def by blast

lemma genuineE:
  assumes "genuine pubs x"
  obtains p where "p \<in> set pubs" "version x = version p" "ns_stamp x = ns_stamp p" "ns_age x = ns_age p"
  using assms version_stamp version_fields unfolding genuine_def ns_age_def by metis

lemma genuine_comparable:
  "lined pubs \<Longrightarrow> genuine pubs x \<Longrightarrow> genuine pubs y \<Longrightarrow> ns_stamp x \<le> ns_stamp y \<or> ns_stamp y \<le> ns_stamp x"
  unfolding lined_def by (elim genuineE) metis

lemma genuine_chain:
  assumes "lined pubs" and "told_apart pubs" and "\<And>x. x \<in> U \<Longrightarrow> genuine pubs x"
  shows "ver.chain U"
  unfolding ver.chain_def
proof (intro ballI conjI impI)
  fix x y
  assume xy: "x \<in> U" "y \<in> U"
  from genuine_comparable [OF assms(1) assms(3) [OF xy(1)] assms(3) [OF xy(2)]]
  show "ns_age x \<le> ns_age y \<or> ns_age y \<le> ns_age x"
    unfolding ns_age_le using linear [of "ns_LastUpdated x" "ns_LastUpdated y"] order.order_iff_strict by metis
  assume "ns_age x = ns_age y"
  with assms(2) assms(3) [OF xy(1)] assms(3) [OF xy(2)] show "version x = version y"
    unfolding told_apart_def by (elim genuineE) metis
qed

lemma merge_genuine:
  assumes "lined pubs" and "genuine pubs l" and "genuine pubs r"
  shows "genuine pubs (node_merge l r)"
proof (cases "resolveConflict l r")
  case LocalWins
  with assms(2) show ?thesis by (simp add: node_merge_def)
next
  case RemoteWins
  note fields = ns_fields_merge [OF RemoteWins]
  have "\<not> ns_stamp r < ns_stamp l"
    using RemoteWins less_asym unfolding resolveConflict_order ns_stamp_def by blast
  then have "ns_stamp l \<le> ns_stamp r"
    using genuine_comparable [OF assms] by (auto simp: order.order_iff_strict)
  then have "ns_stamp (node_merge l r) = ns_stamp r"
    using RemoteWins by (simp add: ns_stamp_merge sup_absorb2)
  from genuine_view [of "node_merge l r" r pubs] fields this assms(3) show ?thesis
    by (simp add: ns_view_def ns_stamp_def)
qed

lemma merge_nodes_genuine:
  assumes "merge_nodes D xs (sm, st) = Inr (sm', st')" and "\<And>n. lined (P n)"
    and "\<And>r. Some r \<in> snd ` set xs \<Longrightarrow> genuine (P (ns_NodeID r)) r"
    and "\<And>n e. GetNode n sm = Some e \<Longrightarrow> genuine (P n) e" and "GetNode n sm' = Some e"
  shows "genuine (P n) e"
  using assms
proof (induction xs arbitrary: sm st n e)
  case (Cons x xs)
  obtain t ro where x: "x = (t, ro)" by (cases x)
  with Cons.prems(1) obtain r where ro: "ro = Some r" by (cases ro) (auto simp: MergeNodeState_def)
  obtain c sm1 st1 where m: "MergeNodeState D t (Some r) (sm, st) = Inr (c, sm1, st1)"
    using MergeNodeState_total by blast
  have rest: "merge_nodes D xs (sm1, st1) = Inr (sm', st')" using Cons.prems(1) by (simp add: x ro m)
  have r: "genuine (P (ns_NodeID r)) r" using Cons.prems(3) by (simp add: x ro)
  have "genuine (P n1) e1" if "GetNode n1 sm1 = Some e1" for n1 e1
    using that MergeNodeState_GetNode(1) [OF m, of n1] Cons.prems(4) r merge_genuine [OF Cons.prems(2)]
      genuine_view [OF ns_view_join [of r], of "P (ns_NodeID r)"]
    by (auto split: option.splits if_splits)
  from Cons.IH [OF rest Cons.prems(2) _ this Cons.prems(5)] Cons.prems(3) show ?case by simp
qed simp

lemma merge_all_genuine:
  assumes "merge_all D clk nodes g = Inr g'" and "\<And>n. lined (P n)"
    and "\<And>r. Some r \<in> set nodes \<Longrightarrow> genuine (P (ns_NodeID r)) r"
    and "\<And>n e. known g n = Some e \<Longrightarrow> genuine (P n) e" and "known g' n = Some e"
  shows "genuine (P n) e"
proof -
  obtain xs where "merge_nodes D xs (gp_sm g, gp_store g) = Inr (gp_sm g', gp_store g')" "snd ` set xs = set nodes"
    using merge_all_nodes [OF assms(1)] by metis
  with merge_nodes_genuine [of D xs "gp_sm g" "gp_store g" "gp_sm g'" "gp_store g'" P n e] assms(2-)
  show ?thesis by (simp add: known_def)
qed

section \<open>What a cluster state carries\<close>

lemma carried_sync:
  assumes "msgpack_ok M" and "getClusterStateJSON M now g = Some data"
  shows "list_all2 same_node (carried M data) (mapToSlice (cs_Nodes (sm_clusterState (gp_sm g))))"
  using sent_nodes [OF assms] by (auto simp: carried_def GetClusterState_def Let_def)

lemma mapToSlice_iff: "Some e \<in> set (mapToSlice nodes) \<longleftrightarrow> (\<exists>n. mget nodes n = Some e)"
  by (force simp: mapToSlice_def)

lemma list_all2_mem:
  assumes "list_all2 R xs ys"
  shows "x \<in> set xs \<Longrightarrow> \<exists>y \<in> set ys. R x y" and "y \<in> set ys \<Longrightarrow> \<exists>x \<in> set xs. R x y"
  using assms by (metis in_set_conv_nth list_all2_conv_all_nth)+

lemma sync_carries_entries:
  assumes "msgpack_ok M" and "getClusterStateJSON M now g = Some data"
  shows "None \<notin> set (carried M data)"
    and "Some r \<in> set (carried M data) \<Longrightarrow> \<exists>n e. known g n = Some e \<and> ns_view r = ns_view e"
    and "known g n = Some e \<Longrightarrow> \<exists>r. Some r \<in> set (carried M data) \<and> ns_view r = ns_view e"
proof -
  note all = carried_sync [OF assms]
  show "None \<notin> set (carried M data)" using sent_nodes_not_nil [OF all] .
  have ent: "(\<exists>n. known g n = Some e) \<longleftrightarrow> Some e \<in> set (mapToSlice (cs_Nodes (sm_clusterState (gp_sm g))))" for e
    by (simp add: mapToSlice_iff known_def GetNode_def)
  have no_nil: "None \<notin> set (mapToSlice (cs_Nodes (sm_clusterState (gp_sm g))))"
    by (auto simp: mapToSlice_def)
  show "\<exists>n e. known g n = Some e \<and> ns_view r = ns_view e" if r: "Some r \<in> set (carried M data)"
  proof -
    obtain y where y: "y \<in> set (mapToSlice (cs_Nodes (sm_clusterState (gp_sm g))))" "same_node (Some r) y"
      using list_all2_mem(1) [OF all r] by blast
    with no_nil obtain e where "y = Some e" by (cases y) auto
    with y ent [of e] show ?thesis by (auto simp: same_node_def ns_view_def)
  qed
  show "\<exists>r. Some r \<in> set (carried M data) \<and> ns_view r = ns_view e" if e: "known g n = Some e"
  proof -
    have "Some e \<in> set (mapToSlice (cs_Nodes (sm_clusterState (gp_sm g))))" using e ent by blast
    from list_all2_mem(2) [OF all this] obtain x where x: "x \<in> set (carried M data)" "same_node x (Some e)" by blast
    from same_node_Some [OF x(2)] x(1) show ?thesis by blast
  qed
qed

lemma carried_state:
  assumes "msgpack_ok M" and "encode_gossip M now MsgNodeState sender (PNodeState \<lparr>np_State = Some ns\<rparr>) = Inr data"
  shows "\<exists>r. carried M data = [Some r] \<and> ns_view r = ns_view ns"
proof -
  obtain bytes where b: "mp_MarshalPayload M (PNodeState \<lparr>np_State = Some ns\<rparr>) = Inr bytes"
    "DecodeMessage M data = Inr (NewGossipMessage now MsgNodeState sender bytes)"
    using encode_gossip_decode [OF assms] by blast
  obtain q r where q: "mp_UnmarshalNodeState M bytes = Inr q" "np_State q = Some r" "ns_view r = ns_view ns"
    using msgpack_okD(2) [OF assms(1) b(1)] same_node_Some by fastforce
  then show ?thesis by (simp add: carried_def b(2) NewGossipMessage_def)
qed

section \<open>The invariant of a cluster\<close>

text \<open>All entries, and all states on the wire, are genuine.\<close>

definition states_genuine :: "(string \<Rightarrow> NodeState list) \<Rightarrow> 'b msgpack \<Rightarrow> 'b \<Rightarrow> bool" where
  "states_genuine P M data \<longleftrightarrow> (\<forall>r. Some r \<in> set (carried M data) \<longrightarrow> genuine (P (ns_NodeID r)) r)"

definition entries_genuine :: "(string \<Rightarrow> NodeState list) \<Rightarrow> ('m, 'db) gossip \<Rightarrow> bool" where
  "entries_genuine P g \<longleftrightarrow> (\<forall>n e. known g n = Some e \<longrightarrow> genuine (P n) e)"

definition honest :: "'b msgpack \<Rightarrow> ('m, 'b, 'db) cluster \<Rightarrow> bool" where
  "honest M c \<longleftrightarrow>
     (\<forall>i. entries_genuine (cl_pubs c) (cl_node c i)) \<and> (\<forall>data \<in> wire c. states_genuine (cl_pubs c) M data)"

lemma honestD:
  assumes "honest M c"
  shows "entries_genuine (cl_pubs c) (cl_node c i)" and "data \<in> wire c \<Longrightarrow> states_genuine (cl_pubs c) M data"
  using assms by (simp_all add: honest_def)

lemma wire_at_node:
  "wire (at_node i g c) \<subseteq> wire c \<union> logged_data g"
  by (auto simp: wire_def split: if_splits)

text \<open>A step of one node keeps the cluster honest when its entries and what it sends are genuine.\<close>

lemma honest_at_node:
  assumes "honest M c" and "entries_genuine (cl_pubs c) g"
    and "logged_data g \<subseteq> logged_data (cl_node c i) \<union> B" and "\<And>b. b \<in> B \<Longrightarrow> states_genuine (cl_pubs c) M b"
  shows "honest M (at_node i g c)"
proof -
  have "logged_data (cl_node c i) \<subseteq> wire c" by (auto simp: wire_def)
  then have "states_genuine (cl_pubs c) M b" if "b \<in> wire (at_node i g c)" for b
    using subsetD [OF wire_at_node that] assms(3,4) honestD(2) [OF assms(1)] by blast
  with honestD(1) [OF assms(1)] assms(2) show ?thesis by (simp add: honest_def)
qed

lemma honest_grows:
  assumes "honest M c" and "\<And>n. set (cl_pubs c n) \<subseteq> set (P n)"
  shows "honest M (c\<lparr>cl_pubs := P\<rparr>)"
  using assms genuine_mono [OF _ assms(2)]
  by (fastforce simp: honest_def wire_def entries_genuine_def states_genuine_def)

lemma merges_entries:
  assumes "merge_all D clk (carried M data) g = Inr g'" and "\<And>n. lined (P n)"
    and "states_genuine P M data" and "entries_genuine P g"
  shows "entries_genuine P g'"
  using merge_all_genuine [OF assms(1), of P] assms(2-4)
  unfolding entries_genuine_def states_genuine_def by blast

lemma message_genuine:
  assumes "NotifyMsg D M N clk data g = Inr g'" and "\<And>n. lined (P n)"
    and "states_genuine P M data" and "entries_genuine P g"
  shows "entries_genuine P g'"
proof -
  obtain g1 where g1: "merge_all D clk (carried M data) g = Inr g1" "known g' = known g1"
    using handleMessage_merges [OF assms(1) [unfolded NotifyMsg_def]] by (elim exE conjE) (rule that)
  from merges_entries [OF g1(1) assms(2-4)] g1(2) show ?thesis by (simp add: entries_genuine_def)
qed

lemma exchange_genuine:
  assumes "MergeRemoteState D M clk data join g = Inr g'" and "\<And>n. lined (P n)"
    and "states_genuine P M data" and "entries_genuine P g"
  shows "entries_genuine P g'"
  using MergeRemoteState_merges [OF assms(1)] merges_entries [OF _ assms(2-4)] assms(4) by blast

lemma quiet_genuine: "carried M data = [] \<Longrightarrow> states_genuine P M data"
  by (simp add: states_genuine_def)

lemma sync_genuine:
  assumes "msgpack_ok M" and "entries_genuine P g" and "\<forall>n. \<forall>p \<in> set (P n). ns_NodeID p = n"
    and "getClusterStateJSON M now g = Some data"
  shows "states_genuine P M data"
  unfolding states_genuine_def
proof (intro allI impI)
  fix r
  assume "Some r \<in> set (carried M data)"
  then obtain n e where e: "known g n = Some e" "ns_view r = ns_view e"
    using sync_carries_entries(2) [OF assms(1,4)] by blast
  have "genuine (P n) e" using assms(2) e(1) by (simp add: entries_genuine_def)
  moreover from genuine_NodeID [OF this] assms(3) have "ns_NodeID e = n" by blast
  ultimately show "genuine (P (ns_NodeID r)) r"
    using genuine_view [OF e(2)] ns_view_NodeID [OF e(2)] by simp
qed

lemma publish_genuine:
  assumes "msgpack_ok M" and "collect_publish D M (log_net N) clk i ns (cl_node c i) = Inr g"
    and "gp_store (cl_node c i) \<noteq> None" and "ns_NodeID ns = i" and "honest M c"
  shows "honest M ((at_node i g c)\<lparr>cl_pubs := (cl_pubs c)(i := cl_pubs c i @ [ns])\<rparr>)"
proof -
  let ?P = "(cl_pubs c)(i := cl_pubs c i @ [ns])"
  have grown: "honest M (c\<lparr>cl_pubs := ?P\<rparr>)" using assms(5) by (rule honest_grows) auto
  have new: "genuine (?P i) ns" by (rule genuine_published) simp
  have "known g = (known (cl_node c i))(i := Some ns)"
    using publish_ok [OF assms(3), of D M "log_net N" clk i ns] assms(2,4)
    by (auto simp: known_def UpdateLocalNode_def GetNode_put_node fun_eq_iff)
  with new honestD(1) [OF assms(5), of i] have "genuine (?P n) e" if "known g n = Some e" for n e
    using that by (cases "n = i") (simp_all add: entries_genuine_def)
  then have "entries_genuine ?P g" by (simp add: entries_genuine_def)
  moreover have "states_genuine ?P M b"
    if enc: "encode_gossip M (clk 4) MsgNodeState (gp_localNode (cl_node c i)) (PNodeState \<lparr>np_State = Some ns\<rparr>) = Inr b" for b
  proof -
    obtain r where r: "carried M b = [Some r]" "ns_view r = ns_view ns" using carried_state [OF assms(1) enc] by blast
    from genuine_view [OF r(2)] ns_view_NodeID [OF r(2)] new assms(4) r(1) show ?thesis
      by (simp add: states_genuine_def)
  qed
  ultimately have "honest M (at_node i g (c\<lparr>cl_pubs := ?P\<rparr>))"
    using logged.publish_sends [OF assms(2)] by (intro honest_at_node [OF grown]) (auto simp: logged_data_def split_beta)
  then show ?thesis by (simp add: honest_def wire_def at_node_def)
qed

lemma honest_same_entries:
  assumes "honest M c" and "known g = known (cl_node c i) \<and> same_store (cl_node c i) g"
    and "(case gp_list g of (s, log) \<Rightarrow> set log) \<subseteq> (case gp_list (cl_node c i) of (s, log) \<Rightarrow> set log) \<union> B"
    and "\<And>b. b \<in> B \<Longrightarrow> states_genuine (cl_pubs c) M b"
  shows "honest M (at_node i g c)"
proof (rule honest_at_node [OF assms(1) _ _ assms(4)])
  show "entries_genuine (cl_pubs c) g"
    using honestD(1) [OF assms(1), of i] assms(2) by (simp add: entries_genuine_def)
  show "logged_data g \<subseteq> logged_data (cl_node c i) \<union> B" using assms(3) by (simp add: logged_data_def split_beta)
qed

lemma honest_step:
  assumes "cluster_step D M N c c'" and "msgpack_ok M" and "honest M c"
    and "\<And>n. lined (cl_pubs c n)" and "\<forall>n. \<forall>p \<in> set (cl_pubs c n). ns_NodeID p = n"
    and "\<And>i. gp_store (cl_node c i) \<noteq> None" and "\<And>i ns. cl_pend c i = Some ns \<Longrightarrow> ns_NodeID ns = i"
  shows "honest M c'"
  using assms(1,3-)
proof (induction rule: cluster_step.induct)
  case (prepares c i clk probe pend)
  then show ?case by (simp add: honest_def wire_def)
next
  case (publishes c i ns clk g)
  from publish_genuine [OF assms(2) publishes.hyps(2) publishes.prems(4,5,1)] publishes.hyps(1)
  show ?case by (simp add: honest_def wire_def)
next
  case (receives data c clk i g)
  note h = honestD [OF receives.prems(1)]
  from message_genuine [OF receives.hyps(2) receives.prems(2) h(2) [OF receives.hyps(1)] h(1)]
    logged.message_sends [OF assms(2) receives.hyps(2) [unfolded NotifyMsg_def]]
  show ?case by (intro honest_at_node [OF receives.prems(1)]) (auto simp: logged_data_def split_beta quiet_genuine)
next
  case (exchanges data c clk join i g)
  note h = honestD [OF exchanges.prems(1)]
  have "gp_list g = gp_list (cl_node c i)"
    using MergeRemoteState_merges [OF exchanges.hyps(2)] merge_all_frame by blast
  with exchange_genuine [OF exchanges.hyps(2) exchanges.prems(2) h(2) [OF exchanges.hyps(1)] h(1)]
  show ?case by (intro honest_at_node [OF exchanges.prems(1), where B = "{}"]) (auto simp: logged_data_def)
next
  case (pushes now join c i data)
  note h = honestD [OF pushes.prems(1)]
  from sync_genuine [OF assms(2) h(1) pushes.prems(3) pushes.hyps [unfolded LocalState_def]] h
  show ?case by (auto simp: honest_def wire_def)
next
  case (departs c i now node)
  note h = honestD(1) [OF departs.prems(1), of i]
  then have "entries_genuine (cl_pubs c) (NotifyLeave D now node (cl_node c i))"
    by (auto simp: entries_genuine_def known_leave genuine_inactive split: if_splits)
  then show ?case
    by (intro honest_at_node [OF departs.prems(1), where B = "{}"]) (auto simp: logged_data_def leave_list)
next
  case (ticks c i now idx)
  from honest_same_entries [OF ticks.prems(1) entropy_entries logged.tick_sends]
    sync_genuine [OF assms(2) honestD(1) [OF ticks.prems(1)] ticks.prems(3)]
  show ?case by blast
next
  case (drains overhead limit c i bs g)
  from honest_same_entries [OF drains.prems(1) drain_entries [OF drains.hyps] logged.drain_sends [OF drains.hyps]]
  show ?case by simp
next
  case (works c i g)
  from honest_same_entries [OF works.prems(1) background_entries [OF works.hyps]
      logged.background_sends [OF assms(2) works.hyps]]
  show ?case by (simp add: quiet_genuine)
qed

text \<open>What is known of the nodes of a cluster apart from their entries.\<close>

lemma cluster_facts:
  assumes "cluster_run D M N c0 c" and "counters_positive c"
  shows "in_order (cl_pubs c n)" and "\<forall>p \<in> set (cl_pubs c n). ns_NodeID p = n \<and> gget (ns_Clock p) \<le> own_stamp n (cl_node c n)"
    and "gp_store (cl_node c n) \<noteq> None" and "cl_pend c n = Some ns \<Longrightarrow> ns_NodeID ns = n"
proof -
  have "gp_store (cl_node c0 n) \<noteq> None"
    using cluster_run_begins [OF assms(1)] by (simp add: cluster_begins_def)
  from node_run_inv [OF cluster_node_run [OF assms(1), of n] this] assms(2)
  have inv: "run_inv n (cl_pubs c n) (cl_pend c n) (cl_node c n)" by (simp add: counters_positive_def)
  then show "in_order (cl_pubs c n)" "gp_store (cl_node c n) \<noteq> None" by (simp_all add: run_inv_def in_order_def)
  show "\<forall>p \<in> set (cl_pubs c n). ns_NodeID p = n \<and> gget (ns_Clock p) \<le> own_stamp n (cl_node c n)"
    using inv by (simp add: run_inv_def)
  show "cl_pend c n = Some ns \<Longrightarrow> ns_NodeID ns = n" using inv by (simp add: run_inv_def)
qed

lemma counters_positive_step: "cluster_step D M N c c' \<Longrightarrow> counters_positive c' \<Longrightarrow> counters_positive c"
  by (induction rule: cluster_step.induct) (auto simp: counters_positive_def split: if_splits)

lemma cluster_honest:
  assumes "cluster_run D M N c0 c" and "msgpack_ok M" and "counters_positive c"
  shows "honest M c"
  using assms(1,3)
proof (induction rule: cluster_run.induct)
  case begins
  then show ?case by (simp add: honest_def wire_def entries_genuine_def cluster_begins_def)
next
  case (steps c c')
  note pos = counters_positive_step [OF steps.hyps(2) steps.prems]
  note facts = cluster_facts [OF steps.hyps(1) pos]
  show ?case
    by (rule honest_step [OF steps.hyps(2) assms(2) steps.IH [OF pos] _ _ facts(3,4)])
      (use facts(1,2) in_order_lined in blast)+
qed

lemma own_entry_last:
  assumes run: "cluster_run D M N c0 c" "counters_positive c" and msg: "msgpack_ok M"
    and e: "known (cl_node c i) i = Some e"
  shows "version e = version (last (cl_pubs c i))"
proof -
  note facts = cluster_facts [OF run, of i]
  have gen: "genuine (cl_pubs c i) e"
    using honestD(1) [OF cluster_honest [OF run(1) msg run(2)], of i] e by (simp add: entries_genuine_def)
  then have ne: "cl_pubs c i \<noteq> []" by (auto simp: genuine_def)
  obtain p where p: "p \<in> set (cl_pubs c i)" "version e = version p" using gen by (auto simp: genuine_def)
  have "ns_stamp p \<le> ns_stamp (last (cl_pubs c i))"
    using facts(1) p(1) by (cases "cl_pubs c i" rule: rev_cases) (auto simp: in_order_def sorted_wrt_append ns_stamp_def)
  moreover have "ns_stamp (last (cl_pubs c i)) \<le> ns_stamp e"
    using facts(2) ne e by (auto simp: own_stamp_entries ns_stamp_def)
  ultimately have "ns_stamp e = ns_stamp (last (cl_pubs c i))" using version_stamp [OF p(2)] by simp
  moreover have "ns_stamp e = ns_stamp p" using version_stamp [OF p(2)] .
  ultimately show ?thesis using in_order_same [OF facts(1) p(1) last_in_set [OF ne]] p(2) by simp
qed

lemma own_entry_known:
  assumes "cluster_run D M N c0 c" and "counters_positive c" and "cl_pubs c i \<noteq> []"
  shows "known (cl_node c i) i \<noteq> None"
proof
  assume none: "known (cl_node c i) i = None"
  let ?p = "last (cl_pubs c i)"
  have "gget (ns_Clock ?p) \<le> own_stamp i (cl_node c i)" "counter_positive i ?p"
    using cluster_facts(2) [OF assms(1,2), of i] assms(2,3) by (simp_all add: counters_positive_def list_all_iff)
  with none le_funD [of "gget (ns_Clock ?p)" Map.empty i] show False
    by (auto simp: own_stamp_entries counter_positive_def split: option.splits)
qed

section \<open>An exchange of cluster states\<close>

lemma sync_merges:
  assumes "msgpack_ok M" and "getClusterStateJSON M now h = Some data"
  shows "\<exists>g'. MergeRemoteState D M clk data join g = Inr g' \<and> merge_all D clk (carried M data) g = Inr g'"
proof -
  obtain msg payload where m: "DecodeMessage M data = Inr msg" "gm_Type msg = MsgClusterSync"
    "mp_UnmarshalClusterSync M (gm_Payload msg) = Inr payload"
    using sent_nodes [OF assms] by blast
  have "None \<notin> set (carried M data)" using sync_carries_entries(1) [OF assms] .
  then obtain g' where "merge_all D clk (carried M data) g = Inr g'"
    using merge_all_panics [of D clk "carried M data" g] by (cases "merge_all D clk (carried M data) g") auto
  then show ?thesis
    using m by (simp add: MergeRemoteState_def handleMergeRemoteState_def carried_def)
qed

text \<open>
  A node that merges the cluster state of another ends with the later of their two versions of
  every node. \<open>P\<close> are the published states, of which both hold genuine ones.
\<close>

lemma exchange_versions:
  assumes "msgpack_ok M" and "getClusterStateJSON M now h = Some data" and "entries_genuine P h"
    and "\<forall>n. \<forall>p \<in> set (P n). ns_NodeID p = n"
  shows "version ` {r. Some r \<in> set (carried M data) \<and> ns_NodeID r = n} = version ` set_option (known h n)"
proof (intro subset_antisym image_subsetI)
  have id: "ns_NodeID e = m" if "known h m = Some e" for m e
    using assms(3,4) that genuine_NodeID [of "P m" e m] by (simp add: entries_genuine_def)
  fix r
  assume "r \<in> {r. Some r \<in> set (carried M data) \<and> ns_NodeID r = n}"
  then obtain m e where e: "known h m = Some e" "ns_view r = ns_view e" "ns_NodeID r = n"
    using sync_carries_entries(2) [OF assms(1,2)] by blast
  then have "known h n = Some e" using id [OF e(1)] ns_view_NodeID [OF e(2)] by simp
  with version_view [OF e(2)] show "version r \<in> version ` set_option (known h n)" by simp
next
  fix e
  assume "e \<in> set_option (known h n)"
  then have e: "known h n = Some e" by (simp add: elem_set)
  then have "ns_NodeID e = n" using assms(3,4) genuine_NodeID [of "P n" e n] by (simp add: entries_genuine_def)
  moreover obtain r where r: "Some r \<in> set (carried M data)" "ns_view r = ns_view e"
    using sync_carries_entries(3) [OF assms(1,2) e] by blast
  ultimately have "r \<in> {r. Some r \<in> set (carried M data) \<and> ns_NodeID r = n}"
    using ns_view_NodeID [OF r(2)] by simp
  then have "version r \<in> version ` {r. Some r \<in> set (carried M data) \<and> ns_NodeID r = n}" by (rule imageI)
  then show "version e \<in> version ` {r. Some r \<in> set (carried M data) \<and> ns_NodeID r = n}"
    unfolding version_view [OF r(2)] .
qed

lemma exchange_newest:
  assumes "msgpack_ok M" and "getClusterStateJSON M now h = Some data" and "lined (P n)" and "told_apart (P n)"
    and "\<forall>n. \<forall>p \<in> set (P n). ns_NodeID p = n" and "entries_genuine P g" and "entries_genuine P h"
    and "merge_all D clk (carried M data) g = Inr g'"
  shows "case known g' n of
      None \<Rightarrow> known g n = None \<and> known h n = None
    | Some l \<Rightarrow> ver.newest (set_option (known g n) \<union> set_option (known h n)) l"
proof -
  obtain xs where xs: "merge_nodes D xs (gp_sm g, gp_store g) = Inr (gp_sm g', gp_store g')"
    "snd ` set xs = set (carried M data)" using merge_all_nodes [OF assms(8)] by metis
  let ?U = "set_option (known g n)" and ?R = "{r. Some r \<in> set (carried M data) \<and> ns_NodeID r = n}"
  have R: "received xs n = ?R" by (simp add: received_def xs(2))
  have "states_genuine P M data" using sync_genuine [OF assms(1,7,5,2)] .
  then have "genuine (P n) x" if "x \<in> ?U \<union> ?R" for x
    using that assms(6) by (auto simp: states_genuine_def entries_genuine_def elem_set)
  then have chain: "ver.chain (?U \<union> ?R)" by (rule genuine_chain [OF assms(3,4)])
  have start: "case GetNode n (gp_sm g) of None \<Rightarrow> ?U = {} | Some l \<Rightarrow> ver.newest ?U l"
    by (cases "GetNode n (gp_sm g)") (simp_all add: known_def ver.newest_def)
  have same: "version ` (?U \<union> ?R) = version ` (?U \<union> set_option (known h n))"
    using exchange_versions [OF assms(1,2,7,5)] by (simp add: image_Un)
  show ?thesis
  proof (cases "known g' n")
    case None
    with ver.merge_nodes_newest [OF xs(1) chain [folded R] start] R same show ?thesis
      by (cases "known h n") (auto simp: known_def)
  next
    case (Some l)
    with ver.merge_nodes_newest [OF xs(1) chain [folded R] start] R
    have "ver.newest (?U \<union> ?R) l" by (simp add: known_def)
    from ver.newest_cong [OF this same] Some show ?thesis by simp
  qed
qed

text \<open>No genuine state is later than the last published one.\<close>

lemma newest_last:
  assumes "in_order pubs" and "\<And>x. x \<in> U \<Longrightarrow> genuine pubs x" and "e \<in> U" and "version e = version (last pubs)"
    and "ver.newest U l"
  shows "version l = version (last pubs)"
proof -
  obtain m where m: "m \<in> U" "version l = version m" "\<forall>x \<in> U. ns_stamp x \<le> ns_stamp m"
    using assms(5) ns_age_stamp unfolding ver.newest_def by blast
  obtain p where p: "p \<in> set pubs" "version m = version p"
    using assms(2) [OF m(1)] by (auto simp: genuine_def)
  have "ns_stamp p \<le> ns_stamp (last pubs)"
    using assms(1) p(1) by (cases pubs rule: rev_cases) (auto simp: in_order_def sorted_wrt_append ns_stamp_def)
  with m(3) assms(3) version_stamp [OF assms(4)] version_stamp [OF p(2)] have "ns_stamp m = ns_stamp e"
    by (intro antisym) auto
  moreover from assms(2,3) have "pubs \<noteq> []" by (auto simp: genuine_def)
  ultimately show ?thesis
    using in_order_same [OF assms(1) p(1) last_in_set] version_stamp [OF p(2)] version_stamp [OF assms(4)] m(2) p(2) by simp
qed

lemma newest_agree:
  assumes "case x of None \<Rightarrow> a = None \<and> b = None | Some l \<Rightarrow> ver.newest (set_option a \<union> set_option b) l"
    and "case y of None \<Rightarrow> b = None \<and> a = None | Some l \<Rightarrow> ver.newest (set_option b \<union> set_option a) l"
    and "ver.chain (set_option a \<union> set_option b)"
  shows "map_option version x = map_option version y"
  using assms ver.newest_unique [OF assms(3)]
  by (auto simp: Un_commute ver.newest_def split: option.splits)

text \<open>A node that another does not know any more gets back its own entry from it.\<close>

lemma exchange_returns_own:
  assumes "msgpack_ok M" and "nodes_keyed (gp_sm h)" and "getClusterStateJSON M now h = Some data"
    and "known h n = Some e" and "known g n = None"
  shows "\<exists>g1 e1. MergeRemoteState D M clk data join g = Inr g1 \<and> same_store g g1 \<and> known g1 n = Some e1 \<and>
    ns_view e1 = ns_view e"
proof -
  obtain g1 where g1: "MergeRemoteState D M clk data join g = Inr g1" "merge_all D clk (carried M data) g = Inr g1"
    using sync_merges [OF assms(1,3)] by blast
  obtain xs where xs: "merge_nodes D xs (gp_sm g, gp_store g) = Inr (gp_sm g1, gp_store g1)"
    "snd ` set xs = set (carried M data)" using merge_all_nodes [OF g1(2)] by metis
  have keyed: "ns_NodeID x = m" if "known h m = Some x" for m x
    using assms(2) that by (simp add: nodes_keyed_def known_def)
  have own: "ns_view r = ns_view e" if "r \<in> received xs n" for r
  proof -
    have r: "Some r \<in> set (carried M data)" "ns_NodeID r = n" using that xs(2) by (auto simp: received_def)
    obtain m x where x: "known h m = Some x" "ns_view r = ns_view x"
      using sync_carries_entries(2) [OF assms(1,3) r(1)] by blast
    have "m = n" using keyed [OF x(1)] ns_view_NodeID [OF x(2)] r(2) by simp
    with x assms(4) show ?thesis by simp
  qed
  then have "ns_stamp r = ns_stamp e" if "r \<in> received xs n" for r
    using that ns_stamp_view by blast
  with own have chain: "reg.chain ({} \<union> received xs n)" by (simp add: reg.chain_def)
  obtain r where r: "Some r \<in> set (carried M data)" "ns_view r = ns_view e"
    using sync_carries_entries(3) [OF assms(1,3,4)] by blast
  have "r \<in> received xs n"
    using r(1) keyed [OF assms(4)] ns_view_NodeID [OF r(2)] by (simp add: received_def xs(2))
  with reg.merge_nodes_newest [OF xs(1) chain] assms(5) obtain e1 where
    "known g1 n = Some e1" "reg.newest (received xs n) e1"
    by (auto simp: known_def split: option.splits)
  moreover from this(2) obtain m where "m \<in> received xs n" "ns_view e1 = ns_view m"
    by (auto simp: reg.newest_def)
  moreover from own [OF this(1)] this(2) have "ns_view e1 = ns_view e" by simp
  ultimately show ?thesis
    using g1(1) merge_all_frame [OF g1(2)] by (intro exI [where x = g1], intro exI [where x = e1]) simp
qed

section \<open>A sample cluster\<close>

definition blank_node :: "string \<Rightarrow> ((string \<times> wire) list \<times> wire list, memdb) gossip" where
  "blank_node i = \<lparr>gp_list = ([], []), gp_sm = NewStateManager 0 ''c'' i, gp_localNode = i,
     gp_store = Some (mem_with []), gp_pendingSyncs = mempty, gp_heap = mempty, gp_go = []\<rparr>"

definition sample_cluster :: "((string \<times> wire) list, wire, memdb) cluster" where
  "sample_cluster = \<lparr>cl_node = blank_node, cl_pend = (\<lambda>_. None), cl_pubs = (\<lambda>_. []), cl_pushed = {}\<rparr>"

lemma blank_node_simps [simp]: "GetNode n (gp_sm (blank_node i)) = None" "gp_store (blank_node i) = Some (mem_with [])"
  by (simp_all add: blank_node_def NewStateManager_def GetNode_def)

lemma sample_cluster_begins: "cluster_begins sample_cluster"
  by (simp add: cluster_begins_def sample_cluster_def logged_data_def known_def) (simp add: blank_node_def)

text \<open>Node a publishes one state.\<close>

lemma sample_published:
  "\<exists>c u. cluster_run mem_gorm wire_pack (box_net two_members) sample_cluster c \<and> cl_pubs c ''a'' = [u] \<and>
     counters_positive c \<and> nodes_keyed (gp_sm (cl_node c ''a'')) \<and> GetNode ''a'' (gp_sm (cl_node c ''a'')) = Some u \<and>
     cl_node c ''b'' = blank_node ''b''"
proof -
  let ?N = "log_net (box_net two_members)" and ?g = "blank_node ''a''"
  have "recovered_clock mem_gorm ''a'' (Some mempty) ?g = Inr (Some mempty)"
    by (simp add: recovered_clock_def store_node_def GetNodeState_def mem_defs mem_with_def)
  then obtain u g' where u: "collect_prepare mem_gorm int ''a'' sample_probe ?g = Inr (Some u)"
    "collect_publish mem_gorm wire_pack ?N int ''a'' u ?g = Inr g'" "GetNode ''a'' (gp_sm g') = Some u"
    "gget (ns_Clock u) = (mget mempty)(''a'' \<mapsto>
      i64_inc (case mget mempty ''a'' of None \<Rightarrow> i64_of 0 | Some v \<Rightarrow> v))" "ns_NodeID u = ''a''"
    using collect_one [of ?g mem_gorm "''a''" mempty wire_pack ?N] by auto
  let ?c1 = "sample_cluster\<lparr>cl_pend := (cl_pend sample_cluster)(''a'' := Some u)\<rparr>"
  let ?c2 = "(at_node ''a'' g' ?c1)\<lparr>cl_pend := (cl_pend ?c1)(''a'' := None),
    cl_pubs := (cl_pubs ?c1)(''a'' := cl_pubs ?c1 ''a'' @ [u])\<rparr>"
  have "cluster_step mem_gorm wire_pack (box_net two_members) sample_cluster ?c1"
    using u(1) by (intro cluster_step.prepares) (simp_all add: sample_cluster_def)
  moreover have "cluster_step mem_gorm wire_pack (box_net two_members) ?c1 ?c2"
    using u(2) by (intro cluster_step.publishes) (simp_all add: sample_cluster_def)
  ultimately have run: "cluster_run mem_gorm wire_pack (box_net two_members) sample_cluster ?c2"
    using cluster_run.begins [OF sample_cluster_begins] cluster_run.steps by blast
  have "gp_sm g' = UpdateLocalNode (int 3) u (gp_sm ?g)"
    using publish_ok [of ?g mem_gorm wire_pack ?N int "''a''" u] u(2) by auto
  then have "nodes_keyed (gp_sm g')"
    using u(5) by (auto simp: nodes_keyed_def UpdateLocalNode_def GetNode_put_node)
  moreover have "counters_positive ?c2"
    using u(4) by (auto simp: counters_positive_def sample_cluster_def counter_positive_def i64_inc_of_int i64_int_of)
  ultimately show ?thesis using run u(3) by (intro exI [where x = ?c2], intro exI [where x = u]) (simp add: sample_cluster_def)
qed

lemma wire_local_state: "\<exists>data. LocalState wire_pack now join g = Some data"
  by (simp add: LocalState_def getClusterStateJSON_def EncodePayload_def EncodeMessage_def wire_pack_def Let_def)

end
