(* ===== verification/ClusterLife.thy ===== *)
theory ClusterLife
  imports Cluster
begin

text \<open>
  Clusters whose nodes crash and restart. The store does not keep clocks (the column is excluded),
  so a restarted node begins with an empty one and may publish states with clocks it has used
  before. What survives: every entry was published by its node, and an exchange makes two nodes agree.
\<close>

section \<open>Restarts\<close>

text \<open>
  A node may crash at any moment and begins again without entries; what it has sent is still on the
  wire, and a collection that it had not published is lost.
\<close>

inductive cluster_life ::
    "'db gorm \<Rightarrow> 'b msgpack \<Rightarrow> ('m, 'b) net \<Rightarrow> ('m, 'b, 'db) cluster \<Rightarrow> ('m, 'b, 'db) cluster \<Rightarrow> bool"
  for D :: "'db gorm" and M :: "'b msgpack" and N :: "('m, 'b) net" and c0 :: "('m, 'b, 'db) cluster" where
  lives: "cluster_begins c0 \<Longrightarrow> cluster_life D M N c0 c0"
| moves: "cluster_life D M N c0 c \<Longrightarrow> cluster_step D M N c c' \<Longrightarrow> cluster_life D M N c0 c'"
| restarts: "cluster_life D M N c0 c \<Longrightarrow> gp_store g \<noteq> None \<Longrightarrow> logged_data g = {} \<Longrightarrow> \<forall>n. known g n = None \<Longrightarrow>
     cluster_life D M N c0 ((at_node i g c)\<lparr>cl_pend := (cl_pend c)(i := None),
       cl_pushed := cl_pushed c \<union> logged_data (cl_node c i)\<rparr>)"

lemma run_is_life: "cluster_run D M N c0 c \<Longrightarrow> cluster_life D M N c0 c"
  by (induction rule: cluster_run.induct) (auto intro: cluster_life.lives cluster_life.moves)

text \<open>What is relied on: a node state that is read from the store has no clock.\<close>

definition clocks_not_stored :: "'db gorm \<Rightarrow> bool" where
  "clocks_not_stored D \<longleftrightarrow> (\<forall>n d ns. GetNodeState D n d = Inr ns \<longrightarrow> ns_Clock ns = None)"

lemma mem_clocks_not_stored: "clocks_not_stored mem_gorm"
  by (auto simp: clocks_not_stored_def GetNodeState_def mem_gorm_def stored_node_def split: if_splits option.splits)

section \<open>The clocks of a node\<close>

text \<open>A node counts in its own component only, so that its clocks are ordered.\<close>

definition own_clocked :: "string \<Rightarrow> NodeState \<Rightarrow> bool" where
  "own_clocked n ns \<longleftrightarrow> dom (ns_stamp ns) = {n}"

lemma own_clocked_lined:
  assumes "\<forall>p \<in> set pubs. own_clocked n p"
  shows "lined pubs"
  unfolding lined_def
proof (intro ballI)
  fix x y
  assume "x \<in> set pubs" "y \<in> set pubs"
  with assms have "dom (ns_stamp x) = {n}" "dom (ns_stamp y) = {n}" by (simp_all add: own_clocked_def)
  then obtain a b where "ns_stamp x = [n \<mapsto> a]" "ns_stamp y = [n \<mapsto> b]" using dom_eq_singleton_conv by metis
  then show "ns_stamp x \<le> ns_stamp y \<or> ns_stamp y \<le> ns_stamp x" using linear [of a b] by (auto simp: le_fun_def)
qed

lemma genuine_own_clocked: "genuine pubs e \<Longrightarrow> \<forall>p \<in> set pubs. own_clocked n p \<Longrightarrow> own_clocked n e"
  unfolding own_clocked_def by (elim genuineE) simp

lemma recovered_dom:
  assumes "clocks_not_stored D" and "\<And>e. known g n = Some e \<Longrightarrow> own_clocked n e"
    and "recovered_clock D n (Some mempty) g = Inr (Some c1)"
  shows "dom (mget c1) \<subseteq> {n}"
proof (cases "known g n")
  case (Some e)
  then have "Merge (Some mempty) (ns_Clock e) = Inr (Some c1)"
    using assms(3) by (simp add: recovered_clock_def known_def)
  from gget_Merge [OF this] have "mget c1 = ns_stamp e" by (simp add: gget_Some ns_stamp_def sup_fun_def fun_eq_iff)
  with assms(2) [OF Some] show ?thesis by (simp add: own_clocked_def)
next
  case None
  have "mget c1 = Map.empty"
    using assms(1,3) None gget_Merge [of "Some mempty" None "Some c1"]
    by (auto simp: recovered_clock_def known_def store_node_def clocks_not_stored_def gget_Some sup_fun_def
        split: option.splits sum.splits)
  then show ?thesis by simp
qed

lemma prepared_own_clocked:
  assumes "clocks_not_stored D" and "\<And>e. known g n = Some e \<Longrightarrow> own_clocked n e" and "gp_store g \<noteq> None"
    and "collect_prepare D clk n probe g = Inr (Some ns)"
  shows "ns_NodeID ns = n \<and> own_clocked n ns"
proof -
  obtain hm where hm: "GetHostMonitor probe = Inr hm"
    using assms(4) by (auto simp: collect_prepare_def split: sum.splits)
  obtain c1 m where c: "recovered_clock D n (Some mempty) g = Inr (Some c1)" "Increment (Some c1) n = Inr (Some m)"
    "ns_Clock ns = Some m"
    by (rule prepare_ok [OF hm assms(3), where D = D and n = n and clk = clk]) (use assms(4) in auto)
  from gget_Increment [OF c(2)] recovered_dom [OF assms(1,2) c(1)]
  have "dom (mget m) = {n}" by (auto simp: gget_Some)
  then show ?thesis
    using prepare_step [OF assms(3,4)] by (simp add: own_clocked_def ns_stamp_def c(3) gget_Some)
qed

section \<open>The invariant\<close>

definition life_inv :: "'b msgpack \<Rightarrow> ('m, 'b, 'db) cluster \<Rightarrow> bool" where
  "life_inv M c \<longleftrightarrow> honest M c \<and> (\<forall>n. gp_store (cl_node c n) \<noteq> None) \<and>
     (\<forall>n. \<forall>p \<in> set (cl_pubs c n) \<union> set_option (cl_pend c n). ns_NodeID p = n \<and> own_clocked n p)"

lemma life_invD:
  assumes "life_inv M c"
  shows "honest M c" and "gp_store (cl_node c n) \<noteq> None" and "lined (cl_pubs c n)"
    and "\<forall>n. \<forall>p \<in> set (cl_pubs c n). ns_NodeID p = n" and "cl_pend c n = Some ns \<Longrightarrow> ns_NodeID ns = n \<and> own_clocked n ns"
    and "known (cl_node c i) n = Some e \<Longrightarrow> own_clocked n e"
proof -
  show "honest M c" "gp_store (cl_node c n) \<noteq> None" "\<forall>n. \<forall>p \<in> set (cl_pubs c n). ns_NodeID p = n"
    and "cl_pend c n = Some ns \<Longrightarrow> ns_NodeID ns = n \<and> own_clocked n ns"
    using assms by (auto simp: life_inv_def)
  have all: "\<forall>p \<in> set (cl_pubs c n). own_clocked n p" using assms by (simp add: life_inv_def)
  then show "lined (cl_pubs c n)" by (rule own_clocked_lined)
  show "own_clocked n e" if "known (cl_node c i) n = Some e"
    using that honestD(1) [OF \<open>honest M c\<close>, of i] genuine_own_clocked [OF _ all] by (simp add: entries_genuine_def)
qed

lemma store_step:
  assumes "cluster_step D M N c c'" and "gp_store (cl_node c n) \<noteq> None"
  shows "gp_store (cl_node c' n) \<noteq> None"
  using assms
proof (induction rule: cluster_step.induct)
  case (publishes c i ns clk g)
  with publish_ok [of "cl_node c i" D M "log_net N" clk i ns] show ?case by auto
next
  case (receives data c clk i g)
  with own_stamp_message [of D M "log_net N" clk data "cl_node c i" g] show ?case by (auto simp: NotifyMsg_def)
next
  case (exchanges data c clk join i g)
  with own_stamp_exchange [OF exchanges.hyps(2)] show ?case by auto
next
  case (departs c i now node)
  with leave_store [where g = "cl_node c i" and D = D and now = now and node = node] show ?case by auto
next
  case (ticks c i now idx)
  with entropy_entries [of M "log_net N" now idx "cl_node c i"] show ?case by auto
next
  case (drains overhead limit c i bs g)
  with drain_entries [OF drains.hyps] show ?case by auto
next
  case (works c i g)
  with background_entries [OF works.hyps] show ?case by auto
qed simp_all

lemma states_step:
  assumes "cluster_step D M N c c'" and "clocks_not_stored D" and "life_inv M c"
    and "p \<in> set (cl_pubs c' n) \<union> set_option (cl_pend c' n)"
  shows "ns_NodeID p = n \<and> own_clocked n p"
  using assms(1,3,4)
proof (induction rule: cluster_step.induct)
  case (prepares c i clk probe pend)
  note inv = life_invD [OF prepares.prems(1)]
  show ?case
  proof (cases "n = i \<and> pend = Some p")
    case True
    with prepared_own_clocked [OF assms(2) inv(6,2)] prepares.hyps(2) show ?thesis by simp
  next
    case False
    with prepares.prems show ?thesis by (auto simp: life_inv_def split: if_splits)
  qed
next
  case (publishes c i ns clk g)
  with life_invD(5) [OF publishes.prems(1) publishes.hyps(1)] show ?case by (auto simp: life_inv_def split: if_splits)
qed (simp_all add: life_inv_def)

lemma life_step:
  assumes "cluster_step D M N c c'" and "msgpack_ok M" and "clocks_not_stored D" and "life_inv M c"
  shows "life_inv M c'"
  unfolding life_inv_def
proof (intro conjI allI ballI)
  note inv = life_invD [OF assms(4)]
  show "honest M c'" using honest_step [OF assms(1,2) inv(1) inv(3,4,2)] inv(5) by blast
  show "gp_store (cl_node c' n) \<noteq> None" for n using store_step [OF assms(1) inv(2)] .
  show "ns_NodeID p = n" "own_clocked n p" if "p \<in> set (cl_pubs c' n) \<union> set_option (cl_pend c' n)" for n p
    using states_step [OF assms(1,3,4) that] by simp_all
qed

lemma life_restart:
  assumes "life_inv M c" and "gp_store g \<noteq> None" and "logged_data g = {}" and "\<forall>n. known g n = None"
  shows "life_inv M ((at_node i g c)\<lparr>cl_pend := (cl_pend c)(i := None),
    cl_pushed := cl_pushed c \<union> logged_data (cl_node c i)\<rparr>)"
proof -
  let ?c = "(at_node i g c)\<lparr>cl_pend := (cl_pend c)(i := None), cl_pushed := cl_pushed c \<union> logged_data (cl_node c i)\<rparr>"
  have "wire ?c \<subseteq> wire c" using assms(3) by (auto simp: wire_def split: if_splits)
  with life_invD(1) [OF assms(1)] assms(4) have "honest M ?c"
    by (auto simp: honest_def entries_genuine_def)
  with assms(1,2) show ?thesis by (auto simp: life_inv_def)
qed

lemma life_invariant:
  assumes "cluster_life D M N c0 c" and "msgpack_ok M" and "clocks_not_stored D"
  shows "life_inv M c"
  using assms(1)
proof (induction rule: cluster_life.induct)
  case lives
  then show ?case by (simp add: life_inv_def honest_def wire_def entries_genuine_def cluster_begins_def)
next
  case (moves c c')
  from life_step [OF moves.hyps(2) assms(2,3) moves.IH] show ?case .
next
  case (restarts c g i)
  from life_restart [OF restarts.IH restarts.hyps(2-4)] show ?case .
qed

section \<open>Properties of a cluster\<close>

text \<open>
  C1: in every state that a cluster reaches, whatever its network loses, repeats or reorders and
  however often its nodes crash and restart, every entry that any node holds of another is, but for
  its status, a state which that node has published, and its status is the published one or
  \<^verbatim>\<open>inactive\<close>.
\<close>

theorem cluster_entries_genuine:
  assumes "msgpack_ok M" and "clocks_not_stored D" and "cluster_life D M N c0 c"
    and "GetNode n (gp_sm (cl_node c i)) = Some e"
  shows "\<exists>p \<in> set (cl_pubs c n). version e = version p \<and> (ns_Status e = ns_Status p \<or> ns_Status e = ''inactive'')"
  using honestD(1) [OF life_invD(1) [OF life_invariant [OF assms(3,1,2)]], of i] assms(4)
  by (simp add: entries_genuine_def genuine_def known_def)

theorem cluster_entries_genuine_witness:
  "\<exists>c u e. cluster_life mem_gorm wire_pack (box_net two_members) sample_cluster c \<and> cl_pubs c ''a'' = [u] \<and>
     GetNode ''a'' (gp_sm (cl_node c ''a'')) = None \<and> GetNode ''a'' (gp_sm (cl_node c ''b'')) = Some e \<and> version e = version u"
proof -
  let ?life = "cluster_life mem_gorm wire_pack (box_net two_members) sample_cluster"
  obtain c u where c: "cluster_run mem_gorm wire_pack (box_net two_members) sample_cluster c" "cl_pubs c ''a'' = [u]"
    "nodes_keyed (gp_sm (cl_node c ''a''))" "GetNode ''a'' (gp_sm (cl_node c ''a'')) = Some u"
    "cl_node c ''b'' = blank_node ''b''" using sample_published by blast
  obtain data where d: "LocalState wire_pack 0 True (cl_node c ''a'') = Some data" using wire_local_state by blast
  have "known (cl_node c ''a'') ''a'' = Some u" "known (blank_node ''b'') ''a'' = None"
    using c(4) by (simp_all add: known_def)
  then obtain g1 e where g1: "MergeRemoteState mem_gorm wire_pack int data True (blank_node ''b'') = Inr g1"
    "GetNode ''a'' (gp_sm g1) = Some e"
    using exchange_returns_own [OF wire_pack_ok c(3) d [unfolded LocalState_def]] unfolding known_def by blast
  let ?c1 = "c\<lparr>cl_pushed := insert data (cl_pushed c)\<rparr>"
  let ?c2 = "(at_node ''a'' (blank_node ''a'') ?c1)\<lparr>cl_pend := (cl_pend ?c1)(''a'' := None),
    cl_pushed := cl_pushed ?c1 \<union> logged_data (cl_node ?c1 ''a'')\<rparr>"
  let ?c3 = "at_node ''b'' g1 ?c2"
  have "?life ?c1" using cluster_life.moves [OF run_is_life [OF c(1)] cluster_step.pushes [OF d]] .
  from cluster_life.restarts [OF this, of "blank_node ''a''" "''a''"] have "?life ?c2"
    by (simp add: logged_data_def known_def) (simp add: blank_node_def)
  moreover have "cluster_step mem_gorm wire_pack (box_net two_members) ?c2 ?c3"
    using g1(1) c(5) by (intro cluster_step.exchanges [of data]) (simp_all add: wire_def)
  ultimately have life: "?life ?c3" by (rule cluster_life.moves)
  have e: "GetNode ''a'' (gp_sm (cl_node ?c3 ''b'')) = Some e" "cl_pubs ?c3 ''a'' = [u]"
    "GetNode ''a'' (gp_sm (cl_node ?c3 ''a'')) = None" using g1(2) c(2) by simp_all
  from cluster_entries_genuine [OF wire_pack_ok mem_clocks_not_stored life e(1)] e(2)
  have "version e = version u" by simp
  with life e show ?thesis
    by - (rule exI [where x = ?c3], rule exI [where x = u], rule exI [where x = e], simp)
qed

text \<open>The latest version among some states of a node: the highest clock, and then the latest time.\<close>

definition latest :: "NodeState set \<Rightarrow> NodeState \<Rightarrow> bool" where
  "latest U e \<longleftrightarrow> (\<exists>m \<in> U. version e = version m \<and>
     (\<forall>x \<in> U. gget (ns_Clock x) < gget (ns_Clock m) \<or>
        gget (ns_Clock x) = gget (ns_Clock m) \<and> ns_LastUpdated x \<le> ns_LastUpdated m))"

lemma newest_latest: "ver.newest = latest"
  by (simp add: latest_def ver.newest_def ns_age_le ns_stamp_def fun_eq_iff)

lemma run_told_apart: "cluster_run D M N c0 c \<Longrightarrow> counters_positive c \<Longrightarrow> told_apart (cl_pubs c n)"
  using cluster_facts(1) in_order_lined by blast

text \<open>Without restarts the exchange brings each of the two its partner's last published state.\<close>

lemma exchange_last:
  assumes "msgpack_ok M" and "cluster_run D M N c0 c" and "counters_positive c" and "cl_pubs c k \<noteq> []"
    and "known (cl_node c k) k = None \<or> the (known (cl_node c k) k) \<in> U" and "\<And>x. x \<in> U \<Longrightarrow> genuine (cl_pubs c k) x"
    and "ver.newest U l"
  shows "version l = version (last (cl_pubs c k))"
proof -
  obtain e where e: "known (cl_node c k) k = Some e" using own_entry_known [OF assms(2,3,4)] by blast
  with assms(5) have "e \<in> U" by simp
  with newest_last [OF cluster_facts(1) [OF assms(2,3)] assms(6) _ own_entry_last [OF assms(2,3,1) e] assms(7)]
  show ?thesis by simp
qed

text \<open>
  C2: when two nodes of a cluster exchange their states by a push-pull, both end with the same
  version of every node, the later one of the two they had, and neither can crash on the other's
  state. Nodes may have restarted, as long as no two states that a node has published have the same
  clock and the same time. Without restarts each of the two holds the last state of the other.
\<close>

theorem push_pull_agrees:
  assumes "msgpack_ok M" and "clocks_not_stored D" and "cluster_life D M N c0 c" and "\<And>n. told_apart (cl_pubs c n)"
    and "LocalState M now join (cl_node c i) = Some bi" and "LocalState M now' join (cl_node c j) = Some bj"
  shows "\<exists>gi gj. MergeRemoteState D M clk bj join (cl_node c i) = Inr gi \<and>
    MergeRemoteState D M clk' bi join (cl_node c j) = Inr gj \<and>
    (\<forall>n. map_option version (GetNode n (gp_sm gi)) = map_option version (GetNode n (gp_sm gj)) \<and>
       (case GetNode n (gp_sm gi) of
          None \<Rightarrow> GetNode n (gp_sm (cl_node c i)) = None \<and> GetNode n (gp_sm (cl_node c j)) = None
        | Some e \<Rightarrow> latest (set_option (GetNode n (gp_sm (cl_node c i))) \<union>
                            set_option (GetNode n (gp_sm (cl_node c j)))) e)) \<and>
    (\<forall>k \<in> {i, j}. cluster_run D M N c0 c \<and> counters_positive c \<and> cl_pubs c k \<noteq> [] \<longrightarrow>
       map_option version (GetNode k (gp_sm gi)) = Some (version (last (cl_pubs c k))))"
proof -
  note pull = assms(5,6) [unfolded LocalState_def]
  note inv = life_invD [OF life_invariant [OF assms(3,1,2)]] and gens = honestD(1) [OF life_invD(1) [OF life_invariant [OF assms(3,1,2)]]]
  obtain gi where gi: "MergeRemoteState D M clk bj join (cl_node c i) = Inr gi"
    "merge_all D clk (carried M bj) (cl_node c i) = Inr gi" using sync_merges [OF assms(1) pull(2)] by blast
  obtain gj where gj: "MergeRemoteState D M clk' bi join (cl_node c j) = Inr gj"
    "merge_all D clk' (carried M bi) (cl_node c j) = Inr gj" using sync_merges [OF assms(1) pull(1)] by blast
  note ni = exchange_newest [OF assms(1) pull(2) inv(3) assms(4) inv(4) gens gens gi(2)]
    and nj = exchange_newest [OF assms(1) pull(1) inv(3) assms(4) inv(4) gens gens gj(2)]
  let ?U = "\<lambda>n. set_option (known (cl_node c i) n) \<union> set_option (known (cl_node c j) n)"
  have gen: "genuine (cl_pubs c n) x" if "x \<in> ?U n" for n x
    using that gens by (auto simp: entries_genuine_def elem_set)
  have agree: "map_option version (known gi n) = map_option version (known gj n)" for n
    using newest_agree [OF ni nj genuine_chain [OF inv(3) assms(4) gen]] .
  have last: "map_option version (known gi k) = Some (version (last (cl_pubs c k)))"
    if k: "k \<in> {i, j}" "cluster_run D M N c0 c \<and> counters_positive c \<and> cl_pubs c k \<noteq> []" for k
  proof -
    have run: "cluster_run D M N c0 c" "counters_positive c" "cl_pubs c k \<noteq> []" using k(2) by simp_all
    obtain e where e: "known (cl_node c k) k = Some e" using own_entry_known [OF run] by blast
    with k(1) have mem: "e \<in> ?U k" by (auto simp: elem_set)
    with ni [of k] obtain l where l: "known gi k = Some l" "ver.newest (?U k) l"
      by (cases "known gi k") (auto simp: elem_set)
    have "version l = version (last (cl_pubs c k))"
      by (rule exchange_last [OF assms(1) run _ gen l(2)]) (use e mem in simp_all)
    with l(1) show ?thesis by simp
  qed
  have later: "case known gi n of None \<Rightarrow> known (cl_node c i) n = None \<and> known (cl_node c j) n = None
      | Some e \<Rightarrow> latest (?U n) e" for n
    using ni [of n] unfolding newest_latest .
  have "(\<forall>n. map_option version (known gi n) = map_option version (known gj n) \<and>
       (case known gi n of
          None \<Rightarrow> known (cl_node c i) n = None \<and> known (cl_node c j) n = None
        | Some e \<Rightarrow> latest (?U n) e)) \<and>
    (\<forall>k \<in> {i, j}. cluster_run D M N c0 c \<and> counters_positive c \<and> cl_pubs c k \<noteq> [] \<longrightarrow>
       map_option version (known gi k) = Some (version (last (cl_pubs c k))))"
    by (intro conjI allI ballI impI agree later) (rule last)
  with gi(1) gj(1) show ?thesis unfolding known_def by blast
qed

theorem push_pull_agrees_witness:
  "\<exists>c u da db gi gj. cluster_run mem_gorm wire_pack (box_net two_members) sample_cluster c \<and> cl_pubs c ''a'' = [u] \<and>
     MergeRemoteState mem_gorm wire_pack int db True (cl_node c ''a'') = Inr gi \<and>
     MergeRemoteState mem_gorm wire_pack int da True (cl_node c ''b'') = Inr gj \<and>
     GetNode ''a'' (gp_sm (cl_node c ''b'')) = None \<and> map_option version (GetNode ''a'' (gp_sm gj)) = Some (version u)"
proof -
  obtain c u where c: "cluster_run mem_gorm wire_pack (box_net two_members) sample_cluster c" "cl_pubs c ''a'' = [u]"
    "counters_positive c" "cl_node c ''b'' = blank_node ''b''" using sample_published by blast
  obtain da where da: "LocalState wire_pack 0 True (cl_node c ''a'') = Some da" using wire_local_state by blast
  obtain db where db: "LocalState wire_pack 0 True (cl_node c ''b'') = Some db" using wire_local_state by blast
  obtain gi gj where g: "MergeRemoteState mem_gorm wire_pack int db True (cl_node c ''a'') = Inr gi"
    "MergeRemoteState mem_gorm wire_pack int da True (cl_node c ''b'') = Inr gj"
    "map_option version (GetNode ''a'' (gp_sm gi)) = map_option version (GetNode ''a'' (gp_sm gj))"
    "cl_pubs c ''a'' \<noteq> [] \<longrightarrow> map_option version (GetNode ''a'' (gp_sm gi)) = Some (version (last (cl_pubs c ''a'')))"
    using push_pull_agrees [OF wire_pack_ok mem_clocks_not_stored run_is_life [OF c(1)] run_told_apart [OF c(1,3)] da db,
        where clk = int and clk' = int] c(1,3) by blast
  then have "map_option version (GetNode ''a'' (gp_sm gj)) = Some (version u)" using c(2) by simp
  moreover have "GetNode ''a'' (gp_sm (cl_node c ''b'')) = None" using c(4) by simp
  ultimately show ?thesis using c(1,2) g(1,2) by (intro exI conjI) assumption+
qed

section \<open>A node that restarts\<close>

text \<open>
  The store does not keep clocks, so a restarted node begins with an empty one, and its peers take
  its first states for old ones. What it gets back from a peer is its own last state.
\<close>

text \<open>A collection publishes a clock above that of the node's own entry.\<close>

lemma prepare_above:
  assumes "GetHostMonitor probe = Inr hm" and "gp_store g \<noteq> None" and "known g n = Some e"
    and "\<And>v. gget (ns_Clock e) n = Some v \<Longrightarrow> i64_int v < 2 ^ 63 - 1"
  shows "\<exists>ns. collect_prepare D clk n probe g = Inr (Some ns) \<and> ns_NodeID ns = n \<and> ns_stamp e < ns_stamp ns"
proof -
  obtain ns c1 m where p: "collect_prepare D clk n probe g = Inr (Some ns)"
    "recovered_clock D n (Some mempty) g = Inr (Some c1)" "Increment (Some c1) n = Inr (Some m)"
    "ns = (ToNodeState (clk 0) n hm)\<lparr>ns_Clock := Some m, ns_LastUpdated := clk 1, ns_LastSeen := clk 2\<rparr>"
    by (rule prepare_ok [OF assms(1,2), where D = D and n = n and clk = clk])
  have "Merge (Some mempty) (ns_Clock e) = Inr (Some c1)"
    using p(2) assms(3) by (simp add: recovered_clock_def known_def)
  from gget_Merge [OF this] have c1: "mget c1 = gget (ns_Clock e)"
    by (simp add: gget_Some sup_fun_def fun_eq_iff)
  have "mget c1 < mget m"
    using Increment_less [OF p(3)] assms(4) by (simp add: c1 gget_Some)
  with p(1,4) c1 show ?thesis by (simp add: ns_stamp_def gget_Some ToNodeState_def)
qed

text \<open>
  C3: a node that lost its clock in a restart and has collected nothing yet is taken seriously again after one exchange with a
  peer that remembers it: the state it collects next carries a higher clock than any state the peer
  holds of it, and the peer that receives it holds exactly that state.
\<close>

theorem restarted_node_catches_up:
  assumes "msgpack_ok M" and "nodes_keyed (gp_sm h)" and "LocalState M now join h = Some data"
    and "GetNode n (gp_sm h) = Some e" and "GetNode n (gp_sm g) = None" and "gp_store g \<noteq> None"
    and "GetHostMonitor probe = Inr hm" and "\<And>v. gget (ns_Clock e) n = Some v \<Longrightarrow> i64_int v < 2 ^ 63 - 1"
  shows "\<exists>g1 ns g2. MergeRemoteState D M clk data join g = Inr g1 \<and>
    collect_prepare D clk1 n probe g1 = Inr (Some ns) \<and> collect_publish D M N clk1 n ns g1 = Inr g2 \<and>
    Compare (ns_Clock ns) (ns_Clock e) = 1 \<and> GetNode n (gp_sm g2) = Some ns \<and>
    (\<forall>sent. encode_gossip M (clk1 4) MsgNodeState (gp_localNode g1) (PNodeState \<lparr>np_State = Some ns\<rparr>) = Inr sent \<longrightarrow>
       (\<exists>h'. NotifyMsg D M N' clk2 sent h = Inr h' \<and>
          map_option ns_view (GetNode n (gp_sm h')) = Some (ns_view ns)))"
proof -
  obtain g1 e1 where g1: "MergeRemoteState D M clk data join g = Inr g1" "same_store g g1" "known g1 n = Some e1"
    "ns_view e1 = ns_view e"
    using exchange_returns_own [OF assms(1,2) assms(3) [unfolded LocalState_def] assms(4,5) [folded known_def],
      of D clk join] by (elim exE conjE) (rule that)
  have store: "gp_store g1 \<noteq> None" using g1(2) assms(6) by simp
  have stamp: "ns_stamp e1 = ns_stamp e" using g1(4) by (rule ns_stamp_view)
  then obtain ns where ns: "collect_prepare D clk1 n probe g1 = Inr (Some ns)" "ns_NodeID ns = n"
    "ns_stamp e < ns_stamp ns"
    using prepare_above [OF assms(7) store g1(3), of D clk1] assms(8) by (auto simp: ns_stamp_def)
  obtain g2 where g2: "collect_publish D M N clk1 n ns g1 = Inr g2" using publish_ok [OF store] by blast
  have "\<exists>h'. NotifyMsg D M N' clk2 b h = Inr h' \<and> map_option ns_view (GetNode n (gp_sm h')) = Some (ns_view ns)"
    if enc: "encode_gossip M (clk1 4) MsgNodeState (gp_localNode g1) (PNodeState \<lparr>np_State = Some ns\<rparr>) = Inr b" for b
  proof -
    obtain h' r where r: "handleMessage D M N' clk2 b h = Inr h'" "ns_view r = ns_view ns"
      "GetNode n (gp_sm h') = Some (node_merge e r)"
      using state_arrives [OF assms(1) enc, of D N' clk2 h] assms(4) ns(2) by auto
    have "ns_stamp e < ns_stamp r" using ns(3) ns_stamp_view [OF r(2)] by simp
    from node_merge_fresh [OF this] r show ?thesis by (simp add: NotifyMsg_def)
  qed
  with g1(1) ns g2 publish_overwrites [OF store g2 ns(2)] show ?thesis
    by (intro exI [where x = g1], intro exI [where x = ns], intro exI [where x = g2])
      (simp add: Compare_eq_1 ns_stamp_def)
qed

theorem restarted_node_catches_up_witness:
  defines "e \<equiv> sample_node ''a'' 5 (clock1 ''a'' 7)"
  shows "\<exists>data g1 ns. LocalState wire_pack 0 True ((sample_gossip [])\<lparr>gp_sm := sample_sm [e]\<rparr>) = Some data \<and>
    MergeRemoteState mem_gorm wire_pack int data True (sample_gossip []) = Inr g1 \<and>
    collect_prepare mem_gorm int ''a'' sample_probe g1 = Inr (Some ns) \<and> Compare (ns_Clock ns) (ns_Clock e) = 1"
proof -
  let ?h = "(sample_gossip [])\<lparr>gp_sm := sample_sm [e]\<rparr>"
  obtain data where d: "LocalState wire_pack 0 True ?h = Some data" using wire_local_state by blast
  obtain hm where hm: "GetHostMonitor sample_probe = Inr hm" using sample_probe_ok by blast
  have "nodes_keyed (gp_sm ?h)" "GetNode ''a'' (gp_sm ?h) = Some e"
    by (simp_all add: nodes_keyed_def GetNode_sample_sm e_def sample_node_def)
  moreover have "GetNode ''a'' (gp_sm (sample_gossip [])) = None" "gp_store (sample_gossip []) \<noteq> None"
    by (simp_all add: sample_gossip_def GetNode_sample_sm)
  moreover have "i64_int v < 2 ^ 63 - 1" if "gget (ns_Clock e) ''a'' = Some v" for v
    using that by (auto simp: e_def sample_node_def i64_int_of)
  ultimately show ?thesis
    using restarted_node_catches_up [OF wire_pack_ok _ d _ _ _ hm, of "''a''" e "sample_gossip []" mem_gorm int int] d
    by blast
qed

end
