(* ===== verification/DiscoveryLoops.thy ===== *)
theory DiscoveryLoops
  imports DiscoveryProps
begin

text \<open>
  The loops of \<^verbatim>\<open>discovery_udp.go\<close> and \<^verbatim>\<open>discovery_mdns.go\<close> around one tick and one
  received announcement. Reading and writing a socket and querying mDNS are the input: a loop
  takes the list of what it meets, in order. Both listeners are discovery sources (a locale): a
  sighting they accept goes through \<^verbatim>\<open>tryJoin\<close>, and what they join altogether follows from
  that.
\<close>

section \<open>The loops\<close>

text \<open>
  \<^verbatim>\<open>broadcastLoop\<close> up to the end of its context: at each tick (its time in seconds, and the
  error of the write) it sends one datagram; an encoding or a write that fails is logged. The
  result is what went out.
\<close>

fun broadcast_ticks ::
    "'b msgpack \<Rightarrow> string \<Rightarrow> udpDiscovery \<Rightarrow> (i64 \<times> string option) list \<Rightarrow> 'b list" where
  "broadcast_ticks M cluster d [] = []"
| "broadcast_ticks M cluster d ((unix, err) # ts) =
     (case udp_announcement M unix cluster d of
        None \<Rightarrow> broadcast_ticks M cluster d ts
      | Some data \<Rightarrow>
          (case err of
             Some _ \<Rightarrow> broadcast_ticks M cluster d ts
           | None \<Rightarrow> data # broadcast_ticks M cluster d ts))"

definition broadcastLoop ::
    "'b msgpack \<Rightarrow> string \<Rightarrow> (i64 \<times> string option) list \<Rightarrow> udpDiscovery \<Rightarrow> 'b list go" where
  "broadcastLoop M cluster ticks d =
     go_bind (new_ticker (dc_Interval (ud_cfg d))) (\<lambda>_. Inr (broadcast_ticks M cluster d ticks))"

text \<open>
  \<^verbatim>\<open>listenLoop\<close>: a round tells whether the context was done when it began, what the read
  returned, whether the context was done after a read that failed, and the time of the join. The
  result is whether the loop has returned, and the state.
\<close>

datatype 'b udp_read = ReadTimeout | ReadError string | Datagram 'b

record 'b listen_round =
  lr_done :: bool
  lr_read :: "'b udp_read"
  lr_cancelled :: bool
  lr_now :: gotime

fun listenLoop ::
    "'b msgpack \<Rightarrow> 'm join \<Rightarrow> 'b listen_round list \<Rightarrow> udpDiscovery \<times> 'm \<Rightarrow> bool \<times> udpDiscovery \<times> 'm" where
  "listenLoop M join [] s = (False, s)"
| "listenLoop M join (r # rs) s =
     (if lr_done r then (True, s)
      else case lr_read r of
             ReadTimeout \<Rightarrow> listenLoop M join rs s
           | ReadError _ \<Rightarrow> if lr_cancelled r then (True, s) else listenLoop M join rs s
           | Datagram data \<Rightarrow> listenLoop M join rs (udp_receive M join (lr_now r) data s))"

text \<open>
  \<^verbatim>\<open>browseLoop\<close>: the goroutine that handles the entries of the channel until the context is
  done or the channel closed, and the queries, each followed by a pause; the context may be done
  before a query or during the pause. The error of a query is only logged; what it finds goes into
  the channel. The result is whether the loop has returned, and the network.
\<close>

datatype browse_event = BrowseDone | EntriesClosed | BrowseEntry gotime "string list"

fun browse_entries ::
    "'m join \<Rightarrow> browse_event list \<Rightarrow> mdnsDiscovery \<times> 'm \<Rightarrow> bool \<times> mdnsDiscovery \<times> 'm" where
  "browse_entries join [] s = (False, s)"
| "browse_entries join (BrowseDone # es) s = (True, s)"
| "browse_entries join (EntriesClosed # es) s = (True, s)"
| "browse_entries join (BrowseEntry now infoFields # es) s =
     browse_entries join es (handleEntry join now infoFields s)"

record query_param =
  qp_Service :: string
  qp_Domain :: string
  qp_Timeout :: duration

definition browse_param :: query_param where
  "browse_param = \<lparr>qp_Service = ''_goggrid._tcp'', qp_Domain = ''local'', qp_Timeout = 5 * second\<rparr>"

fun browse_queries ::
    "(query_param \<Rightarrow> 'm \<Rightarrow> string option \<times> 'm) \<Rightarrow> (bool \<times> bool) list \<Rightarrow> 'm \<Rightarrow> bool \<times> 'm" where
  "browse_queries query [] net = (False, net)"
| "browse_queries query ((done_before, done_after) # qs) net =
     (if done_before then (True, net)
      else let (_, net') = query browse_param net
           in if done_after then (True, net') else browse_queries query qs net')"

section \<open>What a listener joins\<close>

text \<open>What a loop gets to see before it returns.\<close>

fun heard :: "'b listen_round list \<Rightarrow> (gotime \<times> 'b) list" where
  "heard [] = []"
| "heard (r # rs) =
     (if lr_done r then []
      else case lr_read r of
             ReadTimeout \<Rightarrow> heard rs
           | ReadError _ \<Rightarrow> if lr_cancelled r then [] else heard rs
           | Datagram data \<Rightarrow> (lr_now r, data) # heard rs)"

fun browsed :: "browse_event list \<Rightarrow> (gotime \<times> string list) list" where
  "browsed (BrowseEntry now infoFields # es) = (now, infoFields) # browsed es"
| "browsed _ = []"

lemma listenLoop_heard:
  "snd (listenLoop M join rs s) = fold (\<lambda>(now, data). udp_receive M join now data) (heard rs) s"
  by (induction rs arbitrary: s) (auto split: udp_read.split)

lemma browse_entries_browsed:
  "snd (browse_entries join es s) = fold (\<lambda>(now, infoFields). handleEntry join now infoFields) (browsed es) s"
  by (induction es s rule: browse_entries.induct) auto

text \<open>
  The sightings of the own cluster in a sequence of events, when \<open>attempt\<close> tells the time,
  address and cluster of an event that reaches \<^verbatim>\<open>tryJoin\<close>; and the addresses accepted.
\<close>

definition sightings ::
    "string \<Rightarrow> ('e \<Rightarrow> (gotime \<times> string \<times> string) option) \<Rightarrow> 'e list \<Rightarrow> (gotime \<times> string) list" where
  "sightings cluster attempt es =
     List.map_filter (\<lambda>e. case attempt e of
        None \<Rightarrow> None | Some (now, a, c) \<Rightarrow> if c = cluster then Some (now, a) else None) es"

definition accepted :: "bool list \<Rightarrow> (gotime \<times> string) list \<Rightarrow> string list" where
  "accepted bs S = List.map (\<lambda>(_, _, a). a) (filter fst (zip bs S))"

definition join_one :: "'m join \<Rightarrow> string \<Rightarrow> 'm \<Rightarrow> 'm" where
  "join_one join a net = snd (join [a] net)"

lemma sightings_simps [simp]:
  "sightings cluster attempt [] = []"
  "sightings cluster attempt (e # es) =
     (case attempt e of
        None \<Rightarrow> sightings cluster attempt es
      | Some (now, a, c) \<Rightarrow>
          if c = cluster then (now, a) # sightings cluster attempt es else sightings cluster attempt es)"
  by (auto simp: sightings_def List.map_filter_simps split: option.split)

lemma accepted_simps [simp]:
  "accepted [] S = []" "accepted bs [] = []"
  "accepted (b # bs) (x # S) = (if b then [snd x] else []) @ accepted bs S"
  by (auto simp: accepted_def split: prod.split)

lemma isNew_cluster: "isNew now a db = (new, db') \<Longrightarrow> db_clusterName db' = db_clusterName db"
  by (auto simp: isNew_def Let_def split: if_splits)

text \<open>A source of sightings: each event that makes an attempt goes through \<^verbatim>\<open>tryJoin\<close>.\<close>

locale discovery_source =
  fixes join :: "'m join"
    and step :: "'e \<Rightarrow> 's \<times> 'm \<Rightarrow> 's \<times> 'm"
    and base :: "'s \<Rightarrow> discoveryBase"
    and set_base :: "discoveryBase \<Rightarrow> 's \<Rightarrow> 's"
    and attempt :: "'s \<Rightarrow> 'e \<Rightarrow> (gotime \<times> string \<times> string) option"
  assumes step_eq: "step e (s, net) =
      (case attempt s e of
         None \<Rightarrow> (s, net)
       | Some (now, a, c) \<Rightarrow> (let (db, net') = tryJoin join now a c (base s, net) in (set_base db s, net')))"
    and base_set [simp]: "base (set_base db s) = db"
    and attempt_set [simp]: "attempt (set_base db s) = attempt s"
begin

lemma joins:
  "snd (fold step es (s, net)) =
     fold (join_one join)
       (accepted (seen_run (sightings (db_clusterName (base s)) (attempt s) es) (base s))
          (sightings (db_clusterName (base s)) (attempt s) es)) net"
proof (induction es arbitrary: s net)
  case (Cons e es)
  show ?case
  proof (cases "attempt s e")
    case None
    with Cons show ?thesis by (simp add: step_eq)
  next
    case (Some t)
    obtain now a c where t: "t = (now, a, c)" by (cases t)
    obtain new db' where st: "isNew now a (base s) = (new, db')" by fastforce
    have same: "set_base (base s) s = set_base (base s) s" ..
    show ?thesis
    proof (cases "c = db_clusterName (base s)")
      case True
      with Some t st Cons.IH [of "set_base db' s"] isNew_cluster [OF st] show ?thesis
        by (simp add: step_eq tryJoin_def join_one_def split: prod.split)
    next
      case False
      with Some t Cons.IH [of "set_base (base s) s"] show ?thesis
        by (simp add: step_eq tryJoin_def)
    qed
  qed
qed simp

end

definition udp_attempt :: "'b msgpack \<Rightarrow> udpDiscovery \<Rightarrow> gotime \<times> 'b \<Rightarrow> (gotime \<times> string \<times> string) option" where
  "udp_attempt M d e =
     (case mp_UnmarshalDiscovery M (snd e) of
        Inl _ \<Rightarrow> None
      | Inr msg \<Rightarrow>
          if dm_GossipAddr msg = ud_localAddr d then None
          else Some (fst e, dm_GossipAddr msg, dm_ClusterName msg))"

definition mdns_attempt :: "mdnsDiscovery \<Rightarrow> gotime \<times> string list \<Rightarrow> (gotime \<times> string \<times> string) option" where
  "mdns_attempt d e =
     (let (clusterName, gossipAddr) = entry_fields (snd e) ([], []) in
      if gossipAddr = [] \<or> gossipAddr = md_localAddr d \<or> \<not> md_hasManager d then None
      else Some (fst e, gossipAddr, clusterName))"

interpretation udp: discovery_source join "\<lambda>(now, data). udp_receive M join now data" ud_base
    "\<lambda>db d. d\<lparr>ud_base := db\<rparr>" "udp_attempt M" for join :: "'m join" and M :: "'b msgpack"
  by unfold_locales (auto simp: udp_receive_def udp_attempt_def fun_eq_iff split: sum.split prod.split)

interpretation mdns: discovery_source join "\<lambda>(now, infoFields). handleEntry join now infoFields" md_base
    "\<lambda>db d. d\<lparr>md_base := db\<rparr>" mdns_attempt for join :: "'m join"
  by unfold_locales (auto simp: handleEntry_def mdns_attempt_def fun_eq_iff split: prod.split)

lemma sorted_sightings:
  assumes "\<And>e t. attempt e = Some t \<Longrightarrow> fst t = fst e"
  shows "sorted (List.map fst es) \<Longrightarrow> sorted (List.map fst (sightings cluster attempt es))"
proof -
  have times: "fst ` set (sightings cluster attempt es) \<subseteq> fst ` set es" for es
    by (induction es) (auto split: option.splits prod.splits if_splits dest!: assms)
  show "sorted (List.map fst es) \<Longrightarrow> sorted (List.map fst (sightings cluster attempt es))"
    using times by (induction es) (fastforce split: option.splits prod.splits dest!: assms)+
qed

text \<open>
  C26: whatever a listener meets, over UDP or mDNS, and however it ends, the addresses it joins are
  exactly those the specification accepts of the sightings of its own cluster under a foreign
  address: the first sighting of an address, and each later one more than 30 seconds after the
  last accepted one, in order.
\<close>

theorem listeners_join:
  fixes cfg cluster own
  defines "u \<equiv> (newUDPDiscovery cfg cluster)\<lparr>ud_localAddr := own\<rparr>"
    and "v \<equiv> (newMDNSDiscovery cfg cluster)\<lparr>md_localAddr := own, md_hasManager := True\<rparr>"
  assumes "sorted (List.map fst (heard rounds))" and "sorted (List.map fst (browsed es))"
  shows "snd (snd (listenLoop M join rounds (u, net))) =
      (let S = sightings cluster (udp_attempt M u) (heard rounds)
       in fold (join_one join) (accepted (spec_run (30 * second) S Map.empty) S) net) \<and>
    snd (snd (browse_entries join es (v, net))) =
      (let S = sightings cluster (mdns_attempt v) (browsed es)
       in fold (join_one join) (accepted (spec_run (30 * second) S Map.empty) S) net)"
proof -
  have u: "ud_base u = newDiscoveryBase cluster" by (simp add: u_def newUDPDiscovery_def)
  have v: "md_base v = newDiscoveryBase cluster" by (simp add: v_def newMDNSDiscovery_def)
  have c: "db_clusterName (newDiscoveryBase cluster) = cluster" by (simp add: newDiscoveryBase_def)
  have su: "sorted (List.map fst (sightings cluster (udp_attempt M u) (heard rounds)))"
    using assms(3) by (rule sorted_sightings [rotated]) (auto simp: udp_attempt_def split: sum.splits if_splits)
  have sv: "sorted (List.map fst (sightings cluster (mdns_attempt v) (browsed es)))"
    using assms(4) by (rule sorted_sightings [rotated]) (auto simp: mdns_attempt_def split: prod.splits if_splits)
  show ?thesis
    using udp.joins [of M join "heard rounds" u net] mdns.joins [of join "browsed es" v net]
      seen_run_fresh [OF su, of cluster] seen_run_fresh [OF sv, of cluster]
    by (simp add: listenLoop_heard browse_entries_browsed u v c Let_def)
qed

theorem listeners_join_witness:
  "snd (snd (listenLoop wire_pack (\<lambda>as net. ((1, None), net @ as))
      [\<lparr>lr_done = False, lr_read = Datagram (WPayload (PDiscovery
          \<lparr>dm_NodeID = ''n'', dm_ClusterName = ''c'', dm_GossipAddr = ''10.0.0.2:7946'', dm_Timestamp = i64_of 0\<rparr>)),
        lr_cancelled = False, lr_now = 0\<rparr>]
      ((newUDPDiscovery (cfg_Discovery DefaultConfig) ''c'')\<lparr>ud_localAddr := ''10.0.0.1:7946''\<rparr>, []))) =
   [''10.0.0.2:7946'']"
proof -
  let ?r = "[\<lparr>lr_done = False, lr_read = Datagram (WPayload (PDiscovery
          \<lparr>dm_NodeID = ''n'', dm_ClusterName = ''c'', dm_GossipAddr = ''10.0.0.2:7946'', dm_Timestamp = i64_of 0\<rparr>)),
        lr_cancelled = False, lr_now = 0\<rparr>]"
  have "sorted (List.map fst (heard ?r))" "sorted (List.map fst (browsed []))" by simp_all
  from listeners_join [OF this, where M = wire_pack and join = "\<lambda>as net. ((1, None), net @ as)"
      and cfg = "cfg_Discovery DefaultConfig" and cluster = "''c''" and own = "''10.0.0.1:7946''" and net = "[]"]
  show ?thesis by (simp add: udp_attempt_def wire_pack_def join_one_def Let_def)
qed

end
