(* ===== verification/MdnsLoop.thy ===== *)
theory MdnsLoop
  imports DiscoveryLoops
begin

text \<open>
  \<^verbatim>\<open>browseLoop\<close> of \<^verbatim>\<open>discovery_mdns.go\<close> with its two goroutines: the queries, whose
  entries go into a channel of 16 places, and the handler that takes them out. The mDNS library is
  the environment: while a query runs it may put any entry into the channel, close it, and return.
  A send to the full channel waits or is given up, which changes nothing here.
\<close>

section \<open>The goroutines\<close>

datatype query_phase = Checking | Querying query_param | Pausing | Returned

record 'm browse =
  br_done :: bool
  br_entries :: "string list chan"
  br_handling :: bool
  br_phase :: query_phase
  br_state :: "mdnsDiscovery \<times> 'm"

definition browse_start :: "mdnsDiscovery \<times> 'm \<Rightarrow> 'm browse" where
  "browse_start s = \<lparr>br_done = False, br_entries = make_chan 16, br_handling = True, br_phase = Checking, br_state = s\<rparr>"

text \<open>
  What is seen of a step: an entry that the library delivers, one that is handled (and when), or
  nothing.
\<close>

datatype browse_label = Delivers "string list" | Handles gotime "string list" | Silent

inductive browse_step :: "'m join \<Rightarrow> 'm browse \<Rightarrow> browse_label \<Rightarrow> 'm browse \<Rightarrow> bool" for join :: "'m join" where
  cancelled: "browse_step join b Silent (b\<lparr>br_done := True\<rparr>)"
| queries: "br_phase b = Checking \<Longrightarrow>
     browse_step join b Silent (b\<lparr>br_phase := (if br_done b then Returned else Querying browse_param)\<rparr>)"
| delivers: "br_phase b = Querying p \<Longrightarrow> length (ch_buf (br_entries b)) < ch_cap (br_entries b) \<Longrightarrow>
     send_chan infoFields (br_entries b) = Inr ch \<Longrightarrow>
     browse_step join b (Delivers infoFields) (b\<lparr>br_entries := ch\<rparr>)"
| closes: "br_phase b = Querying p \<Longrightarrow> close_chan (br_entries b) = Inr ch \<Longrightarrow>
     browse_step join b Silent (b\<lparr>br_entries := ch\<rparr>)"
| query_returns: "br_phase b = Querying p \<Longrightarrow> browse_step join b Silent (b\<lparr>br_phase := Pausing\<rparr>)"
| pause_over: "br_phase b = Pausing \<Longrightarrow> browse_step join b Silent (b\<lparr>br_phase := Checking\<rparr>)"
| pause_cancelled: "br_phase b = Pausing \<Longrightarrow> br_done b \<Longrightarrow> browse_step join b Silent (b\<lparr>br_phase := Returned\<rparr>)"
| handles: "br_handling b \<Longrightarrow> recv_chan (br_entries b) = Some (infoFields, ch) \<Longrightarrow>
     browse_step join b (Handles now infoFields)
       (b\<lparr>br_entries := ch, br_state := handleEntry join now infoFields (br_state b)\<rparr>)"
| handler_done: "br_handling b \<Longrightarrow> br_done b \<Longrightarrow> browse_step join b Silent (b\<lparr>br_handling := False\<rparr>)"
| entries_closed: "br_handling b \<Longrightarrow> ch_closed (br_entries b) \<Longrightarrow> ch_buf (br_entries b) = [] \<Longrightarrow>
     browse_step join b Silent (b\<lparr>br_handling := False\<rparr>)"

inductive browse_run :: "'m join \<Rightarrow> 'm browse \<Rightarrow> browse_label list \<Rightarrow> 'm browse \<Rightarrow> bool" for join :: "'m join" where
  stays: "browse_run join b [] b"
| goes: "browse_run join b ls b1 \<Longrightarrow> browse_step join b1 l b' \<Longrightarrow> browse_run join b (ls @ [l]) b'"

inductive_cases browse_run_NilE: "browse_run join b [] b'"

section \<open>The channel is a queue\<close>

fun entered :: "browse_label list \<Rightarrow> string list list" where
  "entered [] = []"
| "entered (Delivers infoFields # ls) = infoFields # entered ls"
| "entered (_ # ls) = entered ls"

fun handled :: "browse_label list \<Rightarrow> (gotime \<times> string list) list" where
  "handled [] = []"
| "handled (Handles now infoFields # ls) = (now, infoFields) # handled ls"
| "handled (_ # ls) = handled ls"

lemma entered_append: "entered (ls @ ms) = entered ls @ entered ms"
  by (induction ls rule: entered.induct) simp_all

lemma handled_append: "handled (ls @ ms) = handled ls @ handled ms"
  by (induction ls rule: handled.induct) simp_all

text \<open>Handled and waiting entries are the entered ones; a cap of 16; the state is that of the handled ones.\<close>

definition browse_inv :: "'m join \<Rightarrow> mdnsDiscovery \<times> 'm \<Rightarrow> browse_label list \<Rightarrow> 'm browse \<Rightarrow> bool" where
  "browse_inv join s ls b \<longleftrightarrow>
     entered ls = List.map snd (handled ls) @ ch_buf (br_entries b) \<and> chan_ok (br_entries b) \<and>
     ch_cap (br_entries b) = 16 \<and>
     br_state b = fold (\<lambda>(now, infoFields). handleEntry join now infoFields) (handled ls) s"

lemma browse_step_inv:
  assumes "browse_step join b l b'" and "browse_inv join s ls b"
  shows "browse_inv join s (ls @ [l]) b'"
  using assms
  by (induction rule: browse_step.induct)
    (auto simp: browse_inv_def entered_append handled_append chan_ok_def recv_chan_def send_chan_def close_chan_def
      split: if_splits list.splits)

lemma browse_run_inv: "browse_run join b ls b' \<Longrightarrow> b = browse_start s \<Longrightarrow> browse_inv join s ls b'"
proof (induction rule: browse_run.induct)
  case (stays b)
  then show ?case by (simp add: browse_inv_def browse_start_def)
next
  case (goes b ls b1 l b')
  from browse_step_inv [OF goes.hyps(2) goes.IH [OF goes.prems]] show ?case .
qed

section \<open>Its end\<close>

lemma queries_return:
  assumes "br_done b"
  shows "\<exists>ls b'. browse_run join b ls b' \<and> entered ls = [] \<and> handled ls = [] \<and> length ls \<le> 2 \<and>
    br_phase b' = Returned \<and> br_done b' \<and> br_handling b' = br_handling b"
proof (cases "br_phase b")
  case Checking
  from browse_run.goes [OF browse_run.stays browse_step.queries [OF this]] assms show ?thesis
    by (intro exI [of _ "[Silent]"] exI [of _ "b\<lparr>br_phase := Returned\<rparr>"]) simp
next
  case (Querying p)
  let ?b = "b\<lparr>br_phase := Pausing\<rparr>"
  have "browse_run join b [Silent] ?b"
    using browse_run.goes [OF browse_run.stays browse_step.query_returns [OF Querying]] by simp
  from browse_run.goes [OF this browse_step.pause_cancelled] assms show ?thesis
    by (intro exI [of _ "[Silent, Silent]"] exI [of _ "?b\<lparr>br_phase := Returned\<rparr>"]) simp
next
  case Pausing
  from browse_run.goes [OF browse_run.stays browse_step.pause_cancelled [OF this assms]] assms show ?thesis
    by (intro exI [of _ "[Silent]"] exI [of _ "b\<lparr>br_phase := Returned\<rparr>"]) simp
next
  case Returned
  then show ?thesis using assms browse_run.stays [of join b] by (intro exI [of _ "[]"] exI [of _ b]) simp
qed

lemma both_return:
  assumes "br_done b"
  shows "\<exists>ls b'. browse_run join b ls b' \<and> entered ls = [] \<and> handled ls = [] \<and> length ls \<le> 3 \<and>
    br_phase b' = Returned \<and> \<not> br_handling b'"
proof -
  obtain ls b' where q: "browse_run join b ls b'" "entered ls = []" "handled ls = []" "length ls \<le> 2"
    "br_phase b' = Returned" "br_done b'"
    using queries_return [OF assms, of join] by blast
  show ?thesis
  proof (cases "br_handling b'")
    case True
    from browse_run.goes [OF q(1) browse_step.handler_done [OF True q(6)]] q show ?thesis
      by (intro exI [of _ "ls @ [Silent]"] exI [of _ "b'\<lparr>br_handling := False\<rparr>"])
        (simp add: entered_append handled_append)
  next
    case False
    with q show ?thesis by (intro exI [of _ ls] exI [of _ b']) simp
  qed
qed



end
