(* ===== verification/Api.thy ===== *)
theory Api
  imports Hub Config Storage
begin

text \<open>
  \<^verbatim>\<open>pkg/api/api.go\<close>: the HTTP service. Its state is the token and the origins of the
  configuration, the state manager and the store it shares with the other packages, and the
  WebSocket hub when it is enabled. The JSON encoder (\<open>json\<close>, \<open>None\<close> when it refuses a
  value), \<^verbatim>\<open>time.Parse\<close> with RFC 3339 and the WebSocket upgrade are arguments. Log lines
  are not modelled.
\<close>

record 'db api =
  as_token :: string
  as_sm :: StateManager
  as_store :: "'db option"
  as_hub :: "wsHub option"

text \<open>The values that the handlers encode.\<close>

datatype json_value =
    JHealth string string
  | JCluster ClusterState
  | JNodes "NodeState list"
  | JNode NodeState
  | JHistory "HistoryRecord list"

record api_env =
  ae_json :: "json_value \<Rightarrow> string option"
  ae_parse_time :: "string \<Rightarrow> gotime option"
  ae_upgrade :: "bool \<Rightarrow> request \<Rightarrow> writer \<Rightarrow> string option \<times> writer"
  ae_redirect :: "string \<Rightarrow> request \<Rightarrow> writer \<Rightarrow> writer"

text \<open>\<^verbatim>\<open>New\<close>: the hub exists when WebSockets are enabled.\<close>

definition api_New :: "Config \<Rightarrow> StateManager \<Rightarrow> 'db option \<Rightarrow> 'db api" where
  "api_New cfg sm store =
     \<lparr>as_token = ac_Token (cfg_API cfg), as_sm = sm, as_store = store,
      as_hub = (if ws_Enabled (ac_WS (cfg_API cfg)) = Some True
                then Some (newWSHub (ws_AllowedOrigins (ac_WS (cfg_API cfg)))) else None)\<rparr>"

text \<open>
  \<^verbatim>\<open>Start\<close>: the hub's \<^verbatim>\<open>Run\<close> begins when there is one; \<open>served\<close> is the error that
  the library's server ends with.
\<close>

definition api_Start :: "string \<Rightarrow> 'db api \<Rightarrow> string \<times> ws_system option \<times> 'db api" where
  "api_Start served a =
     (case as_hub a of
        None \<Rightarrow> (served, None, a)
      | Some h \<Rightarrow>
          (let y = Run_start \<lparr>wy_hub = h, wy_sm = as_sm a, wy_run = NotRunning, wy_fwd = FwdNone\<rparr>
           in (served, Some y, a\<lparr>as_sm := wy_sm y\<rparr>)))"

definition api_Stop :: "'db api \<Rightarrow> 'db api" where
  "api_Stop a = a\<lparr>as_hub := map_option hub_Stop (as_hub a)\<rparr>"

section \<open>The handlers\<close>

definition writeJSON :: "api_env \<Rightarrow> int \<Rightarrow> json_value \<Rightarrow> writer \<Rightarrow> writer" where
  "writeJSON E st v w =
     (let w1 = WriteHeader st (set_header ''Content-Type'' ''application/json'' w) in
      case ae_json E v of None \<Rightarrow> w1 | Some s \<Rightarrow> write_body (s @ newline) w1)"

definition method_not_allowed :: "writer \<Rightarrow> writer" where
  "method_not_allowed = http_Error ''Method Not Allowed'' 405"

definition handleHealth :: "api_env \<Rightarrow> 'db api handler" where
  "handleHealth E r s =
     (if req_Method r \<noteq> ''GET'' then reply method_not_allowed s
      else reply (writeJSON E 200 (JHealth ''ok'' (cs_LocalNodeID (GetClusterState (as_sm (fst s)))))) s)"

definition handleCluster :: "api_env \<Rightarrow> 'db api handler" where
  "handleCluster E r s =
     (if req_Method r \<noteq> ''GET'' then reply method_not_allowed s
      else reply (writeJSON E 200 (JCluster (GetClusterState (as_sm (fst s))))) s)"

definition handleNodes :: "api_env \<Rightarrow> 'db api handler" where
  "handleNodes E r s =
     (if req_Method r \<noteq> ''GET'' then reply method_not_allowed s
      else reply (writeJSON E 200 (JNodes (mvals (cs_Nodes (GetClusterState (as_sm (fst s))))))) s)"

text \<open>A time parameter: the zero time when it is absent or does not parse.\<close>

definition time_param :: "api_env \<Rightarrow> request \<Rightarrow> string \<Rightarrow> gotime" where
  "time_param E r k =
     (let s = req_Query r k in
      if s = [] then time_zero
      else case ae_parse_time E s of None \<Rightarrow> time_zero | Some t \<Rightarrow> t)"

definition handleNodeHistory :: "'db gorm \<Rightarrow> api_env \<Rightarrow> string \<Rightarrow> 'db api handler" where
  "handleNodeHistory D E nodeID r s =
     (let since = time_param E r ''since''; until = time_param E r ''until'' in
      case as_store (fst s) of
        None \<Rightarrow> (Some NilDereference, s)
      | Some d \<Rightarrow>
          (case GetNodeHistory D nodeID since until d of
             Inl _ \<Rightarrow> reply (http_Error (json_error ''internal server error'') 500) s
           | Inr records \<Rightarrow> reply (writeJSON E 200 (JHistory records)) s))"

definition handleNodeDetail :: "'db gorm \<Rightarrow> api_env \<Rightarrow> 'db api handler" where
  "handleNodeDetail D E r s =
     (if req_Method r \<noteq> ''GET'' then reply method_not_allowed s
      else
        let (nodeID, rest) = SplitN2 (CHR ''/'') (TrimPrefix (req_Path r) ''/api/nodes/'') in
        case rest of
          Some tail \<Rightarrow>
            if tail = ''history'' then handleNodeHistory D E nodeID r s
            else reply (http_Error ''Not Found'' 404) s
        | None \<Rightarrow>
            (case GetNode nodeID (as_sm (fst s)) of
               Some ns \<Rightarrow> reply (writeJSON E 200 (JNode ns)) s
             | None \<Rightarrow>
                 (case as_store (fst s) of
                    None \<Rightarrow> (Some NilDereference, s)
                  | Some d \<Rightarrow>
                      (case GetNodeState D nodeID d of
                         Inl _ \<Rightarrow> reply (http_Error (json_error ''node not found'') 404) s
                       | Inr stored \<Rightarrow> reply (writeJSON E 200 (JNode stored)) s))))"

text \<open>
  After the upgrade the handler waits in \<^verbatim>\<open>register <- client\<close>: the client is among the waiting
  ones until the hub takes it and the pumps start.
\<close>

definition handleWebSocket :: "api_env \<Rightarrow> 'db api handler" where
  "handleWebSocket E r s =
     (if as_token (fst s) \<noteq> [] \<and> \<not> bearer_ok (as_token (fst s)) r
      then reply (http_Error (json_error ''unauthorized'') 401) s
      else
        case as_hub (fst s) of
          None \<Rightarrow> (Some NilDereference, s)
        | Some h \<Rightarrow>
            (case ae_upgrade E (CheckOrigin (hb_origins h) r) r (snd s) of
               (Some err, w) \<Rightarrow> (None, fst s, w)
             | (None, w) \<Rightarrow> (None, (fst s)\<lparr>as_hub := Some (snd (ws_connect h))\<rparr>, w)))"

section \<open>Routing\<close>

text \<open>
  The patterns that \<^verbatim>\<open>New\<close> registers: all but one are exact, the one with a slash at its end
  matches every path below it. The multiplexer redirects a path that is not clean. (A path is
  taken here without percent escapes, and the host plays no part.)
\<close>

datatype route = RHealth | RCluster | RNodes | RNodeDetail | RWebSocket

definition route_of :: "bool \<Rightarrow> string \<Rightarrow> route option" where
  "route_of ws path =
     (if path = ''/api/health'' then Some RHealth
      else if path = ''/api/cluster'' then Some RCluster
      else if path = ''/api/nodes'' then Some RNodes
      else if has_prefix ''/api/nodes/'' path then Some RNodeDetail
      else if ws \<and> path = ''/ws'' then Some RWebSocket
      else None)"

fun handle_route :: "'db gorm \<Rightarrow> api_env \<Rightarrow> route \<Rightarrow> 'db api handler" where
  "handle_route D E RHealth = handleHealth E"
| "handle_route D E RCluster = handleCluster E"
| "handle_route D E RNodes = handleNodes E"
| "handle_route D E RNodeDetail = handleNodeDetail D E"
| "handle_route D E RWebSocket = handleWebSocket E"

definition mux :: "'db gorm \<Rightarrow> api_env \<Rightarrow> 'db api handler" where
  "mux D E r s =
     (if cleanPath (req_Path r) \<noteq> req_Path r then reply (ae_redirect E (cleanPath (req_Path r)) r) s
      else case route_of (as_hub (fst s) \<noteq> None) (req_Path r) of
             None \<Rightarrow> reply (http_Error ''404 page not found'' 404) s
           | Some rt \<Rightarrow> handle_route D E rt r s)"

text \<open>The handler of the server: the middlewares in the order of \<^verbatim>\<open>New\<close>.\<close>

definition serve :: "'db gorm \<Rightarrow> api_env \<Rightarrow> 'db api handler" where
  "serve D E r s =
     authMiddleware (as_token (fst s)) (loggingMiddleware (corsMiddleware (recoveryMiddleware (mux D E)))) r s"

section \<open>Facts\<close>

lemma reply_simps [simp]: "reply f s = (None, fst s, f (snd s))"
  by (simp add: reply_def)

lemma writeJSON_status [simp]: "w_sent w = None \<Longrightarrow> status (writeJSON E c v w) = Some c"
  by (auto simp: writeJSON_def write_body_def WriteHeader_def status_def Let_def split: option.splits)

lemma handle_route_frame:
  assumes "handle_route D E rt r (a, w) = (p, a', w')"
  shows "p \<noteq> Some BlockedForever" and "rt \<noteq> RWebSocket \<Longrightarrow> a' = a"
  using assms
  by (cases rt; auto simp: handleHealth_def handleCluster_def handleNodes_def handleNodeDetail_def
      handleNodeHistory_def handleWebSocket_def Let_def split: if_splits option.splits sum.splits prod.splits)+

end
