(* ===== verification/ConfigFile.thy ===== *)
theory ConfigFile
  imports Config
begin

text \<open>
  \<^verbatim>\<open>GenerateDefault\<close> of \<^verbatim>\<open>pkg/config/config.go\<close>: the default configuration file that
  is written on the first run, with \<^verbatim>\<open>Duration.String\<close> of the standard library, which
  prints its durations.
\<close>

section \<open>Printing durations\<close>

text \<open>The digits of v modulo 10 to the given power, without trailing zeros, and the quotient.\<close>

fun fmtFrac :: "nat \<Rightarrow> nat \<Rightarrow> bool \<Rightarrow> string \<Rightarrow> string \<times> nat" where
  "fmtFrac 0 v printed acc = (if printed then CHR ''.'' # acc else acc, v)"
| "fmtFrac (Suc n) v printed acc =
     (let digit = v mod 10; p = (printed \<or> digit \<noteq> 0)
      in fmtFrac n (v div 10) p (if p then digit_char digit # acc else acc))"

definition micro_s :: string where
  "micro_s = [char_of (194::nat), char_of (181::nat), CHR ''s'']"

definition with_unit :: "nat \<Rightarrow> nat \<Rightarrow> string \<Rightarrow> string" where
  "with_unit prec v unit = (let (f, q) = fmtFrac prec v False [] in show_nat q @ f @ unit)"

definition abs_duration_String :: "nat \<Rightarrow> string" where
  "abs_duration_String u =
     (if u < 1000000000 then
        (if u = 0 then ''0s''
         else if u < 1000 then with_unit 0 u ''ns''
         else if u < 1000000 then with_unit 3 u micro_s
         else with_unit 6 u ''ms'')
      else
        (let (f, s) = fmtFrac 9 u False [];
             sec = show_nat (s mod 60) @ f @ ''s'';
             m = s div 60
         in if m > 0 then
              (let mn = show_nat (m mod 60) @ CHR ''m'' # sec; h = m div 60
               in if h > 0 then show_nat h @ CHR ''h'' # mn else mn)
            else sec))"

definition duration_String :: "duration \<Rightarrow> string" where
  "duration_String d =
     (if d < 0 then CHR ''-'' # abs_duration_String (nat (- d)) else abs_duration_String (nat d))"

section \<open>The file\<close>

definition show_bool :: "bool \<Rightarrow> string" where
  "show_bool b = (if b then ''true'' else ''false'')"

definition nl :: string where
  "nl = [char_of (10::nat)]"

definition quoted :: "string \<Rightarrow> string" where
  "quoted s = CHR 0x22 # s @ [CHR 0x22]"

definition em_dash :: string where
  "em_dash = [char_of (226::nat), char_of (128::nat), char_of (148::nat)]"

text \<open>The lines of the template, filled in; dereferencing a nil boolean panics.\<close>

definition default_lines :: "bool \<Rightarrow> bool \<Rightarrow> bool \<Rightarrow> Config \<Rightarrow> string list" where
  "default_lines api ws disc cfg =
     [''# GogGrid configuration '' @ em_dash @ '' generated automatically on first run.'',
      ''# Edit and restart to apply changes.'',
      [],
      ''cluster:'',
      ''  name: '' @ quoted (cc_Name (cfg_Cluster cfg)),
      ''  bind_addr: '' @ quoted (cc_BindAddr (cfg_Cluster cfg)),
      ''  bind_port: '' @ show_int (cc_BindPort (cfg_Cluster cfg)),
      ''  seeds: []'',
      [],
      ''monitor:'',
      ''  interval: '' @ duration_String (mc_Interval (cfg_Monitor cfg)),
      [],
      ''storage:'',
      ''  db_path: '' @ quoted (sc_DBPath (cfg_Storage cfg)),
      ''  retention: '' @ duration_String (sc_Retention (cfg_Storage cfg)),
      [],
      ''api:'',
      ''  enabled: '' @ show_bool api,
      ''  bind_addr: '' @ quoted (ac_BindAddr (cfg_API cfg)),
      ''  port: '' @ show_int (ac_Port (cfg_API cfg)),
      ''  token: '' @ quoted [],
      ''  ws:'',
      ''    enabled: '' @ show_bool ws,
      ''    allowed_origins: []'',
      [],
      ''gossip:'',
      ''  sync_interval: '' @ duration_String (gc_SyncInterval (cfg_Gossip cfg)),
      ''  probe_interval: '' @ duration_String (gc_ProbeInterval (cfg_Gossip cfg)),
      [],
      ''discovery:'',
      ''  enabled: '' @ show_bool disc,
      ''  type: '' @ quoted (dc_Type (cfg_Discovery cfg)),
      ''  port: '' @ show_int (dc_Port (cfg_Discovery cfg)),
      ''  interval: '' @ duration_String (dc_Interval (cfg_Discovery cfg))]"

definition default_content :: "Config \<Rightarrow> string go" where
  "default_content cfg =
     (case (ac_Enabled (cfg_API cfg), ws_Enabled (ac_WS (cfg_API cfg)), dc_Enabled (cfg_Discovery cfg)) of
        (Some api, Some ws, Some disc) \<Rightarrow>
          Inr (concat (List.map (\<lambda>line. line @ nl) (default_lines api ws disc cfg)))
      | _ \<Rightarrow> Inl NilDereference)"

text \<open>
  \<^verbatim>\<open>GenerateDefault\<close>: \<open>stat\<close> tells whether the path can be found, \<open>write\<close> is the
  error of writing a file. The result is the error and the content written, if any.
\<close>

definition GenerateDefault ::
    "(string \<Rightarrow> bool) \<Rightarrow> (string \<Rightarrow> string \<Rightarrow> string option) \<Rightarrow> string \<Rightarrow> (string option \<times> string option) go" where
  "GenerateDefault stat write path =
     (if stat path then Inr (None, None)
      else go_bind (default_content DefaultConfig) (\<lambda>content.
             case write path content of
               Some err \<Rightarrow> Inr (Some (''failed to write config file: '' @ err), None)
             | None \<Rightarrow> Inr (None, Some content)))"

section \<open>What the parser makes of a printed duration\<close>

lemma fmtFrac_spec:
  assumes "list_all is_digit acc" and "\<not> printed \<Longrightarrow> acc = []"
  shows "\<exists>ds. list_all is_digit ds \<and> length ds \<le> n \<and>
     read_digits ds 0 * 10 ^ (n - length ds) = v mod 10 ^ n \<and> (printed \<longrightarrow> length ds = n) \<and>
     (ds = [] \<longleftrightarrow> n = 0 \<or> \<not> printed \<and> v mod 10 ^ n = 0) \<and>
     fmtFrac n v printed acc =
       (if printed \<or> v mod 10 ^ n \<noteq> 0 then CHR ''.'' # ds @ acc else [], v div 10 ^ n)"
  using assms
proof (induction n arbitrary: v printed acc)
  case 0
  then show ?case by (intro exI [of _ "[]"]) auto
next
  case (Suc n)
  let ?d = "v mod 10" and ?p = "printed \<or> v mod 10 \<noteq> 0"
  let ?acc = "if ?p then digit_char ?d # acc else acc"
  have v: "v mod 10 ^ Suc n = 10 * (v div 10 mod 10 ^ n) + ?d"
    by (simp add: mod_mult2_eq)
  have dig: "is_digit (digit_char ?d)" by (rule is_digit_char) simp
  have pre: "list_all is_digit ?acc" "\<not> ?p \<Longrightarrow> ?acc = []" using Suc.prems dig by auto
  obtain ds where ds: "list_all is_digit ds" "length ds \<le> n"
    "read_digits ds 0 * 10 ^ (n - length ds) = v div 10 mod 10 ^ n" "?p \<longrightarrow> length ds = n"
    "ds = [] \<longleftrightarrow> n = 0 \<or> \<not> ?p \<and> v div 10 mod 10 ^ n = 0"
    "fmtFrac n (v div 10) ?p ?acc =
       (if ?p \<or> v div 10 mod 10 ^ n \<noteq> 0 then CHR ''.'' # ds @ ?acc else [], v div 10 div 10 ^ n)"
    using Suc.IH [where v = "v div 10", OF pre] by blast
  show ?case
  proof (cases ?p)
    case True
    then have "length ds = n" using ds(4) by blast
    then have "read_digits (ds @ [digit_char ?d]) 0 = v mod 10 ^ Suc n"
      using ds(3) v by (simp add: read_digits_append read_digit_char)
    with True ds dig show ?thesis
      by (intro exI [of _ "ds @ [digit_char ?d]"]) (auto simp: Let_def div_mult2_eq v)
  next
    case False
    then have "v mod 10 ^ Suc n = 10 * (v div 10 mod 10 ^ n)" using v by simp
    with False ds show ?thesis
      by (intro exI [of _ ds]) (auto simp: Let_def div_mult2_eq Suc_diff_le)
  qed
qed

lemma fmtFrac_start:
  "\<exists>ds. list_all is_digit ds \<and> length ds \<le> n \<and> read_digits ds 0 * 10 ^ (n - length ds) = v mod 10 ^ n \<and>
     (ds = [] \<longleftrightarrow> v mod 10 ^ n = 0) \<and>
     fmtFrac n v False [] = (if ds = [] then [] else CHR ''.'' # ds, v div 10 ^ n)"
  using fmtFrac_spec [where acc = "[]" and printed = False and n = n and v = v] by fastforce

lemma digit_value: "is_digit c \<Longrightarrow> of_char c - 48 < (10::nat)"
  by (auto simp: is_digit_def Let_def)

lemma leading_fraction_short:
  "list_all is_digit ds \<Longrightarrow> x < 10 ^ j \<Longrightarrow> j + length ds \<le> 9 \<Longrightarrow>
     leading_fraction ds x scale False = (read_digits ds x, scale * 10 ^ length ds)"
proof (induction ds arbitrary: x j scale)
  case (Cons c ds)
  have c: "of_char c - 48 < (10::nat)" using Cons.prems(1) digit_value by simp
  then have y: "x * 10 + (of_char c - 48) < 10 ^ Suc j" using Cons.prems(2) by simp
  have "(10::nat) ^ Suc j \<le> 10 ^ 9" using Cons.prems(3) by (intro power_increasing) simp_all
  then have b: "x * 10 + (of_char c - 48) < 1000000000" using y by simp
  have "\<not> x > (2 ^ 63 - 1) div 10" "\<not> x * 10 + (of_char c - 48) > 2 ^ 63" using b by simp_all
  with Cons.IH [OF _ y] Cons.prems show ?case by (simp add: Let_def mult.commute)
qed simp

lemma read_digits_bound: "list_all is_digit ds \<Longrightarrow> read_digits ds x < (x + 1) * 10 ^ length ds"
proof (induction ds arbitrary: x)
  case (Cons c ds)
  have c: "of_char c - 48 < (10::nat)" using Cons.prems digit_value by simp
  have "read_digits ds (10 * x + (of_char c - 48)) < (10 * x + (of_char c - 48) + 1) * 10 ^ length ds"
    using Cons.IH Cons.prems by simp
  also have "\<dots> \<le> (10 * (x + 1)) * 10 ^ length ds" using c by (intro mult_right_mono) simp_all
  finally show ?case by (simp add: algebra_simps)
qed simp

text \<open>
  What is needed of the float64 product of the parser: it is exact on the fractions that
  \<open>String\<close> prints, at most nine digits of a unit that the power of ten divides.
\<close>

definition exact_product :: "float_product \<Rightarrow> bool" where
  "exact_product frac \<longleftrightarrow>
     (\<forall>f k unit. k \<le> 9 \<longrightarrow> f < 10 ^ k \<longrightarrow> 10 ^ k dvd unit \<longrightarrow> unit \<le> 10 ^ 9 \<longrightarrow>
        frac f (10 ^ k) unit = f * (unit div 10 ^ k))"

definition exact_frac :: float_product where
  "exact_frac f scale unit = f * (unit div scale)"

definition unit_text :: "string \<Rightarrow> bool" where
  "unit_text u \<longleftrightarrow> u \<noteq> [] \<and> list_all (\<lambda>c. \<not> digit_or_dot c) u"

lemma parse_printed:
  assumes "exact_product frac" and "list_all is_digit ds" and "length ds \<le> 9"
    and u: "unit_ns u = Some unit" "unit_text u" and rest: "rest = [] \<or> digit_or_dot (hd rest)"
    and dvd: "10 ^ length ds dvd unit" "unit \<le> 10 ^ 9 \<or> ds = []" "0 < unit"
    and bound: "v * unit + read_digits ds 0 * (unit div 10 ^ length ds) \<le> 2 ^ 63"
  shows "parse_term frac (show_nat v @ (if ds = [] then [] else CHR ''.'' # ds) @ u @ rest) =
     Some (v * unit + read_digits ds 0 * (unit div 10 ^ length ds), rest)"
proof -
  let ?f = "if ds = [] then [] else CHR ''.'' # ds"
  let ?s = "show_nat v @ ?f @ u @ rest"
  obtain c u' where uc: "u = c # u'" "\<not> digit_or_dot c" using u(2) by (cases u) (auto simp: unit_text_def)
  have nd: "\<not> is_digit c" "c \<noteq> CHR ''.''" using uc(2) by (auto simp: digit_or_dot_def)
  have dot: "\<not> is_digit (CHR ''.'')" by (simp add: is_digit_def)
  have all: "\<And>x. x \<in> set (show_nat v) \<Longrightarrow> is_digit x" "\<And>x. x \<in> set ds \<Longrightarrow> is_digit x"
    using show_nat_digits [of v] assms(2) by (simp_all add: list_all_iff)
  have tw: "takeWhile is_digit ?s = show_nat v" "dropWhile is_digit ?s = ?f @ u @ rest"
    using all(1) dot nd(1) uc(1) by (simp_all add: takeWhile_append2 dropWhile_append2)
  have td: "ds \<noteq> [] \<Longrightarrow> takeWhile is_digit (ds @ u @ rest) = ds" "ds \<noteq> [] \<Longrightarrow> dropWhile is_digit (ds @ u @ rest) = u @ rest"
    using all(2) nd(1) uc(1) by (simp_all add: takeWhile_append2 dropWhile_append2)
  have un: "\<And>x. x \<in> set u \<Longrightarrow> \<not> digit_or_dot x" using u(2) by (auto simp: unit_text_def list_all_iff)
  have tu: "takeWhile (\<lambda>c. \<not> digit_or_dot c) (u @ rest) = u" "dropWhile (\<lambda>c. \<not> digit_or_dot c) (u @ rest) = rest"
    using un rest by (cases rest; simp add: takeWhile_append2 dropWhile_append2)+
  have lf: "leading_fraction ds 0 1 False = (read_digits ds 0, 10 ^ length ds)"
    using leading_fraction_short [OF assms(2), of 0 0 1] assms(3) by simp
  have hd: "?s \<noteq> []" "digit_or_dot (hd ?s)"
    using all(1) show_nat_nonempty [of v] by (auto simp: digit_or_dot_def hd_append)
  have v: "v \<le> 2 ^ 63 div unit" "v \<le> 2 ^ 63"
  proof -
    have "v * unit \<le> 2 ^ 63" using bound by simp
    then show "v \<le> 2 ^ 63 div unit" using dvd(3) by (simp add: less_eq_div_iff_mult_less_eq)
    then show "v \<le> 2 ^ 63" using div_le_dividend le_trans by blast
  qed
  have prod: "(if 0 < read_digits ds 0 then frac (read_digits ds 0) (10 ^ length ds) unit else 0) =
      read_digits ds 0 * (unit div 10 ^ length ds)"
  proof (cases "ds = []")
    case False
    have "read_digits ds 0 < 10 ^ length ds" using read_digits_bound [OF assms(2), of 0] by simp
    with False dvd assms(1,3) show ?thesis by (auto simp: exact_product_def)
  qed simp
  show ?thesis
  proof (cases "ds = []")
    case True
    have "parse_term frac (show_nat v @ u @ rest) = Some (v * unit, rest)"
      using tw hd v bound u(1) uc nd(2) tu True unfolding parse_term_def Let_def by (simp add: read_show_nat)
    then show ?thesis using True by simp
  next
    case False
    then show ?thesis
      using tw hd v bound u(1) uc(1) td tu lf prod unfolding parse_term_def Let_def by (simp add: read_show_nat)
  qed
qed

lemma parse_terms_step:
  "parse_term frac s = Some (v, s') \<Longrightarrow> d + v \<le> 2 ^ 63 \<Longrightarrow> parse_terms frac s d = parse_terms frac s' (d + v)"
  by (subst parse_terms.simps) (auto simp: parse_term_def)

lemma unit_texts [simp]: "unit_text ''ns''" "unit_text micro_s" "unit_text ''ms''" "unit_text ''s''" "unit_text ''m''" "unit_text ''h''"
proof -
  have "char_of (194::nat) \<noteq> CHR ''.''" "char_of (181::nat) \<noteq> CHR ''.''"
    by (auto dest: arg_cong [where f = "of_char :: char \<Rightarrow> nat"])
  then show "unit_text micro_s" by (simp add: unit_text_def digit_or_dot_def is_digit_def micro_s_def)
qed (simp_all add: unit_text_def digit_or_dot_def is_digit_def)

lemma unit_values [simp]:
  "unit_ns ''ns'' = Some 1" "unit_ns micro_s = Some 1000" "unit_ns ''ms'' = Some 1000000"
  "unit_ns ''s'' = Some 1000000000" "unit_ns ''m'' = Some 60000000000" "unit_ns ''h'' = Some 3600000000000"
  by (simp_all add: unit_ns_def micro_s_def)

text \<open>A number with the fraction of its unit, whatever stands for the whole part.\<close>

lemma parse_fraction:
  assumes "exact_product frac" and "prec \<le> 9" and "unit_ns u = Some (10 ^ prec)" and "unit_text u"
    and "fmtFrac prec v False [] = (f, q)" and "rest = [] \<or> digit_or_dot (hd rest)"
    and "n * 10 ^ prec + v mod 10 ^ prec \<le> 2 ^ 63"
  shows "parse_term frac (show_nat n @ f @ u @ rest) = Some (n * 10 ^ prec + v mod 10 ^ prec, rest) \<and> q = v div 10 ^ prec"
proof -
  obtain ds where ds: "list_all is_digit ds" "length ds \<le> prec"
    "read_digits ds 0 * 10 ^ (prec - length ds) = v mod 10 ^ prec"
    "f = (if ds = [] then [] else CHR ''.'' # ds)" "q = v div 10 ^ prec"
    using fmtFrac_start [of prec v] assms(5) by auto
  have quot: "(10::nat) ^ prec div 10 ^ length ds = 10 ^ (prec - length ds)"
    using ds(2) by (simp add: power_diff)
  have "(10::nat) ^ length ds dvd 10 ^ prec" using ds(2) by (rule le_imp_power_dvd)
  moreover have "(10::nat) ^ prec \<le> 10 ^ 9" using assms(2) by (intro power_increasing) simp_all
  ultimately show ?thesis
    using parse_printed [OF assms(1) ds(1) _ assms(3,4,6), of n] ds assms(2,7) by (simp add: quot)
qed

lemma parse_whole:
  assumes "exact_product frac" and "unit_ns u = Some unit" and "unit_text u" and "0 < unit"
    and "rest = [] \<or> digit_or_dot (hd rest)" and "n * unit \<le> 2 ^ 63"
  shows "parse_term frac (show_nat n @ u @ rest) = Some (n * unit, rest)"
  using parse_printed [OF assms(1) _ _ assms(2,3,5), of "[]" n] assms(4,6) by simp

lemma hd_show_nat: "digit_or_dot (hd (show_nat n @ xs))"
  using show_nat_digits [of n] show_nat_nonempty [of n] by (auto simp: digit_or_dot_def hd_append list_all_iff)

text \<open>The forms of a printed duration: one unit below a second, then seconds, minutes and hours.\<close>

lemma parse_small:
  assumes "exact_product frac" and "u \<le> 2 ^ 63" and "prec \<le> 9" and "unit_ns unit = Some (10 ^ prec)"
    and "unit_text unit"
  shows "parse_terms frac (with_unit prec u unit) 0 = Some u"
proof -
  obtain f q where fq: "fmtFrac prec u False [] = (f, q)" by fastforce
  have "u div 10 ^ prec * 10 ^ prec + u mod 10 ^ prec = u" by (rule div_mult_mod_eq)
  with parse_fraction [OF assms(1,3,4,5) fq, of "[]" "u div 10 ^ prec"] assms(2)
  have "parse_term frac (show_nat q @ f @ unit) = Some (u, [])" by simp
  then show ?thesis
    using assms(2) parse_terms_step [of frac "show_nat q @ f @ unit" u "[]" 0]
    by (simp add: with_unit_def fq parse_terms.simps [of frac "[]"])
qed

lemma clock_split: "s = u div 1000000000 \<Longrightarrow>
    s mod 60 * 1000000000 + u mod 1000000000 + (s div 60) * 60000000000 = (u::nat)"
  using div_mult_mod_eq [of u 1000000000] div_mult_mod_eq [of s 60] by linarith

lemma parse_seconds:
  assumes "exact_product frac" and "u \<le> 2 ^ 63" and fs: "fmtFrac 9 u False [] = (f, s)"
    and d: "d = (s div 60) * 60000000000"
  shows "s = u div 1000000000 \<and> parse_terms frac (show_nat (s mod 60) @ f @ ''s'') d = Some u"
proof -
  have s: "s = u div 1000000000" using fmtFrac_start [of 9 u] fs by auto
  note val = clock_split [OF s]
  have bound: "s mod 60 * 10 ^ 9 + u mod 10 ^ 9 \<le> 2 ^ 63" using val assms(2) by simp
  have "parse_term frac (show_nat (s mod 60) @ f @ ''s'' @ []) = Some (s mod 60 * 10 ^ 9 + u mod 10 ^ 9, [])"
    by (rule conjunct1 [OF parse_fraction [OF assms(1) _ _ _ fs _ bound]]) simp_all
  then have "parse_term frac (show_nat (s mod 60) @ f @ ''s'') = Some (s mod 60 * 1000000000 + u mod 1000000000, [])"
    by simp
  from parse_terms_step [OF this, of d] val assms(2) d s show ?thesis
    by (simp add: parse_terms.simps [of frac "[]"] ac_simps)
qed

lemma parse_minutes:
  assumes "exact_product frac" and "u \<le> 2 ^ 63" and fs: "fmtFrac 9 u False [] = (f, s)"
    and d: "d = s div 60 div 60 * 3600000000000"
  shows "parse_terms frac (show_nat (s div 60 mod 60) @ ''m'' @ show_nat (s mod 60) @ f @ ''s'') d = Some u"
proof -
  let ?m = "s div 60" and ?sec = "show_nat (s mod 60) @ f @ ''s''"
  note tail = parse_seconds [OF assms(1-3), of "?m * 60000000000"]
  have val: "s mod 60 * 1000000000 + u mod 1000000000 + ?m * 60000000000 = u"
    using clock_split [of s u] tail by simp
  have mval: "?m div 60 * 3600000000000 + ?m mod 60 * 60000000000 = ?m * 60000000000"
    using div_mult_mod_eq [of ?m 60] by linarith
  have "parse_term frac (show_nat (?m mod 60) @ ''m'' @ ?sec) = Some (?m mod 60 * 60000000000, ?sec)"
    using val mval assms(2) hd_show_nat by (intro parse_whole [OF assms(1)]) simp_all
  then have "parse_terms frac (show_nat (?m mod 60) @ ''m'' @ ?sec) d = parse_terms frac ?sec (d + ?m mod 60 * 60000000000)"
    by (rule parse_terms_step) (use val mval assms(2) d in linarith)
  also have "d + ?m mod 60 * 60000000000 = ?m * 60000000000" using mval d by simp
  also have "parse_terms frac ?sec \<dots> = Some u" by (rule conjunct2 [OF tail [OF refl]])
  finally show ?thesis .
qed

lemma parse_hours:
  assumes "exact_product frac" and "u \<le> 2 ^ 63" and fs: "fmtFrac 9 u False [] = (f, s)"
  shows "parse_terms frac (show_nat (s div 60 div 60) @ ''h'' @ show_nat (s div 60 mod 60) @ ''m'' @
     show_nat (s mod 60) @ f @ ''s'') 0 = Some u"
proof -
  let ?h = "s div 60 div 60" and ?mn = "show_nat (s div 60 mod 60) @ ''m'' @ show_nat (s mod 60) @ f @ ''s''"
  have s: "s = u div 1000000000" using parse_seconds [OF assms(1-3), of "s div 60 * 60000000000"] by simp
  have le: "?h * 3600000000000 \<le> 2 ^ 63"
    using clock_split [OF s] div_mult_mod_eq [of "s div 60" 60] assms(2) by linarith
  have "parse_term frac (show_nat ?h @ ''h'' @ ?mn) = Some (?h * 3600000000000, ?mn)"
    using le hd_show_nat by (intro parse_whole [OF assms(1)]) simp_all
  then have "parse_terms frac (show_nat ?h @ ''h'' @ ?mn) 0 = parse_terms frac ?mn (0 + ?h * 3600000000000)"
    by (rule parse_terms_step) (use le in simp)
  with parse_minutes [OF assms(1-3) refl] show ?thesis by simp
qed

lemma parse_abs:
  assumes "exact_product frac" and "0 < u" and "u \<le> 2 ^ 63"
  shows "parse_terms frac (abs_duration_String u) 0 = Some u"
proof (cases "u < 1000000000")
  case True
  then show ?thesis
    using parse_small [OF assms(1,3), of 0 "''ns''"] parse_small [OF assms(1,3), of 3 micro_s]
      parse_small [OF assms(1,3), of 6 "''ms''"] assms(2)
    by (simp add: abs_duration_String_def)
next
  case False
  obtain f s where fs: "fmtFrac 9 u False [] = (f, s)" by fastforce
  from False fs parse_seconds [OF assms(1,3) fs, of 0] parse_minutes [OF assms(1,3) fs, of 0]
    parse_hours [OF assms(1,3) fs]
  show ?thesis by (simp add: abs_duration_String_def Let_def)
qed

lemma abs_duration_head:
  "abs_duration_String u \<noteq> [] \<and> digit_or_dot (hd (abs_duration_String u)) \<and>
     (0 < u \<longrightarrow> abs_duration_String u \<noteq> ''0'')"
proof -
  have n: "show_nat q @ xs \<noteq> [] \<and> digit_or_dot (hd (show_nat q @ xs))" for q xs
    using hd_show_nat show_nat_nonempty by simp
  have w: "\<exists>q f. with_unit p u un = show_nat q @ f \<and> f \<noteq> []" if "un \<noteq> []" for p un
    using that by (cases "fmtFrac p u False []") (auto simp: with_unit_def)
  have l: "\<exists>q f. abs_duration_String u = show_nat q @ f \<and> f \<noteq> []" if "0 < u"
  proof (cases "u < 1000000000")
    case True
    then show ?thesis
      using that w [of "''ns''" 0] w [of micro_s 3] w [of "''ms''" 6] by (simp add: abs_duration_String_def micro_s_def)
  next
    case False
    obtain f s where fs: "fmtFrac 9 u False [] = (f, s)" by fastforce
    let ?sec = "show_nat (s mod 60) @ f @ ''s''" and ?m = "s div 60"
    let ?mn = "show_nat (?m mod 60) @ CHR ''m'' # ?sec"
    consider "?m = 0" | "?m \<noteq> 0" "?m div 60 = 0" | "?m \<noteq> 0" "?m div 60 \<noteq> 0" by blast
    then show ?thesis
    proof cases
      case 1
      with False fs show ?thesis
        by (intro exI [of _ "s mod 60"] exI [of _ "f @ ''s''"]) (simp add: abs_duration_String_def)
    next
      case 2
      with False fs show ?thesis
        by (intro exI [of _ "?m mod 60"] exI [of _ "CHR ''m'' # ?sec"]) (simp add: abs_duration_String_def)
    next
      case 3
      with False fs show ?thesis
        by (intro exI [of _ "?m div 60"] exI [of _ "CHR ''h'' # ?mn"]) (simp add: abs_duration_String_def Let_def)
    qed
  qed
  show ?thesis
  proof (cases "u = 0")
    case True
    then show ?thesis by (simp add: abs_duration_String_def digit_or_dot_def is_digit_def)
  next
    case False
    then obtain q f where f: "abs_duration_String u = show_nat q @ f" "f \<noteq> []" using l by blast
    then have "length (abs_duration_String u) \<noteq> length ''0''"
      using show_nat_nonempty [of q] by (cases "show_nat q"; cases f) auto
    then have "abs_duration_String u \<noteq> ''0''" by metis
    with n [of q f] f(1) show ?thesis by simp
  qed
qed

text \<open>Parsing a printed duration gives it back, for every int64 number of nanoseconds.\<close>

lemma duration_roundtrip:
  assumes "exact_product frac" and "- (2 ^ 63) \<le> d" and "d < 2 ^ 63"
  shows "ParseDuration frac (duration_String d) = Some d"
proof -
  have sign: "hd (abs_duration_String u) \<noteq> CHR ''-''" "hd (abs_duration_String u) \<noteq> CHR ''+''" for u
    using abs_duration_head [of u] by (auto simp: digit_or_dot_def is_digit_def)
  consider "d = 0" | "0 < d" | "d < 0" by linarith
  then show ?thesis
  proof cases
    case 1
    have "parse_terms frac ''0s'' 0 = Some 0"
    proof -
      have "parse_term frac (show_nat 0 @ ''s'' @ []) = Some (0 * 1000000000, [])"
        by (rule parse_whole [OF assms(1)]) simp_all
      moreover have "show_nat 0 = ''0''" by code_simp
      ultimately show ?thesis
        using parse_terms_step [of frac "''0s''" 0 "[]" 0] by (simp add: parse_terms.simps [of frac "[]"])
    qed
    with 1 show ?thesis by (simp add: ParseDuration_def duration_String_def abs_duration_String_def)
  next
    case 2
    then have u: "0 < nat d" "nat d \<le> 2 ^ 63" using assms(3) by simp_all
    from parse_abs [OF assms(1) u] abs_duration_head [of "nat d"] sign [of "nat d"] 2 assms(3) show ?thesis
      by (simp add: ParseDuration_def duration_String_def)
  next
    case 3
    then have u: "0 < nat (- d)" "nat (- d) \<le> 2 ^ 63" using assms(2) by simp_all
    from parse_abs [OF assms(1) u] abs_duration_head [of "nat (- d)"] 3 show ?thesis
      by (simp add: ParseDuration_def duration_String_def)
  qed
qed

lemma line_in_text:
  "l \<in> set ls \<Longrightarrow> \<exists>pre post. concat (List.map (\<lambda>x. x @ nl) ls) = pre @ l @ nl @ post"
proof (drule split_list, elim exE)
  fix ys zs
  let ?c = "\<lambda>ks. concat (List.map (\<lambda>x. x @ nl) ks)"
  assume "ls = ys @ l # zs"
  then have "?c ls = ?c ys @ l @ nl @ ?c zs" by simp
  then show ?thesis by blast
qed

definition shows_duration :: "float_product \<Rightarrow> string \<Rightarrow> string \<Rightarrow> duration \<Rightarrow> bool" where
  "shows_duration frac content key d \<longleftrightarrow>
     (\<exists>pre s post. content = pre @ key @ s @ nl @ post \<and> ParseDuration frac s = Some d)"

definition int64_duration :: "duration \<Rightarrow> bool" where
  "int64_duration d \<longleftrightarrow> - (2 ^ 63) \<le> d \<and> d < 2 ^ 63"



text \<open>
  \<^verbatim>\<open>GenerateDefault\<close> never panics and never writes over an existing file; otherwise it
  writes the template, whose first lines name the cluster, or reports that the write failed.
\<close>

lemma GenerateDefault_once:
  "\<exists>content. default_content DefaultConfig = Inr content \<and>
     GenerateDefault stat write path =
       Inr (if stat path then (None, None)
            else case write path content of
                   None \<Rightarrow> (None, Some content)
                 | Some e \<Rightarrow> (Some (''failed to write config file: '' @ e), None))"
proof -
  obtain content where "default_content DefaultConfig = Inr content"
    by (simp add: default_content_def DefaultConfig_def)
  then show ?thesis by (auto simp: GenerateDefault_def split: option.splits)
qed

end
