(* ===== verification/Lifecycle.thy ===== *)
theory Lifecycle
  imports Node Api ConfigFile
begin

text \<open>
  The life of a gossip manager (\<^verbatim>\<open>New\<close>, \<^verbatim>\<open>Start\<close>, \<^verbatim>\<open>Stop\<close> and the
  anti-entropy loop of \<^verbatim>\<open>pkg/gossip/gossip.go\<close>) and of the process (\<^verbatim>\<open>main\<close> of
  \<^verbatim>\<open>cmd/GogGrid/main.go\<close>). Creating, leaving and shutting down a memberlist, opening the
  sockets of the discovery and the facts of the operating system are parameters.
\<close>

section \<open>What is asked of memberlist and of the system\<close>

record ml_config =
  mlc_Name :: string
  mlc_BindAddr :: string
  mlc_BindPort :: int
  mlc_AdvertiseAddr :: string
  mlc_AdvertisePort :: int
  mlc_ProbeInterval :: duration
  mlc_PushPullInterval :: duration

record 'm memberlist =
  mm_Create :: "ml_config \<Rightarrow> string + 'm"
  mm_Join :: "'m join"
  mm_Leave :: "duration \<Rightarrow> 'm \<Rightarrow> string option \<times> 'm"
  mm_Shutdown :: "'m \<Rightarrow> string option \<times> 'm"
  mm_LocalAddr :: "'m \<Rightarrow> string"
  mm_LocalPort :: "'m \<Rightarrow> int"
  mm_LocalAddress :: "'m \<Rightarrow> string"

record system =
  sy_interfaces :: "string + iface list"
  sy_dial :: "string + string"
  sy_listenUDP :: "int \<Rightarrow> string option"
  sy_serveMDNS :: "int \<Rightarrow> string list \<Rightarrow> string option"

section \<open>The discovery object\<close>

datatype discovery_error = UDPError udp_error | MDNSError string

text \<open>The interface \<^verbatim>\<open>Discovery\<close> of \<^verbatim>\<open>discovery.go\<close>; stopping never reports an error.\<close>

fun discovery_Start ::
    "'m memberlist \<Rightarrow> system \<Rightarrow> 'm \<Rightarrow> discovery \<Rightarrow> discovery_error option \<times> discovery" where
  "discovery_Start L S net (UseUDP d) =
     (let (err, d') = udp_Start (mm_LocalAddr L net) (mm_LocalPort L net) (sy_listenUDP S) d
      in (map_option UDPError err, UseUDP d'))"
| "discovery_Start L S net (UseMDNS d) =
     (let (err, d') = mdns_Start (mm_LocalAddress L net) (sy_serveMDNS S) d
      in (map_option MDNSError err, UseMDNS d'))"

fun discovery_Stop :: "discovery \<Rightarrow> discovery" where
  "discovery_Stop (UseUDP d) = UseUDP (udp_Stop d)"
| "discovery_Stop (UseMDNS d) = UseMDNS (mdns_Stop d)"

text \<open>Whether the object has a socket or a server open.\<close>

fun discovery_open :: "discovery \<Rightarrow> bool" where
  "discovery_open (UseUDP d) = ud_listening d"
| "discovery_open (UseMDNS d) = md_serving d"

section \<open>The gossip manager\<close>

text \<open>
  The fields of \<^verbatim>\<open>GossipManager\<close> that its life changes; \<open>gm_left\<close> are the discovery
  objects it no longer refers to, whose goroutines may still run.
\<close>

record ('m, 'db) manager =
  gm_gossip :: "('m, 'db) gossip"
  gm_cfg :: Config
  gm_stopped :: bool
  gm_discovery :: "discovery option"
  gm_left :: "discovery list"
  gm_looping :: bool

definition advertise_addr :: "system \<Rightarrow> string \<Rightarrow> string" where
  "advertise_addr S bind =
     (if bind = [] \<or> bind = ''0.0.0.0''
      then case GetLocalIP (sy_interfaces S) (sy_dial S) of Inl _ \<Rightarrow> bind | Inr ip \<Rightarrow> ip
      else bind)"

definition ml_config_of :: "system \<Rightarrow> Config \<Rightarrow> string \<Rightarrow> ml_config" where
  "ml_config_of S cfg name =
     \<lparr>mlc_Name = name, mlc_BindAddr = cc_BindAddr (cfg_Cluster cfg), mlc_BindPort = cc_BindPort (cfg_Cluster cfg),
      mlc_AdvertiseAddr = advertise_addr S (cc_BindAddr (cfg_Cluster cfg)),
      mlc_AdvertisePort = cc_BindPort (cfg_Cluster cfg),
      mlc_ProbeInterval = gc_ProbeInterval (cfg_Gossip cfg), mlc_PushPullInterval = gc_SyncInterval (cfg_Gossip cfg)\<rparr>"

definition gossip_New ::
    "'m memberlist \<Rightarrow> system \<Rightarrow> Config \<Rightarrow> StateManager \<Rightarrow> 'db option \<Rightarrow> string + ('m, 'db) manager" where
  "gossip_New L S cfg sm store =
     (let localNode = cs_LocalNodeID (GetClusterState sm) in
      case mm_Create L (ml_config_of S cfg localNode) of
        Inl err \<Rightarrow> Inl (''failed to create memberlist: '' @ err)
      | Inr l \<Rightarrow>
          Inr \<lparr>gm_gossip = \<lparr>gp_list = l, gp_sm = sm, gp_localNode = localNode, gp_store = store,
                  gp_pendingSyncs = mempty, gp_heap = mempty, gp_go = []\<rparr>,
               gm_cfg = cfg, gm_stopped = False, gm_discovery = None, gm_left = [], gm_looping = False\<rparr>)"

definition join_seeds :: "'m memberlist \<Rightarrow> ('m, 'db) manager \<Rightarrow> ('m, 'db) manager" where
  "join_seeds L m =
     (let seeds = cc_Seeds (cfg_Cluster (gm_cfg m)) in
      if length seeds > 0 then
        (let (_, net) = mm_Join L seeds (gp_list (gm_gossip m))
         in m\<lparr>gm_gossip := (gm_gossip m)\<lparr>gp_list := net\<rparr>\<rparr>)
      else m)"

definition start_discovery :: "'m memberlist \<Rightarrow> system \<Rightarrow> ('m, 'db) manager \<Rightarrow> ('m, 'db) manager" where
  "start_discovery L S m =
     (case choose_discovery (gm_cfg m) of
        None \<Rightarrow> m
      | Some d \<Rightarrow>
          (case discovery_Start L S (gp_list (gm_gossip m)) d of
             (Some _, d') \<Rightarrow> m\<lparr>gm_discovery := None, gm_left := d' # gm_left m\<rparr>
           | (None, d') \<Rightarrow> m\<lparr>gm_discovery := Some d'\<rparr>))"

text \<open>The error that \<^verbatim>\<open>Start\<close> returns, and the manager; it starts the anti-entropy loop.\<close>

definition gossip_Start ::
    "'m memberlist \<Rightarrow> system \<Rightarrow> ('m, 'db) manager \<Rightarrow> string option \<times> ('m, 'db) manager" where
  "gossip_Start L S m = (None, (start_discovery L S (join_seeds L m))\<lparr>gm_looping := True\<rparr>)"

definition stop_discovery :: "('m, 'db) manager \<Rightarrow> ('m, 'db) manager" where
  "stop_discovery m =
     (case gm_discovery m of
        None \<Rightarrow> m
      | Some d \<Rightarrow> m\<lparr>gm_discovery := None, gm_left := discovery_Stop d # gm_left m\<rparr>)"

definition gossip_Stop :: "'m memberlist \<Rightarrow> ('m, 'db) manager \<Rightarrow> (string option \<times> ('m, 'db) manager) go" where
  "gossip_Stop L m =
     (let m1 = stop_discovery m;
          (_, net1) = mm_Leave L (5 * second) (gp_list (gm_gossip m1));
          (err, net2) = mm_Shutdown L net1;
          m2 = m1\<lparr>gm_gossip := (gm_gossip m1)\<lparr>gp_list := net2\<rparr>\<rparr>
      in case err of
           Some e \<Rightarrow> Inr (Some (''shutdown: '' @ e), m2)
         | None \<Rightarrow> if gm_stopped m2 then Inl CloseOfClosedChannel else Inr (None, m2\<lparr>gm_stopped := True\<rparr>))"

text \<open>
  \<^verbatim>\<open>antiEntropyLoop\<close>: what wakes its \<^verbatim>\<open>select\<close>, the closed stop channel or a tick with
  the time and the random number it draws. \<open>True\<close> when the loop has returned.
\<close>

datatype loop_wake = WakeStop | WakeSync gotime nat

fun sync_ticks ::
    "'b msgpack \<Rightarrow> ('m, 'b) net \<Rightarrow> loop_wake list \<Rightarrow> ('m, 'db) gossip \<Rightarrow> bool \<times> ('m, 'db) gossip" where
  "sync_ticks M N [] g = (False, g)"
| "sync_ticks M N (WakeStop # ws) g = (True, g)"
| "sync_ticks M N (WakeSync now idx # ws) g = sync_ticks M N ws (antiEntropy_tick M N now idx g)"

definition antiEntropyLoop ::
    "'b msgpack \<Rightarrow> ('m, 'b) net \<Rightarrow> Config \<Rightarrow> loop_wake list \<Rightarrow> ('m, 'db) gossip \<Rightarrow> (bool \<times> ('m, 'db) gossip) go" where
  "antiEntropyLoop M N cfg ws g =
     go_bind (new_ticker (gc_SyncInterval (cfg_Gossip cfg))) (\<lambda>_. Inr (sync_ticks M N ws g))"

text \<open>The callbacks of memberlist that change nothing.\<close>

definition NodeMeta :: "int \<Rightarrow> string" where
  "NodeMeta limit = []"

definition NotifyJoin :: "member \<Rightarrow> ('m, 'db) gossip \<Rightarrow> ('m, 'db) gossip" where
  "NotifyJoin node g = g"

definition NotifyUpdate :: "member \<Rightarrow> ('m, 'db) gossip \<Rightarrow> ('m, 'db) gossip" where
  "NotifyUpdate node g = g"

section \<open>The process\<close>

text \<open>
  The trace of a process: what it takes and gives back, its loops (the monitor, the sampler and
  the clean-up, which share one context), and what it writes and ends with.
\<close>

datatype resource = Store | Gossip | API | Loops

datatype effect = Acquire resource | Release resource | WriteFile string | Backfill | Exit nat

record ('m, 'db) process =
  pr_cfg :: Config
  pr_nodeID :: string
  pr_gm :: "('m, 'db) manager"
  pr_api :: "'db api option"
  pr_cancelled :: bool
  pr_trace :: "effect list"

record 'm start_env =
  se_args :: "string \<times> flags"
  se_stat :: "string \<Rightarrow> bool"
  se_files :: files
  se_write :: "string \<Rightarrow> string \<Rightarrow> string option"
  se_yaml :: yaml_decoder
  se_frac :: float_product
  se_env :: "string \<Rightarrow> string"
  se_hostname :: "string option"
  se_now :: gotime

text \<open>
  \<^verbatim>\<open>main\<close> up to the wait for a signal: \<open>Inl\<close> the trace of a process that exits with an
  error, \<open>Inr\<close> the running process. Log lines are not modelled.
\<close>

definition node_id :: "string option \<Rightarrow> string" where
  "node_id hostname = (case hostname of Some h \<Rightarrow> h | None \<Rightarrow> ''unknown'')"

text \<open>The default file, written when there is no file and none was asked for.\<close>

definition main_generate :: "'m start_env \<Rightarrow> effect list go" where
  "main_generate E =
     (if fst (se_args E) = [] \<and> \<not> se_stat E ''goggrid.yaml'' then
        go_bind (GenerateDefault (se_stat E) (se_write E) ''goggrid.yaml'') (\<lambda>(_, written).
          Inr (case written of None \<Rightarrow> [] | Some content \<Rightarrow> [WriteFile content]))
      else Inr [])"

definition main_services ::
    "('m, 'b) net \<Rightarrow> Config \<Rightarrow> string \<Rightarrow> effect list \<Rightarrow> ('m, 'db) manager \<Rightarrow> ('m, 'db) process go" where
  "main_services N cfg nodeID trace m =
     (let g = gm_gossip m;
          t1 = trace @ (if NumMembers N g > 1 then [Backfill] else [])
      in case ac_Enabled (cfg_API cfg) of
           None \<Rightarrow> Inl NilDereference
         | Some enabled \<Rightarrow>
             Inr \<lparr>pr_cfg = cfg, pr_nodeID = nodeID, pr_gm = m,
                  pr_api = (if enabled then Some (api_New cfg (gp_sm g) (gp_store g)) else None),
                  pr_cancelled = False,
                  pr_trace = t1 @ (if enabled then [Acquire API] else []) @ [Acquire Loops]\<rparr>)"

definition main_run ::
    "'db gorm \<Rightarrow> ('m, 'b) net \<Rightarrow> 'm memberlist \<Rightarrow> system \<Rightarrow> 'm start_env \<Rightarrow> effect list \<Rightarrow> Config
       \<Rightarrow> (effect list + ('m, 'db) process) go" where
  "main_run D N L S E trace cfg =
     (let nodeID = node_id (se_hostname E) in
      case New D (sc_DBPath (cfg_Storage cfg)) of
        Inl _ \<Rightarrow> Inr (Inl (trace @ [Exit 1]))
      | Inr d \<Rightarrow>
          (let sm = NewStateManager (se_now E) (cc_Name (cfg_Cluster cfg)) nodeID;
               t0 = trace @ [Acquire Store]
           in case gossip_New L S cfg sm (Some d) of
                Inl _ \<Rightarrow> Inr (Inl (t0 @ [Release Store, Exit 1]))
              | Inr m \<Rightarrow>
                  (case gossip_Start L S m of
                     (Some _, m1) \<Rightarrow>
                       go_bind (gossip_Stop L m1) (\<lambda>_.
                         Inr (Inl (t0 @ [Acquire Gossip, Release Gossip, Release Store, Exit 1])))
                   | (None, m1) \<Rightarrow>
                       go_bind (main_services N cfg nodeID (t0 @ [Acquire Gossip]) m1) (\<lambda>p. Inr (Inr p)))))"

definition main_start ::
    "'db gorm \<Rightarrow> ('m, 'b) net \<Rightarrow> 'm memberlist \<Rightarrow> system \<Rightarrow> 'm start_env
       \<Rightarrow> (effect list + ('m, 'db) process) go" where
  "main_start D N L S E =
     go_bind (main_generate E) (\<lambda>trace.
     go_bind (startup_config (se_stat E) (se_files E) (se_yaml E) (se_frac E) (se_env E)
                (fst (se_args E)) (snd (se_args E))) (\<lambda>res.
       case res of
         Inl _ \<Rightarrow> Inr (Inl (trace @ [Exit 1]))
       | Inr cfg \<Rightarrow> main_run D N L S E trace cfg))"

text \<open>After the signal: the context, the API, the gossip manager and the store, in this order.\<close>

definition main_shutdown ::
    "'db gorm \<Rightarrow> 'm memberlist \<Rightarrow> ('m, 'db) process \<Rightarrow> ('m, 'db) process go" where
  "main_shutdown D L p =
     (let p1 = p\<lparr>pr_cancelled := True, pr_trace := pr_trace p @ [Release Loops]\<rparr>;
          p2 = (case pr_api p1 of
                  None \<Rightarrow> p1
                | Some a \<Rightarrow> p1\<lparr>pr_api := Some (api_Stop a), pr_trace := pr_trace p1 @ [Release API]\<rparr>)
      in go_bind (gossip_Stop L (pr_gm p2)) (\<lambda>(_, m).
           case gp_store (gm_gossip m) of
             None \<Rightarrow> Inl NilDereference
           | Some d \<Rightarrow>
               (let (_, d') = Close D d in
                Inr (p2\<lparr>pr_gm := m\<lparr>gm_gossip := (gm_gossip m)\<lparr>gp_store := Some d'\<rparr>\<rparr>,
                        pr_trace := pr_trace p2 @ [Release Gossip, Release Store, Exit 0]\<rparr>))))"

text \<open>
  A request to the API of a process: it is served from the state manager and the store that the
  gossip manager works on; only the hub belongs to the API alone.
\<close>

definition api_request ::
    "'db gorm \<Rightarrow> api_env \<Rightarrow> request \<Rightarrow> writer \<Rightarrow> ('m, 'db) process
       \<Rightarrow> (go_panic option \<times> writer \<times> ('m, 'db) process) option" where
  "api_request D A r w p =
     (case pr_api p of
        None \<Rightarrow> None
      | Some a \<Rightarrow>
          (let g = gm_gossip (pr_gm p);
               (panic, a', w') = serve D A r (a\<lparr>as_sm := gp_sm g, as_store := gp_store g\<rparr>, w)
           in Some (panic, w', p\<lparr>pr_api := Some a'\<rparr>)))"

text \<open>The clean-up loop over its ticks.\<close>

fun cleanupLoop :: "'db gorm \<Rightarrow> Config \<Rightarrow> gotime list \<Rightarrow> ('m, 'db) gossip \<Rightarrow> ('m, 'db) gossip go" where
  "cleanupLoop D cfg [] g = Inr g"
| "cleanupLoop D cfg (now # ts) g = go_bind (cleanup_tick D now cfg g) (cleanupLoop D cfg ts)"

end
