(* ===== verification/SharedState.thy ===== *)
theory SharedState
  imports NodeProps StateSteps
begin

text \<open>
  The state manager is shared by all packages: whatever the gossip layer, a collection or a
  member that leaves does to it, it stays consistent (the invariant \<open>sm_inv\<close> of its own
  interleavings).
\<close>

lemma sm_inv_merge_nodes:
  "merge_nodes D xs (sm, st) = Inr (sm', st') \<Longrightarrow> sm_inv sm \<Longrightarrow> sm_inv sm'"
proof (induction xs arbitrary: sm st)
  case (Cons x xs)
  obtain now r where x: "x = (now, r)" by (cases x)
  from Cons.prems(1) obtain c sm1 st1 where m: "MergeNodeState D now r (sm, st) = Inr (c, sm1, st1)"
    "merge_nodes D xs (sm1, st1) = Inr (sm', st')" by (auto simp: x)
  from m(1) obtain ns changed ev where "Merge_locked now ns sm = Inr (changed, ev, sm1)"
    by (auto simp: MergeNodeState_def split: option.splits)
  from sm_inv_Merge_locked [OF Cons.prems(2) this] have "sm_inv sm1" .
  from Cons.IH [OF m(2) this] show ?case .
qed simp

lemma sm_inv_merge_all: "merge_all D clk nodes g = Inr g' \<Longrightarrow> sm_inv (gp_sm g) \<Longrightarrow> sm_inv (gp_sm g')"
  by (auto simp: merge_all_def dest: sm_inv_merge_nodes)

lemma sm_inv_resp_last:
  assumes "resp_last D a g = Inr g'" and "sm_inv (gp_sm g)"
  shows "sm_inv (gp_sm g')"
proof -
  obtain t where "failPendingSync a None (g\<lparr>gp_sm := SetHistorySyncTime t (gp_sm g)\<rparr>) = Inr g' \<or>
      failPendingSync a None g = Inr g'"
    using assms(1) by (auto simp: resp_last_def split: option.splits sum.splits if_splits)
  then show ?thesis using assms(2) by (auto dest!: gp_sm_fail simp: sm_inv_SetHistorySyncTime)
qed

lemma sm_inv_resp_step: "resp_step D t g = Inr (t', g') \<Longrightarrow> sm_inv (gp_sm g) \<Longrightarrow> sm_inv (gp_sm g')"
  by (cases t)
     (auto dest!: resp_advance_frame resp_more_frame sm_inv_resp_last gp_sm_fail split: option.splits)

lemma sm_inv_sync_step:
  "sync_step D M N c c' \<Longrightarrow> sm_inv (gp_sm (fst c)) \<Longrightarrow> sm_inv (gp_sm (fst c'))"
proof (induction rule: sync_step.induct)
  case (start now used g r g' ts)
  then show ?case by (auto simp: SyncHistoryOnJoin_start_def Let_def split: if_splits option.splits)
next
  case (wait a w g e g' ts used)
  then show ?case by (auto simp: SyncHistoryOnJoin_wait_def Let_def split: option.splits wake.splits)
next
  case (spawned g xs gr ys now ctx g' ts used)
  then show ?case by (auto dest: goroutine_frame)
next
  case (running ts xs t ys g t' g' used)
  then show ?case by (auto dest: sm_inv_resp_step)
next
  case (request now rq sender g g' ts used)
  then show ?case by (auto dest!: handleHistoryPullRequest_frame)
next
  case (states clk nodes g g' ts used)
  then show ?case by (auto dest: sm_inv_merge_all)
qed simp

lemma sm_inv_leave: "sm_inv (gp_sm g) \<Longrightarrow> sm_inv (gp_sm (NotifyLeave D now node g))"
  by (auto simp: NotifyLeave_def MarkNodeInactive_def dest: sm_inv_Inactive_locked split: prod.split)

lemma sm_inv_publish:
  assumes "collect_publish D M N clk n ns g = Inr g'" and "gp_store g \<noteq> None" and "sm_inv (gp_sm g)"
  shows "sm_inv (gp_sm g')"
  using publish_ok [OF assms(2), of D M N clk n ns] assms(1,3) sm_inv_UpdateLocalNode by auto

end
