(* ===== verification/ApiProps.thy ===== *)
theory ApiProps
  imports Api HubProps MemDB
begin

text \<open>
  Properties of the HTTP service: nothing is served without the token, no request crashes the
  server or changes what it serves, what the node routes answer, and who gets a WebSocket.
\<close>

section \<open>Authorisation\<close>

definition with_cors :: "writer \<Rightarrow> writer" where
  "with_cors w = set_header ''Access-Control-Allow-Methods'' ''GET, OPTIONS''
     (set_header ''Access-Control-Allow-Origin'' ''*'' w)"

definition authorised :: "'db api \<Rightarrow> request \<Rightarrow> bool" where
  "authorised a r \<longleftrightarrow> as_token a = [] \<or> req_Path r = ''/api/health'' \<or>
     req_Header r ''Authorization'' = ''Bearer '' @ as_token a"

definition refused :: "writer \<Rightarrow> writer" where
  "refused w = write_body (json_error ''unauthorized'') (WriteHeader 401 (set_header ''Content-Type'' ''application/json'' w))"

lemma serve_cases:
  "serve D E r (a, w) =
     (if \<not> authorised a r then (None, a, refused w)
      else if req_Method r = ''OPTIONS'' then (None, a, WriteHeader 200 (with_cors w))
      else recoveryMiddleware (mux D E) r (a, with_cors w))"
  by (auto simp: serve_def authMiddleware_def loggingMiddleware_def corsMiddleware_def authorised_def
      bearer_ok_iff refused_def with_cors_def)

text \<open>
  C19: with a token configured, a request to any path but the health check that does not carry
  exactly this bearer token gets status 401 and the fixed error body, whatever the state, the
  store and the path: two servers that differ in everything but the token give it the same answer.
\<close>

theorem unauthorised_learns_nothing:
  assumes "as_token a \<noteq> []" and "req_Path r \<noteq> ''/api/health''"
    and "req_Header r ''Authorization'' \<noteq> ''Bearer '' @ as_token a" and "as_token b = as_token a"
  shows "serve D E r (a, w) = (None, a, refused w) \<and> snd (snd (serve D' E' r (b, w))) = snd (snd (serve D E r (a, w))) \<and>
    w_body (refused fresh_writer) = [json_error ''unauthorized''] \<and> status (refused fresh_writer) = Some 401"
  using assms
  by (simp add: serve_cases authorised_def refused_def write_body_def WriteHeader_def fresh_writer_def status_def Let_def)

definition sample_api :: "string \<Rightarrow> memdb api" where
  "sample_api token = \<lparr>as_token = token, as_sm = NewStateManager 0 ''c'' ''a'', as_store = Some (mem_with []), as_hub = None\<rparr>"

definition sample_env :: api_env where
  "sample_env = \<lparr>ae_json = (\<lambda>_. Some ''json''), ae_parse_time = (\<lambda>_. None),
     ae_upgrade = (\<lambda>ok r w. (if ok then None else Some ''bad origin'', w)), ae_redirect = (\<lambda>p r w. WriteHeader 301 w)\<rparr>"

definition get_request :: "string \<Rightarrow> request" where
  "get_request path = \<lparr>req_Method = ''GET'', req_Path = path, req_Header = (\<lambda>_. []), req_Query = (\<lambda>_. [])\<rparr>"

lemma get_request_simps [simp]:
  "req_Method (get_request p) = ''GET''" "req_Path (get_request p) = p" "req_Header (get_request p) k = []"
  "req_Query (get_request p) k = []"
  by (simp_all add: get_request_def)

theorem unauthorised_learns_nothing_witness:
  "serve mem_gorm sample_env (get_request ''/api/nodes'') (sample_api ''secret'', fresh_writer) =
     (None, sample_api ''secret'', refused fresh_writer)"
  using unauthorised_learns_nothing [where a = "sample_api ''secret''" and r = "get_request ''/api/nodes''" and
      b = "sample_api ''secret''" and D = mem_gorm and E = sample_env and w = fresh_writer]
  by (simp add: sample_api_def)

section \<open>Every request is answered\<close>

lemma mux_frame:
  assumes "mux D E r (a, w) = (p, a', w')"
  shows "p \<noteq> Some BlockedForever \<and> (a' = a \<or> req_Path r = ''/ws'')"
proof (cases "cleanPath (req_Path r) \<noteq> req_Path r \<or> route_of (as_hub a \<noteq> None) (req_Path r) = None")
  case True
  with assms show ?thesis by (auto simp: mux_def split: if_splits)
next
  case False
  then obtain rt where rt: "route_of (as_hub a \<noteq> None) (req_Path r) = Some rt" by blast
  with False assms have run: "handle_route D E rt r (a, w) = (p, a', w')" by (simp add: mux_def)
  have "rt = RWebSocket \<Longrightarrow> req_Path r = ''/ws''" using rt by (auto simp: route_of_def split: if_splits)
  with handle_route_frame [OF run] show ?thesis by blast
qed

lemma serve_ok:
  "\<exists>a' w'. serve D E r (a, w) = (None, a', w') \<and> (a' = a \<or> req_Path r = ''/ws'')"
proof -
  obtain p a' w' where m: "mux D E r (a, with_cors w) = (p, a', w')" by (metis prod.exhaust)
  from mux_frame [OF m] m show ?thesis
    by (cases p) (auto simp: serve_cases recoveryMiddleware_def)
qed

text \<open>A served request changes nothing but that a WebSocket connection adds a waiting client.\<close>

lemma route_hub_frame:
  assumes "handle_route D E rt r (a, w) = (p, a', w')"
  shows "a' = a \<or> (\<exists>h. as_hub a = Some h \<and> a' = a\<lparr>as_hub := Some (snd (ws_connect h))\<rparr>)"
  using assms handle_route_frame(2) [OF assms]
  by (cases rt) (auto simp: handleWebSocket_def split: if_splits option.splits prod.splits)

lemma serve_hub_frame:
  assumes "serve D E r (a, w) = (p, a', w')"
  shows "a' = a \<or> (\<exists>h. as_hub a = Some h \<and> a' = a\<lparr>as_hub := Some (snd (ws_connect h))\<rparr>)"
proof -
  obtain p1 a1 w1 where m: "mux D E r (a, with_cors w) = (p1, a1, w1)" by (metis prod.exhaust)
  then have "a1 = a \<or> (\<exists>h. as_hub a = Some h \<and> a1 = a\<lparr>as_hub := Some (snd (ws_connect h))\<rparr>)"
    by (auto simp: mux_def dest!: route_hub_frame split: if_splits option.splits)
  with m assms show ?thesis
    by (auto simp: serve_cases recoveryMiddleware_def split: if_splits option.splits)
qed


text \<open>
  With a token configured the preflight request of a browser, which never carries the
  Authorization header, is refused without the headers that would allow the real request,
  although without a token it is answered with them.
\<close>

theorem preflight_refused:
  assumes "req_Method r = ''OPTIONS''" and "req_Header r ''Authorization'' = []" and "req_Path r \<noteq> ''/api/health''"
  shows "case serve D E r (a, fresh_writer) of (p, a', w) \<Rightarrow> p = None \<and> a' = a \<and>
    (\<exists>code hs. w_sent w = Some (code, hs) \<and>
       (if as_token a = [] then code = 200 \<and> hs ''Access-Control-Allow-Origin'' = ''*''
        else code = 401 \<and> hs ''Access-Control-Allow-Origin'' = []))"
  using assms
  by (simp add: serve_cases authorised_def refused_def with_cors_def write_body_def WriteHeader_def fresh_writer_def Let_def)

theorem preflight_refused_witness:
  "status (snd (snd (serve mem_gorm sample_env ((get_request ''/api/nodes'')\<lparr>req_Method := ''OPTIONS''\<rparr>)
     (sample_api ''secret'', fresh_writer)))) = Some 401"
  using preflight_refused [where r = "(get_request ''/api/nodes'')\<lparr>req_Method := ''OPTIONS''\<rparr>" and D = mem_gorm
      and E = sample_env and a = "sample_api ''secret''"]
  by (auto simp: get_request_def sample_api_def status_def split: prod.splits)

section \<open>The node routes\<close>

text \<open>An identifier that stands in a path as one segment.\<close>

definition plain_id :: "string \<Rightarrow> bool" where
  "plain_id n \<longleftrightarrow> n \<noteq> [] \<and> n \<noteq> ''.'' \<and> n \<noteq> ''..'' \<and> CHR ''/'' \<notin> set n"

lemma split_node_path:
  "CHR ''/'' \<notin> set n \<Longrightarrow> split_on (CHR ''/'') (''/api/nodes/'' @ n @ CHR ''/'' # s) =
     [] # ''api'' # ''nodes'' # n # split_on (CHR ''/'') s"
  "CHR ''/'' \<notin> set n \<Longrightarrow> split_on (CHR ''/'') (''/api/nodes/'' @ n) = [[], ''api'', ''nodes'', n]"
  by (simp_all add: split_on_append split_on_none)

lemma clean_node_path:
  assumes "plain_id n"
  shows "cleanPath (''/api/nodes/'' @ n) = ''/api/nodes/'' @ n"
    and "cleanPath (''/api/nodes/'' @ n @ ''/history'') = ''/api/nodes/'' @ n @ ''/history''"
proof -
  have l: "last (''/api/nodes/'' @ n) \<noteq> CHR ''/''"
    using assms by (cases n rule: rev_cases) (auto simp: plain_id_def)
  then show "cleanPath (''/api/nodes/'' @ n) = ''/api/nodes/'' @ n"
    using assms split_node_path(2) [of n] by (simp add: cleanPath_def plain_id_def Let_def)
  have "split_on (CHR ''/'') (''/api/nodes/'' @ n @ ''/history'') = [[], ''api'', ''nodes'', n, ''history'']"
    using split_node_path(1) [of n "''history''"] assms by (simp add: plain_id_def)
  then show "cleanPath (''/api/nodes/'' @ n @ ''/history'') = ''/api/nodes/'' @ n @ ''/history''"
    using assms by (simp add: cleanPath_def plain_id_def Let_def)
qed

lemma route_node_path [simp]: "route_of ws (''/api/nodes/'' @ s) = Some RNodeDetail"
  by (simp add: route_of_def has_prefix_def)

text \<open>What recovery does with the outcome of a handler that leaves the state alone.\<close>

definition recovered :: "'db api \<Rightarrow> go_panic option \<times> 'db api \<times> writer \<Rightarrow> go_panic option \<times> 'db api \<times> writer" where
  "recovered a out = (case out of (None, s) \<Rightarrow> (None, s)
     | (Some p, b, w) \<Rightarrow> if p = BlockedForever then (Some p, b, w) else (None, b, http_Error ''Internal Server Error'' 500 w))"

lemma serve_node:
  assumes "authorised a r" and "req_Method r = ''GET''" and "plain_id n"
    and "req_Path r = ''/api/nodes/'' @ n \<or> req_Path r = ''/api/nodes/'' @ n @ ''/history''"
  shows "serve D E r (a, w) = recovered a (handleNodeDetail D E r (a, with_cors w))"
proof -
  have "cleanPath (req_Path r) = req_Path r" using clean_node_path [OF assms(3)] assms(4) by auto
  moreover have "route_of (as_hub a \<noteq> None) (req_Path r) = Some RNodeDetail"
    using assms(4) route_node_path by metis
  ultimately have "mux D E r (a, with_cors w) = handleNodeDetail D E r (a, with_cors w)"
    by (simp add: mux_def)
  with assms(1,2) show ?thesis by (simp add: serve_cases recoveryMiddleware_def recovered_def)
qed

text \<open>
  C21: an authorised GET of a node answers with the entry of the cluster state when the node is
  known, else with what the store holds, else with 404; a missing store is an internal error and
  nothing else.
\<close>

theorem node_detail_answer:
  assumes "authorised a r" and "req_Method r = ''GET''" and "plain_id n" and "req_Path r = ''/api/nodes/'' @ n"
  shows "serve D E r (a, w) =
    (None, a, case GetNode n (as_sm a) of
       Some ns \<Rightarrow> writeJSON E 200 (JNode ns) (with_cors w)
     | None \<Rightarrow>
         (case as_store a of
            None \<Rightarrow> http_Error ''Internal Server Error'' 500 (with_cors w)
          | Some d \<Rightarrow>
              (case GetNodeState D n d of
                 Inl _ \<Rightarrow> http_Error (json_error ''node not found'') 404 (with_cors w)
               | Inr ns \<Rightarrow> writeJSON E 200 (JNode ns) (with_cors w))))"
proof -
  have "SplitN2 (CHR ''/'') (TrimPrefix (req_Path r) ''/api/nodes/'') = (n, None)"
    using assms(3,4) SplitN2_none TrimPrefix_append by (simp add: plain_id_def del: append.simps)
  then show ?thesis
    using serve_node [OF assms(1-3), of D E w] assms(2,4)
    by (simp add: handleNodeDetail_def recovered_def split: option.splits sum.splits)
qed

theorem node_detail_answer_witness:
  "status (snd (snd (serve mem_gorm sample_env (get_request (''/api/nodes/'' @ ''b'')) (sample_api [], fresh_writer)))) = Some 404"
proof -
  have "authorised (sample_api []) (get_request (''/api/nodes/'' @ ''b''))" by (simp add: authorised_def sample_api_def)
  moreover have "req_Method (get_request (''/api/nodes/'' @ ''b'')) = ''GET''" by simp
  moreover have "plain_id ''b''" by (simp add: plain_id_def)
  moreover have "req_Path (get_request (''/api/nodes/'' @ ''b'')) = ''/api/nodes/'' @ ''b''" by simp
  ultimately have "serve mem_gorm sample_env (get_request (''/api/nodes/'' @ ''b'')) (sample_api [], fresh_writer) =
    (None, sample_api [], http_Error (json_error ''node not found'') 404 (with_cors fresh_writer))"
    using node_detail_answer [where a = "sample_api []" and r = "get_request (''/api/nodes/'' @ ''b'')" and n = "''b''"
        and D = mem_gorm and E = sample_env and w = fresh_writer]
    by (simp add: sample_api_def NewStateManager_def GetNode_def GetNodeState_def mem_defs mem_with_def)
  then show ?thesis by (simp add: with_cors_def fresh_writer_def)
qed



section \<open>WebSocket connections\<close>

text \<open>What the upgrader promises: it refuses a request whose origin its check refuses.\<close>

definition upgrade_checks_origin :: "api_env \<Rightarrow> bool" where
  "upgrade_checks_origin E \<longleftrightarrow> (\<forall>r w. fst (ae_upgrade E False r w) \<noteq> None)"

text \<open>
  C30: a request that adds a WebSocket client is a GET or other non-preflight request of
  \<^verbatim>\<open>/ws\<close> that carries the token, if there is one, and comes from an allowed origin or
  from no browser; it adds exactly one waiting client to the hub and changes nothing else.
\<close>

theorem ws_connection_allowed:
  assumes "upgrade_checks_origin E" and "serve D E r (a, w) = (p, a', w')" and "a' \<noteq> a"
  shows "\<exists>h. as_hub a = Some h \<and> a' = a\<lparr>as_hub := Some (snd (ws_connect h))\<rparr> \<and> req_Path r = ''/ws'' \<and>
    (as_token a = [] \<or> req_Header r ''Authorization'' = ''Bearer '' @ as_token a) \<and>
    (req_Header r ''Origin'' = [] \<or> req_Header r ''Origin'' \<in> set (hb_origins h))"
proof -
  have ok: "authorised a r" "req_Method r \<noteq> ''OPTIONS''" "recoveryMiddleware (mux D E) r (a, with_cors w) = (p, a', w')"
    using assms(2,3) by (auto simp: serve_cases split: if_splits)
  then obtain p' w1 where m: "mux D E r (a, with_cors w) = (p', a', w1)"
    by (auto simp: recoveryMiddleware_def split: prod.splits option.splits if_splits)
  with mux_frame [OF m] assms(3) have path: "req_Path r = ''/ws''" by blast
  have ws: "handleWebSocket E r (a, with_cors w) = (p', a', w1)"
    using m assms(3) path by (auto simp: mux_def route_of_def has_prefix_def split: if_splits)
  from ws assms(3) obtain h where h: "as_hub a = Some h"
    by (auto simp: handleWebSocket_def split: if_splits option.splits)
  then have up: "fst (ae_upgrade E (CheckOrigin (hb_origins h) r) r (with_cors w)) = None"
    "a' = a\<lparr>as_hub := Some (snd (ws_connect h))\<rparr>"
    using ws assms(3) by (auto simp: handleWebSocket_def split: if_splits option.splits prod.splits)
  then have "CheckOrigin (hb_origins h) r" using assms(1) unfolding upgrade_checks_origin_def by (metis (full_types))
  then have "req_Header r ''Origin'' = [] \<or> req_Header r ''Origin'' \<in> set (hb_origins h)"
    by (auto simp: CheckOrigin_def Let_def list_ex_iff split: if_splits)
  with h up(2) path ok(1) show ?thesis by (auto simp: authorised_def)
qed

theorem ws_connection_allowed_witness:
  "\<exists>a' w'. serve mem_gorm sample_env (get_request ''/ws'') ((sample_api [])\<lparr>as_hub := Some (newWSHub [])\<rparr>, fresh_writer) =
      (None, a', w') \<and> a' = (sample_api [])\<lparr>as_hub := Some (snd (ws_connect (newWSHub [])))\<rparr>"
proof -
  let ?a = "(sample_api [])\<lparr>as_hub := Some (newWSHub [])\<rparr>"
  have c: "upgrade_checks_origin sample_env" by (simp add: upgrade_checks_origin_def sample_env_def)
  have clean: "cleanPath ''/ws'' = ''/ws''" by (simp add: cleanPath_def Let_def)
  obtain a' w' where s: "serve mem_gorm sample_env (get_request ''/ws'') (?a, fresh_writer) = (None, a', w')" "a' \<noteq> ?a"
    by (simp add: serve_cases authorised_def sample_api_def recoveryMiddleware_def mux_def clean route_of_def
        has_prefix_def handleWebSocket_def CheckOrigin_def sample_env_def ws_connect_def newWSHub_def)
  from ws_connection_allowed [OF c s] s(1) show ?thesis by auto
qed

end
