(* ===== verification/LifecycleProps.thy ===== *)
theory LifecycleProps
  imports Lifecycle DiscoveryLoops SharedState ApiProps HubRun
begin

text \<open>
  Properties of the whole process: starting up, running and shutting down. A trace is checked
  against a stack of what is held; the running process is a step relation over all its
  goroutines, whose invariant is that of the history synchronisation.
\<close>

section \<open>What a trace holds\<close>

fun held :: "effect list \<Rightarrow> resource list \<Rightarrow> resource list option" where
  "held [] rs = Some rs"
| "held (Acquire r # es) rs = held es (r # rs)"
| "held (Release r # es) rs =
     (case rs of [] \<Rightarrow> None | r' # rs' \<Rightarrow> if r = r' then held es rs' else None)"
| "held (_ # es) rs = held es rs"

lemma held_append: "held (es @ fs) rs = (case held es rs of None \<Rightarrow> None | Some rs' \<Rightarrow> held fs rs')"
  by (induction es rs rule: held.induct) (auto split: list.split)

definition holding :: "bool \<Rightarrow> resource list" where
  "holding api = Loops # (if api then [API] else []) @ [Gossip, Store]"

section \<open>Starting\<close>

lemma default_ok: "\<exists>content. default_content DefaultConfig = Inr content"
  by (simp add: default_content_def DefaultConfig_def)

lemma main_generate_ok: "\<exists>trace. main_generate E = Inr trace \<and> held trace [] = Some []"
proof -
  obtain content where c: "default_content DefaultConfig = Inr content" using default_ok by blast
  then show ?thesis
    by (cases "se_write E ''goggrid.yaml'' content") (auto simp: main_generate_def GenerateDefault_def)
qed

text \<open>A started manager has no stopped loop and no socket left over from a failed start.\<close>

lemma failed_start_closed:
  "discovery_Start L S net d = (Some e, d') \<Longrightarrow> \<not> discovery_open d \<Longrightarrow> \<not> discovery_open d'"
  by (cases d) (auto simp: udp_Start_def mdns_Start_def Let_def split: if_splits option.splits)

lemma chosen_closed: "choose_discovery cfg = Some d \<Longrightarrow> \<not> discovery_open d"
  by (auto simp: choose_discovery_def newUDPDiscovery_def newMDNSDiscovery_def split: if_splits)

definition fresh_manager :: "('m, 'db) manager \<Rightarrow> bool" where
  "fresh_manager m \<longleftrightarrow> \<not> gm_stopped m \<and> idle (gm_gossip m) \<and> sm_inv (gp_sm (gm_gossip m)) \<and> (\<forall>d \<in> set (gm_left m). \<not> discovery_open d)"

lemma gossip_New_fresh: "gossip_New L S cfg sm (Some d) = Inr m \<Longrightarrow> sm_inv sm \<Longrightarrow> fresh_manager m"
  by (auto simp: gossip_New_def Let_def fresh_manager_def idle_def split: sum.splits)

lemma gossip_Start_fresh: "fresh_manager m \<Longrightarrow> \<exists>m'. gossip_Start L S m = (None, m') \<and> fresh_manager m'"
  using chosen_closed failed_start_closed
  by (fastforce simp: gossip_Start_def start_discovery_def join_seeds_def fresh_manager_def idle_def Let_def
      split: option.splits prod.splits)

definition hub_ok :: "('m, 'db) process \<Rightarrow> bool" where
  "hub_ok p \<longleftrightarrow> (\<forall>a h. pr_api p = Some a \<longrightarrow> as_hub a = Some h \<longrightarrow> hub_inv h)"

lemma main_services_ok:
  assumes "good cfg" and "held trace [] = Some [Gossip, Store]" and "fresh_manager m"
  shows "\<exists>p. main_services N cfg nodeID trace m = Inr p \<and> pr_cfg p = cfg \<and> pr_nodeID p = nodeID \<and> pr_gm p = m \<and>
    \<not> pr_cancelled p \<and> hub_ok p \<and> held (pr_trace p) [] = Some (holding (pr_api p \<noteq> None))"
proof -
  obtain b where "ac_Enabled (cfg_API cfg) = Some b" using assms(1) by (auto simp: good_def pointers_ok_def)
  with assms(2) show ?thesis by (auto simp: main_services_def Let_def held_append holding_def hub_ok_def api_New_def hub_inv_new)
qed

definition started :: "('m, 'db) process \<Rightarrow> bool" where
  "started p \<longleftrightarrow> good (pr_cfg p) \<and> fresh_manager (pr_gm p) \<and> \<not> pr_cancelled p \<and> hub_ok p \<and>
     held (pr_trace p) [] = Some (holding (pr_api p \<noteq> None))"

lemma main_run_ok:
  assumes "good cfg" and "held trace [] = Some []"
  shows "(\<exists>es. main_run D N L S E trace cfg = Inr (Inl (es @ [Exit 1])) \<and> held es [] = Some []) \<or>
    (\<exists>p. main_run D N L S E trace cfg = Inr (Inr p) \<and> started p)"
proof (cases "New D (sc_DBPath (cfg_Storage cfg))")
  case (Inl e)
  with assms show ?thesis by (simp add: main_run_def Let_def)
next
  case db: (Inr d)
  let ?n = "node_id (se_hostname E)"
  let ?sm = "NewStateManager (se_now E) (cc_Name (cfg_Cluster cfg)) ?n"
  show ?thesis
  proof (cases "gossip_New L S cfg ?sm (Some d)")
    case (Inl e)
    have "held (trace @ [Acquire Store, Release Store]) [] = Some []" using assms(2) by (simp add: held_append)
    with Inl db show ?thesis by (auto simp: main_run_def Let_def)
  next
    case (Inr m)
    from gossip_New_fresh [OF Inr sm_inv_new] have "fresh_manager m" .
    then obtain m1 where m1: "gossip_Start L S m = (None, m1)" "fresh_manager m1" using gossip_Start_fresh by blast
    have "held (trace @ [Acquire Store] @ [Acquire Gossip]) [] = Some [Gossip, Store]"
      using assms(2) by (simp add: held_append)
    from main_services_ok [OF assms(1) this m1(2), of N ?n] m1 Inr db assms(1) show ?thesis
      by (auto simp: main_run_def Let_def started_def)
  qed
qed

lemma main_start_ok:
  "(\<exists>es. main_start D N L S E = Inr (Inl (es @ [Exit 1])) \<and> held es [] = Some []) \<or>
   (\<exists>p. main_start D N L S E = Inr (Inr p) \<and> started p)"
proof -
  obtain trace where t: "main_generate E = Inr trace" "held trace [] = Some []" using main_generate_ok by blast
  from startup_outcome [of "se_stat E" "se_files E" "se_yaml E" "se_frac E" "se_env E" "fst (se_args E)" "snd (se_args E)"]
    main_run_ok [OF _ t(2), where D = D and N = N and L = L and S = S and E = E] t
  show ?thesis by (fastforce simp: main_start_def)
qed

text \<open>
  C13: whatever the files, the environment, the flags and the outcomes of opening the store,
  creating the memberlist and starting the discovery, \<^verbatim>\<open>main\<close> never panics on the way to
  its wait for a signal. Either it exits with code 1 and holds nothing any more, what it had taken
  being given back in reverse order, or it runs with a valid configuration and holds the store,
  the gossip manager, the API when enabled, and its loops, taken in this order.
\<close>

theorem main_starts_or_exits_clean:
  "case main_start D N L S E of
     Inl panic \<Rightarrow> False
   | Inr (Inl trace) \<Rightarrow> held trace [] = Some [] \<and> last trace = Exit 1
   | Inr (Inr p) \<Rightarrow> held (pr_trace p) [] = Some (holding (pr_api p \<noteq> None)) \<and> Validate (pr_cfg p) = None \<and>
       gp_store (gm_gossip (pr_gm p)) \<noteq> None"
  using main_start_ok [of D N L S E]
  by (auto simp: held_append started_def good_def fresh_manager_def idle_def)

section \<open>Running\<close>

abbreviation gossip_of :: "('m, 'db) process \<Rightarrow> ('m, 'db) gossip" where
  "gossip_of p \<equiv> gm_gossip (pr_gm p)"

definition with_gossip :: "('m, 'db) gossip \<Rightarrow> ('m, 'db) process \<Rightarrow> ('m, 'db) process" where
  "with_gossip g p = p\<lparr>pr_gm := (pr_gm p)\<lparr>gm_gossip := g\<rparr>\<rparr>"

lemma with_gossip_simps [simp]:
  "gossip_of (with_gossip g p) = g" "pr_api (with_gossip g p) = pr_api p" "pr_cfg (with_gossip g p) = pr_cfg p"
  "pr_trace (with_gossip g p) = pr_trace p" "pr_cancelled (with_gossip g p) = pr_cancelled p"
  "pr_nodeID (with_gossip g p) = pr_nodeID p" "gm_stopped (pr_gm (with_gossip g p)) = gm_stopped (pr_gm p)"
  "gm_left (pr_gm (with_gossip g p)) = gm_left (pr_gm p)"
  by (simp_all add: with_gossip_def)

text \<open>
  One step of a running process, by any of its goroutines: the publication of any state (prepared
  by a collection at an earlier time), a step of the history
  synchronisation or of the handling of a message, a member that leaves, an anti-entropy tick, a
  clean-up, the start of the API, a request to it, a step of the WebSocket hub or of a client's pumps, a subscription
  that is made, read or ended, and a sighting of the discovery.
\<close>

inductive process_step ::
    "'db gorm \<Rightarrow> 'b msgpack \<Rightarrow> ('m, 'b) net \<Rightarrow> api_env \<Rightarrow> 'm join
       \<Rightarrow> ('m, 'db) process \<times> resp_thread list \<times> i64 list
       \<Rightarrow> ('m, 'db) process \<times> resp_thread list \<times> i64 list \<Rightarrow> bool"
  for D :: "'db gorm" and M :: "'b msgpack" and N :: "('m, 'b) net" and A :: api_env and join :: "'m join"
  where
  publishes: "collect_publish D M N clk (pr_nodeID p) ns (gossip_of p) = Inr g \<Longrightarrow>
     process_step D M N A join (p, ts, used) (with_gossip g p, ts, used)"
| syncs: "sync_step D M N (gossip_of p, ts, used) (g, ts', used') \<Longrightarrow>
     process_step D M N A join (p, ts, used) (with_gossip g p, ts', used')"
| departs: "process_step D M N A join (p, ts, used) (with_gossip (NotifyLeave D now node (gossip_of p)) p, ts, used)"
| exchanges: "process_step D M N A join (p, ts, used) (with_gossip (antiEntropy_tick M N now idx (gossip_of p)) p, ts, used)"
| cleans: "cleanup_tick D now (pr_cfg p) (gossip_of p) = Inr g \<Longrightarrow>
     process_step D M N A join (p, ts, used) (with_gossip g p, ts, used)"
| serves: "api_request D A r w p = Some (panic, w', p') \<Longrightarrow> process_step D M N A join (p, ts, used) (p', ts, used)"
| serving: "pr_api p = Some a \<Longrightarrow> api_Start err (a\<lparr>as_sm := gp_sm (gossip_of p)\<rparr>) = (err, y, a') \<Longrightarrow>
     process_step D M N A join (p, ts, used) (with_gossip ((gossip_of p)\<lparr>gp_sm := as_sm a'\<rparr>) p, ts, used)"
| pushes: "pr_api p = Some a \<Longrightarrow> as_hub a = Some h \<Longrightarrow> hub_apply op h = Inr h' \<Longrightarrow>
     process_step D M N A join (p, ts, used) (p\<lparr>pr_api := Some (a\<lparr>as_hub := Some h'\<rparr>)\<rparr>, ts, used)"
| watches: "Subscribe (gp_sm (gossip_of p)) = (ch, sm) \<or> Receive ch (gp_sm (gossip_of p)) = Some (e, sm) \<or>
     Unsubscribe ch (gp_sm (gossip_of p)) = Inr sm \<Longrightarrow>
     process_step D M N A join (p, ts, used) (with_gossip ((gossip_of p)\<lparr>gp_sm := sm\<rparr>) p, ts, used)"
| hears: "gm_discovery (pr_gm p) = Some (UseUDP d) \<Longrightarrow>
     udp_receive M join now data (d, gp_list (gossip_of p)) = (d', net) \<Longrightarrow>
     process_step D M N A join (p, ts, used)
       (with_gossip ((gossip_of p)\<lparr>gp_list := net\<rparr>) (p\<lparr>pr_gm := (pr_gm p)\<lparr>gm_discovery := Some (UseUDP d')\<rparr>\<rparr>), ts, used)"
| browses: "gm_discovery (pr_gm p) = Some (UseMDNS v) \<Longrightarrow>
     handleEntry join now infoFields (v, gp_list (gossip_of p)) = (v', net) \<Longrightarrow>
     process_step D M N A join (p, ts, used)
       (with_gossip ((gossip_of p)\<lparr>gp_list := net\<rparr>) (p\<lparr>pr_gm := (pr_gm p)\<lparr>gm_discovery := Some (UseMDNS v')\<rparr>\<rparr>), ts, used)"

inductive process_run ::
    "'db gorm \<Rightarrow> 'b msgpack \<Rightarrow> ('m, 'b) net \<Rightarrow> api_env \<Rightarrow> 'm join \<Rightarrow> ('m, 'db) process
       \<Rightarrow> ('m, 'db) process \<times> resp_thread list \<times> i64 list \<Rightarrow> bool"
  for D :: "'db gorm" and M :: "'b msgpack" and N :: "('m, 'b) net" and A :: api_env and join :: "'m join"
    and p0 :: "('m, 'db) process"
  where
  ready: "process_run D M N A join p0 (p0, [], [])"
| goes_on: "process_run D M N A join p0 c \<Longrightarrow> process_step D M N A join c c' \<Longrightarrow> process_run D M N A join p0 c'"

definition running :: "('m, 'db) process \<times> resp_thread list \<times> i64 list \<Rightarrow> bool" where
  "running = (\<lambda>(p, ts, used).
     sync_inv ts used (gossip_of p) \<and> sm_inv (gp_sm (gossip_of p)) \<and> hub_ok p \<and>
     \<not> gm_stopped (pr_gm p) \<and> \<not> pr_cancelled p \<and>
     held (pr_trace p) [] = Some (holding (pr_api p \<noteq> None)) \<and> (\<forall>d \<in> set (gm_left (pr_gm p)). \<not> discovery_open d))"

lemma running_with_gossip:
  assumes "running (p, ts, used)" and "sync_inv ts' used' g" and "sm_inv (gp_sm g)"
  shows "running (with_gossip g p, ts', used')"
  using assms by (simp add: running_def hub_ok_def)

lemma running_same_sync:
  assumes "running (p, ts, used)" and "gp_store g \<noteq> None" and "gp_pendingSyncs g = gp_pendingSyncs (gossip_of p)"
    and "gp_heap g = gp_heap (gossip_of p)" and "gp_localNode g = gp_localNode (gossip_of p)"
    and "gp_go g = gp_go (gossip_of p)" and "sm_inv (gp_sm g)"
  shows "running (with_gossip g p, ts, used)"
proof (rule running_with_gossip [OF assms(1) _ assms(7)])
  have "sync_inv ts used (gossip_of p)" using assms(1) by (simp add: running_def)
  from sync_inv_cong [OF assms(2-5) _ this] assms(6) show "sync_inv ts used g" by simp
qed

lemma running_sm: "running (p, ts, used) \<Longrightarrow> sm_inv (gp_sm (gossip_of p))"
  by (simp add: running_def)

lemma running_store: "running (p, ts, used) \<Longrightarrow> gp_store (gossip_of p) \<noteq> None"
  by (simp add: running_def sync_inv_def)

lemma collect_total:
  assumes "gp_store g \<noteq> None"
  shows "\<exists>g'. collectAndPublish D M N clk n probe g = Inr g'"
proof -
  obtain r where "collect_prepare D clk n probe g = Inr r" using prepare_total [OF assms] by blast
  then show ?thesis
    using publish_ok [OF assms, of D M N clk n] by (cases r) (fastforce simp: collectAndPublish_def)+
qed

lemma cleanup_frame:
  "gp_store g \<noteq> None \<Longrightarrow> \<exists>st. cleanup_tick D now cfg g = Inr (g\<lparr>gp_store := Some st\<rparr>)"
  by (auto simp: cleanup_tick_def)

lemma leave_frame:
  "\<exists>sm st. NotifyLeave D now node g = g\<lparr>gp_sm := sm, gp_store := st\<rparr> \<and> (st = None) = (gp_store g = None)"
proof -
  obtain sm st where st: "NotifyLeave D now node g = g\<lparr>gp_sm := sm, gp_store := st\<rparr>"
    by (cases "MarkNodeInactive D now (mb_Name node) (gp_sm g, gp_store g)") (simp add: NotifyLeave_def)
  with leave_store [where g = g and D = D and now = now and node = node] have "(st = None) = (gp_store g = None)" by simp
  with st show ?thesis by (intro exI [of _ sm] exI [of _ st] conjI)
qed

lemma request_frame:
  assumes "api_request D A r w p = Some (panic, w', p')"
  shows "panic = None \<and> pr_api p \<noteq> None \<and> (\<exists>a'. p' = p\<lparr>pr_api := Some a'\<rparr>) \<and> (hub_ok p \<longrightarrow> hub_ok p')"
proof -
  obtain a where a: "pr_api p = Some a" using assms by (auto simp: api_request_def split: option.splits)
  let ?a = "a\<lparr>as_sm := gp_sm (gossip_of p), as_store := gp_store (gossip_of p)\<rparr>"
  obtain a' where s: "serve D A r (?a, w) = (None, a', w')" "panic = None" "p' = p\<lparr>pr_api := Some a'\<rparr>"
    using serve_ok [of D A r ?a w] assms a by (auto simp: api_request_def Let_def)
  have "hub_inv (snd (ws_connect h))" if "hub_inv h" for h
    using connect_refines [OF that] by (cases "ws_connect h") auto
  with serve_hub_frame [OF s(1)] s a show ?thesis by (auto simp: hub_ok_def)
qed

lemma running_step:
  assumes "process_step D M N A join c c'" and "running c"
  shows "running c'"
  using assms
proof (induction rule: process_step.induct)
  case (publishes clk p ns g ts used)
  note store = running_store [OF publishes.prems]
  from sm_inv_publish [OF publishes.hyps store running_sm [OF publishes.prems]]
    publish_ok [OF store, of D M N clk "pr_nodeID p" ns] publishes.hyps
    running_same_sync [OF publishes.prems, of g]
  show ?case by auto
next
  case (syncs p ts used g ts' used')
  from sync_step_inv [OF syncs.hyps] syncs.prems have "sync_inv ts' used' g" by (simp add: running_def)
  with sm_inv_sync_step [OF syncs.hyps] running_sm [OF syncs.prems] show ?case
    by (intro running_with_gossip [OF syncs.prems]) simp_all
next
  case (departs p ts used now node)
  obtain sm st where l: "NotifyLeave D now node (gossip_of p) = (gossip_of p)\<lparr>gp_sm := sm, gp_store := st\<rparr>"
    "(st = None) = (gp_store (gossip_of p) = None)"
    using leave_frame [of D now node "gossip_of p"] by (elim exE conjE) (rule that)
  with sm_inv_leave [OF running_sm [OF departs.prems], of D now node] running_store [OF departs.prems] show ?case
    by (intro running_same_sync [OF departs.prems]) simp_all
next
  case (exchanges p ts used now idx)
  obtain l where "antiEntropy_tick M N now idx (gossip_of p) = (gossip_of p)\<lparr>gp_list := l\<rparr>"
    using entropy_frame [of M N now idx "gossip_of p"] by (elim exE) (rule that)
  with running_store [OF exchanges.prems] running_sm [OF exchanges.prems] show ?case
    by (intro running_same_sync [OF exchanges.prems]) simp_all
next
  case (cleans now p g ts used)
  obtain st where "g = (gossip_of p)\<lparr>gp_store := Some st\<rparr>"
    using cleanup_frame [OF running_store [OF cleans.prems], of D now "pr_cfg p"] cleans.hyps by auto
  with running_sm [OF cleans.prems] show ?case by (intro running_same_sync [OF cleans.prems]) simp_all
next
  case (serves r w p panic w' p' ts used)
  with request_frame [OF serves.hyps] show ?case by (auto simp: running_def)
next
  case (serving p a err y a' ts used)
  have "sm_inv (as_sm a')"
    using serving.hyps(2) running_sm [OF serving.prems] sm_inv_Subscribe
    by (auto simp: api_Start_def Run_start_def Let_def split: option.splits prod.splits)
  with running_store [OF serving.prems] show ?case by (intro running_same_sync [OF serving.prems]) simp_all
next
  case (pushes p a h op h' ts used)
  then have "hub_inv h" by (simp add: running_def hub_ok_def)
  with hub_apply_refines [of h op] pushes show ?case by (auto simp: running_def hub_ok_def)
next
  case (watches p ch sm e ts used)
  have "sm_inv sm"
    using watches.hyps sm_inv_Subscribe sm_inv_Receive sm_inv_Unsubscribe running_sm [OF watches.prems] by blast
  with running_store [OF watches.prems] show ?case by (intro running_same_sync [OF watches.prems]) simp_all
next
  case (hears p d now data d' net ts used)
  then have r: "running (p\<lparr>pr_gm := (pr_gm p)\<lparr>gm_discovery := Some (UseUDP d')\<rparr>\<rparr>, ts, used)"
    by (simp add: running_def hub_ok_def)
  with running_store [OF hears.prems] running_sm [OF hears.prems] show ?case
    by (intro running_same_sync [OF r]) simp_all
next
  case (browses p v now infoFields v' net ts used)
  then have r: "running (p\<lparr>pr_gm := (pr_gm p)\<lparr>gm_discovery := Some (UseMDNS v')\<rparr>\<rparr>, ts, used)"
    by (simp add: running_def hub_ok_def)
  with running_store [OF browses.prems] running_sm [OF browses.prems] show ?case
    by (intro running_same_sync [OF r]) simp_all
qed

lemma running_run:
  assumes "process_run D M N A join p0 c" and "started p0"
  shows "running c"
  using assms
proof (induction rule: process_run.induct)
  case ready
  then show ?case using idle_inv by (auto simp: running_def started_def fresh_manager_def)
next
  case (goes_on c c')
  then show ?case using running_step by blast
qed

lemma main_start_started: "main_start D N L S E = Inr (Inr p) \<Longrightarrow> started p"
  using main_start_ok [of D N L S E] by auto

section \<open>Shutting down\<close>

lemma stop_closes: "\<not> discovery_open (discovery_Stop d)"
  by (cases d) (simp_all add: udp_Stop_def mdns_Stop_def)

lemma gossip_Stop_ok:
  assumes "\<not> gm_stopped m" and "\<forall>d \<in> set (gm_left m). \<not> discovery_open d"
  shows "\<exists>err m'. gossip_Stop L m = Inr (err, m') \<and> gm_discovery m' = None \<and>
    (\<forall>d \<in> set (gm_left m'). \<not> discovery_open d) \<and> gm_stopped m' = (err = None) \<and>
    gp_store (gm_gossip m') = gp_store (gm_gossip m)"
  using assms stop_closes
  by (auto simp: gossip_Stop_def stop_discovery_def Let_def split: option.split prod.split)

lemma hub_Stop_stopped: "hb_stopped (hub_Stop h)"
  by (simp add: hub_Stop_def)

lemma shutdown_running:
  assumes "running (p, ts, used)"
  shows "\<exists>p'. main_shutdown D L p = Inr p' \<and> held (pr_trace p') [] = Some [] \<and> last (pr_trace p') = Exit 0 \<and>
    pr_cancelled p' \<and> gm_discovery (pr_gm p') = None \<and> (\<forall>d \<in> set (gm_left (pr_gm p')). \<not> discovery_open d) \<and>
    (\<forall>a h. pr_api p' = Some a \<longrightarrow> as_hub a = Some h \<longrightarrow> hb_stopped h) \<and>
    map_option (\<lambda>d. snd (Close D d)) (gp_store (gossip_of p)) = gp_store (gossip_of p')"
proof -
  obtain d where d: "gp_store (gossip_of p) = Some d" using running_store [OF assms] by blast
  obtain err m where m: "gossip_Stop L (pr_gm p) = Inr (err, m)" "gm_discovery m = None"
    "\<forall>d \<in> set (gm_left m). \<not> discovery_open d" "gp_store (gm_gossip m) = Some d"
    using gossip_Stop_ok [of "pr_gm p" L] assms d by (auto simp: running_def)
  obtain e d' where cl: "Close D d = (e, d')" by fastforce
  show ?thesis
  proof (cases "pr_api p")
    case None
    with assms m cl d show ?thesis
      by (simp add: main_shutdown_def Let_def held_append running_def holding_def)
  next
    case (Some a)
    with assms m cl d show ?thesis
      by (auto simp: main_shutdown_def Let_def held_append running_def holding_def api_Stop_def hub_Stop_stopped)
  qed
qed

text \<open>
  C7: however the goroutines of a started process interleave (collections, history synchronisation,
  received messages, members that leave, anti-entropy, clean-ups, API requests, WebSocket pushes
  and discovery), in every state it reaches none of these steps can panic, with one exception: a
  received cluster sync with a nil node crashes it. (The tickers that the loops begin with need
  positive intervals, which is a property of its own.) The state manager that they all share stays
  consistent: nodes under their own identifiers, bounded queues, open channels of the subscribers.
\<close>

theorem running_process_safe:
  assumes "main_start D N L S E = Inr (Inr p0)" and "process_run D M N A join p0 (p, ts, used)"
  shows "(\<exists>g. collectAndPublish D M N clk (pr_nodeID p) probe (gossip_of p) = Inr g) \<and>
    (\<exists>g. collect_publish D M N clk (pr_nodeID p) ns (gossip_of p) = Inr g) \<and>
    (\<exists>g. cleanupLoop D (pr_cfg p) [now] (gossip_of p) = Inr g) \<and>
    (\<forall>t \<in> set ts. \<exists>t' g. resp_step D t (gossip_of p) = Inr (t', g)) \<and>
    (\<forall>gr \<in> set (gp_go (gossip_of p)). \<exists>g. run_goroutine M N now ctx gr (gossip_of p) = Inr g) \<and>
    (\<forall>a. pr_api p = Some a \<longrightarrow> (\<exists>w' p'. api_request D A r w p = Some (None, w', p'))) \<and>
    (\<forall>a h. pr_api p = Some a \<longrightarrow> as_hub a = Some h \<longrightarrow> (\<exists>h'. hub_apply op h = Inr h')) \<and>
    sm_inv (gp_sm (gossip_of p)) \<and>
    ((\<exists>panic. handleMessage D M N clk data (gossip_of p) = Inl panic) \<longleftrightarrow>
      (\<exists>msg payload. DecodeMessage M data = Inr msg \<and> gm_Type msg = MsgClusterSync \<and>
         mp_UnmarshalClusterSync M (gm_Payload msg) = Inr payload \<and> None \<in> set (cp_Nodes payload)))"
proof -
  have run: "running (p, ts, used)" using running_run [OF assms(2) main_start_started [OF assms(1)]] .
  then have inv: "sync_inv ts used (gossip_of p)" by (simp add: running_def)
  have refs: "mget (gp_heap (gossip_of p)) (go_addr gr) \<noteq> None" if "gr \<in> set (gp_go (gossip_of p))" for gr
    using inv that by (simp add: sync_inv_def refs_ok_def)
  have hub: "\<exists>h'. hub_apply op h = Inr h'" if "pr_api p = Some a" "as_hub a = Some h" for a h
    using run that hub_apply_refines [of h op] by (auto simp: running_def hub_ok_def)
  have req: "\<exists>w' p'. api_request D A r w p = Some (None, w', p')" if "pr_api p = Some a" for a
    using that request_frame [of D A r w p] by (fastforce simp: api_request_def Let_def split: prod.split)
  show ?thesis
    using collect_total [OF running_store [OF run], of D M N clk "pr_nodeID p" probe]
      publish_ok [OF running_store [OF run], of D M N clk "pr_nodeID p" ns]
      cleanup_frame [OF running_store [OF run], of D now "pr_cfg p"] resp_step_ok [OF inv, of _ D]
      goroutine_step [OF inv refs, of _ M N now ctx] req hub running_sm [OF run] handleMessage_panics [OF inv, of D M N clk data]
    by simp blast
qed


section \<open>A sample process\<close>

definition sample_ml :: "(string \<times> wire) list memberlist" where
  "sample_ml = \<lparr>mm_Create = (\<lambda>_. Inr []), mm_Join = (\<lambda>as out. ((1, None), out)), mm_Leave = (\<lambda>_ out. (None, out)),
     mm_Shutdown = (\<lambda>out. (None, out)), mm_LocalAddr = (\<lambda>_. ''10.0.0.1''), mm_LocalPort = (\<lambda>_. 7946),
     mm_LocalAddress = (\<lambda>_. ''10.0.0.1:7946'')\<rparr>"

definition sample_system :: system where
  "sample_system = \<lparr>sy_interfaces = Inr [], sy_dial = Inr ''10.0.0.1'', sy_listenUDP = (\<lambda>_. None),
     sy_serveMDNS = (\<lambda>_ _. None)\<rparr>"

definition sample_start :: "(string \<times> wire) list start_env" where
  "sample_start = \<lparr>se_args = ([], no_flags), se_stat = (\<lambda>_. True), se_files = (\<lambda>_. Inl NotExist),
     se_write = (\<lambda>_ _. None), se_yaml = (\<lambda>_ c. Inr c), se_frac = (\<lambda>_ _ _. 0), se_env = (\<lambda>_. []),
     se_hostname = Some ''a'', se_now = 0\<rparr>"

lemma New_mem: "path \<noteq> [] \<Longrightarrow> \<exists>d. New mem_gorm path = Inr d"
  by (simp add: New_def exec_or_def mem_defs mem_fresh_def mem_consistent_def
      create_index_sql_def drop_old_index_sql_def)

lemma sample_process: "\<exists>p. main_start mem_gorm (box_net two_members) sample_ml sample_system sample_start = Inr (Inr p)"
proof -
  have cfg: "startup_config (\<lambda>_. True) (\<lambda>_. Inl NotExist) (\<lambda>_ c. Inr c) (\<lambda>_ _ _. 0) (\<lambda>_. []) [] no_flags =
      Inr (Inr DefaultConfig)"
    by (simp add: startup_config_def LoadConfigFile_def Load_def DefaultConfig_def ApplyEnv_def ParseFlags_def
        setting_defs no_flags_def)
  obtain d where d: "New mem_gorm (sc_DBPath (cfg_Storage DefaultConfig)) = Inr d"
    using New_mem [of "sc_DBPath (cfg_Storage DefaultConfig)"] by (auto simp: DefaultConfig_def)
  have "ac_Enabled (cfg_API DefaultConfig) = Some True" by (simp add: DefaultConfig_def)
  with cfg d show ?thesis
    by (auto simp: main_start_def main_generate_def sample_start_def main_run_def gossip_New_def sample_ml_def
        gossip_Start_def main_services_def Let_def)
qed

theorem running_process_safe_witness:
  "\<exists>p g. main_start mem_gorm (box_net two_members) sample_ml sample_system sample_start = Inr (Inr p) \<and>
     collectAndPublish mem_gorm wire_pack (box_net two_members) (\<lambda>_. 0) (pr_nodeID p) sample_probe (gossip_of p) = Inr g"
proof -
  obtain p where p: "main_start mem_gorm (box_net two_members) sample_ml sample_system sample_start = Inr (Inr p)"
    using sample_process by blast
  have "process_run mem_gorm wire_pack (box_net two_members) sample_env (\<lambda>as out. ((1, None), out)) p (p, [], [])"
    by (rule process_run.ready)
  from conjunct1 [OF running_process_safe [OF p this]] p show ?thesis by blast
qed


section \<open>What goes wrong\<close>

text \<open>
  When memberlist reports an error on its shutdown, the stop channel stays open: no wake-up of the
  anti-entropy loop can end it. A stop after a successful stop panics.
\<close>

lemma failed_shutdown_keeps_loop:
  assumes "mm_Shutdown L (snd (mm_Leave L (5 * second) (gp_list (gm_gossip m)))) = (Some e, net)"
    and "\<not> gm_stopped m"
  shows "\<exists>m'. gossip_Stop L m = Inr (Some (''shutdown: '' @ e), m') \<and> \<not> gm_stopped m'"
  using assms by (auto simp: gossip_Stop_def stop_discovery_def Let_def split: option.split prod.split)

lemma second_stop_panics:
  assumes "mm_Shutdown L (snd (mm_Leave L (5 * second) (gp_list (gm_gossip m)))) = (None, net)"
    and "gm_stopped m"
  shows "gossip_Stop L m = Inl CloseOfClosedChannel"
  using assms by (auto simp: gossip_Stop_def stop_discovery_def Let_def split: option.split prod.split)

lemma settings_keep_intervals:
  "cfg_Monitor (set_cluster_name v cfg) = cfg_Monitor cfg" "cfg_Gossip (set_cluster_name v cfg) = cfg_Gossip cfg"
  "cfg_Monitor (set_seeds v cfg) = cfg_Monitor cfg" "cfg_Gossip (set_seeds v cfg) = cfg_Gossip cfg"
  "cfg_Monitor (set_bind v cfg) = cfg_Monitor cfg" "cfg_Gossip (set_bind v cfg) = cfg_Gossip cfg"
  "cfg_Monitor (set_api_bind v cfg) = cfg_Monitor cfg" "cfg_Gossip (set_api_bind v cfg) = cfg_Gossip cfg"
  "cfg_Monitor (set_api_port v cfg) = cfg_Monitor cfg" "cfg_Gossip (set_api_port v cfg) = cfg_Gossip cfg"
  "cfg_Monitor (set_api_token v cfg) = cfg_Monitor cfg" "cfg_Gossip (set_api_token v cfg) = cfg_Gossip cfg"
  "cfg_Monitor (set_discovery_enabled v cfg) = cfg_Monitor cfg" "cfg_Gossip (set_discovery_enabled v cfg) = cfg_Gossip cfg"
  "cfg_Monitor (set_discovery_type v cfg) = cfg_Monitor cfg" "cfg_Gossip (set_discovery_type v cfg) = cfg_Gossip cfg"
  "cfg_Monitor (set_discovery_port v cfg) = cfg_Monitor cfg" "cfg_Gossip (set_discovery_port v cfg) = cfg_Gossip cfg"
  "cfg_Monitor (set_discovery_interval frac v cfg) = cfg_Monitor cfg"
  "cfg_Gossip (set_discovery_interval frac v cfg) = cfg_Gossip cfg"
  "cfg_Monitor (set_ws_origins v cfg) = cfg_Monitor cfg" "cfg_Gossip (set_ws_origins v cfg) = cfg_Gossip cfg"
  by (auto simp: setting_defs split: option.split)

lemma set_ws_keeps_intervals:
  "set_ws_enabled v cfg = Inr cfg' \<Longrightarrow> cfg_Monitor cfg' = cfg_Monitor cfg \<and> cfg_Gossip cfg' = cfg_Gossip cfg"
  by (auto simp: set_ws_enabled_def write_ws_enabled_def split: option.splits if_splits)

lemma file_keeps_negative:
  assumes "mergeConfig dst src = Inr cfg"
  shows "mc_Interval (cfg_Monitor src) \<noteq> 0 \<Longrightarrow> mc_Interval (cfg_Monitor cfg) = mc_Interval (cfg_Monitor src)"
    and "gc_SyncInterval (cfg_Gossip src) \<noteq> 0 \<Longrightarrow> gc_SyncInterval (cfg_Gossip cfg) = gc_SyncInterval (cfg_Gossip src)"
  using assms by (auto simp: mergeConfig_def)

text \<open>
  The intervals are not validated. A configuration file with a negative monitoring or
  synchronisation interval is accepted, with any environment and flags, and the configuration
  passes \<^verbatim>\<open>Validate\<close>; but then the sampler, the monitor loop or the anti-entropy loop
  panics when it makes its ticker, which ends the process.
\<close>

theorem negative_interval_crashes:
  assumes "path \<noteq> []" and "Load fs yaml path = Inr loaded"
    and "mc_Interval (cfg_Monitor loaded) < 0" and "gc_SyncInterval (cfg_Gossip loaded) < 0"
  shows "\<exists>cfg. startup_config stat fs yaml frac env path fl = Inr (Inr cfg) \<and> Validate cfg = None \<and>
    StartCPUSampler (mc_Interval (cfg_Monitor cfg)) sample ticks cache = Inl NonPositiveTicker \<and>
    monitorLoop D M N cfg n first_reading readings g = Inl NonPositiveTicker \<and>
    antiEntropyLoop M N cfg ws g = Inl NonPositiveTicker"
proof -
  from good_merge [OF good_default] obtain c where c: "mergeConfig DefaultConfig loaded = Inr c" "good c" by blast
  from good_env [OF c(2)] obtain c1 where c1: "ApplyEnv frac env c = Inr c1" "good c1" by blast
  from good_flags [OF c1(2)] obtain c2 where c2: "ParseFlags frac fl c1 = Inr c2" "good c2" by blast
  have "cfg_Monitor c1 = cfg_Monitor c \<and> cfg_Gossip c1 = cfg_Gossip c"
    using c1(1) by (auto simp: ApplyEnv_def settings_keep_intervals dest!: set_ws_keeps_intervals)
  moreover have "cfg_Monitor c2 = cfg_Monitor c1 \<and> cfg_Gossip c2 = cfg_Gossip c1"
    using c2(1) by (auto simp: ParseFlags_def settings_keep_intervals dest!: set_ws_keeps_intervals)
  ultimately have "mc_Interval (cfg_Monitor c2) < 0" "gc_SyncInterval (cfg_Gossip c2) < 0"
    using file_keeps_negative [OF c(1)] assms(3,4) by simp_all
  with assms(1,2) c c1 c2 show ?thesis
    by (intro exI [of _ c2])
       (simp add: startup_config_def LoadConfigFile_def good_def StartCPUSampler_def monitorLoop_def
          antiEntropyLoop_def new_ticker_def)
qed

theorem negative_interval_crashes_witness:
  "\<exists>cfg. startup_config (\<lambda>_. True) (\<lambda>_. Inr ''x'') (\<lambda>_ c. Inr (c\<lparr>cfg_Monitor := \<lparr>mc_Interval = - 1\<rparr>,
      cfg_Gossip := \<lparr>gc_SyncInterval = - 1, gc_ProbeInterval = second\<rparr>\<rparr>)) (\<lambda>_ _ _. 0) (\<lambda>_. []) ''c.yaml'' no_flags =
     Inr (Inr cfg) \<and> Validate cfg = None"
proof -
  let ?yaml = "\<lambda>_ c. Inr (c\<lparr>cfg_Monitor := \<lparr>mc_Interval = - 1\<rparr>,
      cfg_Gossip := \<lparr>gc_SyncInterval = - 1, gc_ProbeInterval = second\<rparr>\<rparr>)"
  let ?l = "DefaultConfig\<lparr>cfg_Monitor := \<lparr>mc_Interval = - 1\<rparr>,
      cfg_Gossip := \<lparr>gc_SyncInterval = - 1, gc_ProbeInterval = second\<rparr>\<rparr>"
  have l: "Load (\<lambda>_. Inr ''x'') ?yaml ''c.yaml'' = Inr ?l" by (simp add: Load_def)
  have n: "''c.yaml'' \<noteq> []" "mc_Interval (cfg_Monitor ?l) < 0" "gc_SyncInterval (cfg_Gossip ?l) < 0" by simp_all
  from negative_interval_crashes [OF n(1) l n(2,3), of "\<lambda>_. True" "\<lambda>_ _ _. 0" "\<lambda>_. []" no_flags]
  show ?thesis by blast
qed

end
