(* ===== verification/Spec2Isabelle.thy ===== *)
theory Spec2Isabelle
  imports StorageProps HubRun ClusterLife MdnsLoop LifecycleProps
begin

text \<open>
  A verification library of GogGrid, a Go daemon that collects the metrics of its host,
  spreads them to a cluster by gossip, keeps a history of them in SQLite, and serves both over
  HTTP and WebSocket. This theory imports all others; each property of the manifest stands with
  its proof in the theory of its component.

  \<^bold>\<open>The program and its models.\<close>
  \<^item> \<^verbatim>\<open>pkg/models\<close>: \<open>Models\<close> (the structs, \<open>VectorClock\<close> with \<open>Compare\<close>, \<open>Merge\<close>
    and \<open>Increment\<close>). The Go values that all parts use (maps, nil maps, 64-bit integers,
    instants, tickers, buffered channels, panics) are in \<open>Prelude\<close>, the functions of the
    standard library on strings, paths, numbers and durations in \<open>GoStd\<close>.
  \<^item> \<^verbatim>\<open>pkg/storage\<close>: \<open>Storage\<close> (every function, over a record \<open>gorm\<close> of the calls to GORM),
    \<open>StorageSpec\<close> (the locales of what the database promises), \<open>MemDB\<close> (their interpretation on
    executable tables), \<open>StorageProps\<close>.
  \<^item> \<^verbatim>\<open>pkg/state\<close>: \<open>StateManager\<close> (every method), \<open>StateSteps\<close> (locked sections and history
    writes as a step relation), \<open>StateProps\<close>, \<open>Convergence\<close> (replicas under any delivery).
  \<^item> \<^verbatim>\<open>pkg/gossip\<close>: \<open>Message\<close>, \<open>Gossip\<close> (handlers, broadcasts, history synchronisation),
    \<open>GossipSync\<close> (its goroutines as a step relation), \<open>GossipPull\<close> (a whole pull against a
    peer), \<open>GossipProps\<close>; \<open>Discovery\<close>, \<open>DiscoveryProps\<close>, \<open>DiscoveryLoops\<close> and
    \<open>MdnsLoop\<close> (the two goroutines of the mDNS loop and their channel) for
    \<^verbatim>\<open>discovery.go\<close>, \<^verbatim>\<open>discovery_udp.go\<close> and \<^verbatim>\<open>discovery_mdns.go\<close>; \<open>New\<close>,
    \<open>Start\<close>, \<open>Stop\<close> and the anti-entropy loop are in \<open>Lifecycle\<close>.
  \<^item> \<^verbatim>\<open>pkg/config\<close>: \<open>Config\<close>, \<open>ConfigProps\<close>, \<open>ConfigFile\<close> (the generated file).
  \<^item> \<^verbatim>\<open>pkg/monitor\<close>: \<open>Monitor\<close> (readings of the host, with the facts read once
    and the cache of the CPU sampler).
  \<^item> \<^verbatim>\<open>pkg/api\<close>: \<open>Http\<close> (requests, responses, middlewares), \<open>Hub\<close> (the WebSocket hub and the
    pumps of a client), \<open>HubProps\<close>, \<open>HubRun\<close> (its loop with the forwarder, from a change of
    the cluster state to the frames of a client), \<open>Api\<close> (handlers, routes, the order of the middlewares),
    \<open>ApiProps\<close>.
  \<^item> \<^verbatim>\<open>cmd/GogGrid\<close>: \<open>Node\<close> (collecting and publishing, the loops), \<open>Replication\<close> (which
    entries each operation of a node reads and writes), \<open>NodeProps\<close>, \<open>Cluster\<close> (many nodes over
    one network), \<open>ClusterLife\<close> (their crashes and restarts),
    \<open>SharedState\<close> (the gossip layer keeps the state manager consistent), \<open>Lifecycle\<close>
    (start-up and shutdown), \<open>LifecycleProps\<close>.

  \<^bold>\<open>Conventions.\<close> A computation that may panic has type \<open>'a go\<close>: \<open>Inl\<close> the panic,
  with \<open>BlockedForever\<close> for a send that nobody receives, or \<open>Inr\<close> the value. Errors of the
  program are values. Objects behind pointers that outlive their map entry (pending
  synchronisations, WebSocket clients) live in heaps indexed by addresses. Goroutines are the
  steps of inductive relations, one step per section that holds a lock or per case of a
  \<^verbatim>\<open>select\<close>. A function that reads the clock or a random number takes the readings.
  Loops over sockets, tickers and channels take the list of what they meet.
  In a cluster all nodes begin without entries and may crash and restart at any time (the runs
  without restarts are the relation \<open>cluster_run\<close>); the network is the set of all messages that
  were ever sent, any of which may arrive at any node at any time, or never. A wrap-around of a
  counter does not break \<open>cluster_entries_genuine\<close>; what is said of the last published state asks
  that the counters are positive, which holds until one of them overflows.


  \<^bold>\<open>What the lemmas show.\<close>
  \<^item> Replication: \<open>Compare\<close> and \<open>Merge\<close> are the order and the join of vector clocks
    (\<open>Models\<close>); what a node publishes is a causal history and replicas that receive it in any
    order agree (\<open>Convergence\<close>, \<open>NodeProps\<close>). The locale \<open>causal_register\<close> and its extension
    \<open>entry_register\<close> carry the argument; they are interpreted on the entries of the state manager.
  \<^item> Clusters: whatever the network does and however often nodes restart, every entry in a cluster
    was published by its node; a push-pull leaves both ends with the later version of every node
    (the locale \<open>entry_register\<close> once more, with the lexicographic order of clock and time); a
    restarted node is accepted again after one exchange.
  \<^item> The state manager: the branches of its operations, consistency in any interleaving, events
    and their buffers of 64, the history of accepted changes.
  \<^item> Storage: the locales \<open>gorm_sqlite\<close> and \<open>history_store\<close>, paging, retention and import.
  \<^item> History synchronisation: no interleaving panics or blocks, each pull has one outcome, a pull
    from an honest peer with fewer than 50000 rows completes (pages of 500, at most 100 of them;
    the number of rounds of the theorem is the number of pages, so no fuel is left open).
  \<^item> Hub: it refines a map of bounded queues (256 messages); streams have no gaps, from the
    change of the cluster state to the frame; its pumps and its forwarder end.
  \<^item> Discovery: which addresses are joined, the order of the entries of the mDNS loop, its end.
  \<^item> API: authorisation, no crash, the answers of the node routes.
  \<^item> Configuration: loading is total and valid, the precedence of the sources, the generated file.
  \<^item> Process: \<open>main\<close> starts or exits without a leak; the invariant of the running process
    composes those of its parts; the shutdown releases everything in reverse order. \<open>held\<close>
    checks a trace against a stack; a release in the trace is the call of the closing operation,
    whatever error it reports.

  \<^bold>\<open>What is assumed of other code.\<close> GORM and SQLite: \<open>gorm_sqlite\<close>, interpreted on
  \<open>mem_gorm\<close>. msgpack: \<open>msgpack_ok\<close>, a decoded value reads as the encoded one, shown of
  \<open>wire_pack\<close>. That a state read from the store has no clock: \<open>clocks_not_stored\<close>, shown of
  \<open>mem_gorm\<close>. The float product of the duration parser: \<open>exact_product\<close>, on at most
  nine digits. The WebSocket upgrade: \<open>upgrade_checks_origin\<close>. Memberlist, the mDNS library, the
  YAML and JSON codecs, the file system, the clock and gopsutil are arguments without a hypothesis.

  \<^bold>\<open>Not modelled, and why.\<close>
  \<^item> Log lines, and command line parsing by the flag package: no state of the program.
  \<^item> The inside of the libraries above; the frames of the WebSocket protocol (read limits,
    deadlines and pongs only decide when a read or write fails, which is an argument).
  \<^item> The HTTP server's \<^verbatim>\<open>ListenAndServe\<close>, host names and percent escapes in paths.
  \<^item> Floating-point arithmetic: a float64 is its 64 bits, since the program only copies it.
  \<^item> Data races on unlocked fields of Go values; each locked section is atomic here.
  \<^item> The signal and the operating system calls of \<^verbatim>\<open>pkg/monitor\<close>: their outcomes are the
    input.

  \<^bold>\<open>Plan.\<close> The forwarder of the hub and the mDNS loop as
  steps of the process relation.
\<close>

end
